(* ===== verification/Prelude.thy ===== *)
theory Prelude
  imports Main "HOL-Library.Word"
begin

text \<open>
  Shared vocabulary of the development: the machine integers of the Rust sources, the
  \<open>Result\<close> type, computations that may panic, saturating and checked arithmetic, and
  Rust strings as sequences of Unicode scalar values. Every component theory imports it.

  Rust integers keep their width: \<open>u32\<close> and \<open>u64\<close> are HOL words. The laws below move
  each operation to \<open>nat\<close> through \<^const>\<open>unat\<close>; the collection \<open>word_nat\<close> holds them.
\<close>

named_theorems word_nat \<open>machine-word operations and comparisons read as natural numbers\<close>
named_theorems exec_simps \<open>case analysis of computations that may panic\<close>

section \<open>Machine integers\<close>

type_synonym u8 = "8 word"
type_synonym u32 = "32 word"
type_synonym u64 = "64 word"

text \<open>\<open>quota::Nanos\<close>: nanoseconds since an arbitrary epoch.\<close>

type_synonym nanos = u64

abbreviation u64_max :: nat where
  "u64_max \<equiv> 18446744073709551615"

abbreviation u32_max :: nat where
  "u32_max \<equiv> 4294967295"

text \<open>Rust's \<open>saturating_add\<close>, \<open>saturating_sub\<close> and \<open>saturating_mul\<close> on unsigned integers.\<close>

definition saturating_add :: "'a::len word \<Rightarrow> 'a word \<Rightarrow> 'a word" where
  "saturating_add a b = (if unat a + unat b < 2 ^ LENGTH('a) then a + b else - 1)"

definition saturating_sub :: "'a::len word \<Rightarrow> 'a word \<Rightarrow> 'a word" where
  "saturating_sub a b = (if b \<le> a then a - b else 0)"

definition saturating_mul :: "'a::len word \<Rightarrow> 'a word \<Rightarrow> 'a word" where
  "saturating_mul a b = (if unat a * unat b < 2 ^ LENGTH('a) then a * b else - 1)"

lemma unat_max_word: "unat (- 1 :: 'a::len word) = 2 ^ LENGTH('a) - 1"
  by (simp add: unsigned_minus_1_eq_mask mask_eq_exp_minus_1)

lemma unat_saturating_add [word_nat]:
  "unat (saturating_add a b) = min (unat a + unat b) (2 ^ LENGTH('a) - 1)" for a b :: "'a::len word"
  by (auto simp: saturating_add_def unat_max_word unat_word_ariths)

lemma unat_saturating_sub [word_nat]: "unat (saturating_sub a b) = unat a - unat b"
  by (auto simp: saturating_sub_def unat_sub word_le_nat_alt)

lemma unat_saturating_mul [word_nat]:
  "unat (saturating_mul a b) = min (unat a * unat b) (2 ^ LENGTH('a) - 1)" for a b :: "'a::len word"
  by (auto simp: saturating_mul_def unat_max_word unat_word_ariths)

lemma unat_u64_bound: "unat (w :: u64) \<le> u64_max"
  using unsigned_less [of w, where ?'a = nat] by simp

lemma unat_u32_bound: "unat (w :: u32) \<le> u32_max"
  using unsigned_less [of w, where ?'a = nat] by simp

lemma unat_max [word_nat]: "unat (max a b) = max (unat a) (unat b)" for a b :: "'a::len word"
  by (simp add: max_def word_le_nat_alt)

lemma unat_u32_to_u64 [word_nat]: "unat (ucast (w :: u32) :: u64) = unat w"
  using unsigned_less [of w, where ?'a = nat]
  by (simp add: unsigned_ucast_eq take_bit_nat_eq_self)

lemma unat_u64_to_u32 [word_nat]: "unat (ucast (w :: u64) :: u32) = unat w mod 2 ^ 32"
  by (simp add: unsigned_ucast_eq take_bit_eq_mod)

declare word_le_nat_alt [word_nat] word_less_nat_alt [word_nat] unat_div [word_nat]

lemma word_eq_unatI: "unat a = unat b \<Longrightarrow> a = b"
  by (simp add: word_unat_eq_iff)

section \<open>Results and panics\<close>

text \<open>Rust's \<open>Result<T, E>\<close>.\<close>

datatype ('a, 'e) result = Ok (ok_val: 'a) | Err (err_val: 'e)

fun is_ok :: "('a, 'e) result \<Rightarrow> bool" where
  "is_ok (Ok _) = True"
| "is_ok (Err _) = False"

text \<open>
  A computation that returns a value or panics with a message. Assertions, division by zero
  and (in debug builds) integer overflow are the panics of the sources.
\<close>

datatype 'a exec = Done (done_val: 'a) | Panic string

fun bind_exec :: "'a exec \<Rightarrow> ('a \<Rightarrow> 'b exec) \<Rightarrow> 'b exec" where
  "bind_exec (Done a) f = f a"
| "bind_exec (Panic msg) f = Panic msg"

fun returns :: "'a exec \<Rightarrow> bool" where
  "returns (Done _) = True"
| "returns (Panic _) = False"

text \<open>\<open>assert!(cond, msg)\<close> followed by the rest of the function.\<close>

definition assert_exec :: "bool \<Rightarrow> string \<Rightarrow> 'a exec \<Rightarrow> 'a exec" where
  "assert_exec c msg k = (if c then k else Panic msg)"

lemma bind_exec_Done_iff [exec_simps]:
  "bind_exec m f = Done b \<longleftrightarrow> (\<exists>a. m = Done a \<and> f a = Done b)"
  by (cases m) auto

lemma bind_exec_assoc [exec_simps]:
  "bind_exec (bind_exec m f) g = bind_exec m (\<lambda>a. bind_exec (f a) g)"
  by (cases m) auto

lemma map_exec_Done_iff [exec_simps]: "map_exec f m = Done b \<longleftrightarrow> (\<exists>a. m = Done a \<and> b = f a)"
  by (cases m) auto

lemma returns_iff [exec_simps]: "returns m \<longleftrightarrow> (\<exists>a. m = Done a)"
  by (cases m) auto

lemma returns_assert [simp]: "returns (assert_exec c msg k) \<longleftrightarrow> c \<and> returns k"
  by (simp add: assert_exec_def)

lemma returns_map_exec [simp]: "returns (map_exec f m) = returns m"
  by (cases m) auto

lemma assert_exec_True [simp]: "assert_exec True msg k = k"
  by (simp add: assert_exec_def)

text \<open>
  The operators \<open>-\<close> and \<open>/\<close> on unsigned integers: subtraction below zero panics (it would
  wrap in a build without overflow checks), and so does division by zero.
\<close>

definition checked_minus :: "'a::len word \<Rightarrow> 'a word \<Rightarrow> 'a word exec" where
  "checked_minus a b = (if b \<le> a then Done (a - b) else Panic ''attempt to subtract with overflow'')"

definition checked_div :: "'a::len word \<Rightarrow> 'a word \<Rightarrow> 'a word exec" where
  "checked_div a b = (if b = 0 then Panic ''attempt to divide by zero'' else Done (a div b))"

lemma checked_minus_Done [simp]: "b \<le> a \<Longrightarrow> checked_minus a b = Done (a - b)"
  by (simp add: checked_minus_def)

lemma checked_div_Done [simp]: "b \<noteq> 0 \<Longrightarrow> checked_div a b = Done (a div b)"
  by (simp add: checked_div_def)

lemma checked_div_zero [simp]: "checked_div a 0 = Panic ''attempt to divide by zero''"
  by (simp add: checked_div_def)

section \<open>Strings\<close>

text \<open>
  A Rust \<open>String\<close> is a sequence of Unicode scalar values, written here as their code points.
  \<open>lit\<close> embeds the ASCII literals of the sources.
\<close>

type_synonym rstring = "nat list"

definition lit :: "string \<Rightarrow> rstring" where
  "lit s = map of_char s"

lemma lit_Nil [simp]: "lit [] = []"
  by (simp add: lit_def)

lemma lit_append: "lit (a @ b) = lit a @ lit b"
  by (simp add: lit_def)

section \<open>Natural-number arithmetic used by several components\<close>

lemma min_add_min: "min (a + min b m) m = min (a + b) m" for a b m :: nat
  by auto

lemma div_le_iff_mult_le: "0 < e \<Longrightarrow> c \<le> d div e \<longleftrightarrow> e * c \<le> d" for c d e :: nat
  by (simp add: less_eq_div_iff_mult_less_eq mult.commute)

lemma option_case_zero_max:
  "max (case t of None \<Rightarrow> n | Some x \<Rightarrow> f x) n = max (case t of None \<Rightarrow> 0 | Some x \<Rightarrow> f x) n"
  for n :: nat
  by (simp split: option.split)

end
