(* ===== verification/Duration.thy ===== *)
theory Duration
  imports Prelude
begin

text \<open>
  The parts of \<open>std::time\<close> the crate uses: \<open>Duration\<close> as whole seconds and the nanoseconds
  below one second, with its constructors, \<open>as_nanos\<close>, \<open>is_zero\<close> and division by an integer,
  and \<open>SystemTime\<close> with \<open>checked_add\<close> and \<open>duration_since(UNIX_EPOCH)\<close>. The lemmas read
  every operation on the total number of nanoseconds.
\<close>

section \<open>Duration\<close>

abbreviation nanos_per_sec :: nat where
  "nanos_per_sec \<equiv> 1000000000"

record duration =
  as_secs :: u64
  subsec_nanos :: u32

text \<open>\<open>Duration\<close>'s invariant: the nanoseconds stay below one second.\<close>

definition duration_ok :: "duration \<Rightarrow> bool" where
  "duration_ok d \<longleftrightarrow> unat (subsec_nanos d) < nanos_per_sec"

text \<open>\<open>as_nanos\<close> returns a \<open>u128\<close>, which a duration never exceeds, so a natural number here.\<close>

definition as_nanos :: "duration \<Rightarrow> nat" where
  "as_nanos d = unat (as_secs d) * nanos_per_sec + unat (subsec_nanos d)"

definition zero_duration :: duration where
  "zero_duration = \<lparr>as_secs = 0, subsec_nanos = 0\<rparr>"

definition is_zero :: "duration \<Rightarrow> bool" where
  "is_zero d \<longleftrightarrow> as_secs d = 0 \<and> subsec_nanos d = 0"

text \<open>The duration of \<open>n\<close> nanoseconds, for \<open>n\<close> below the largest duration.\<close>

definition duration_of_nanos :: "nat \<Rightarrow> duration" where
  "duration_of_nanos n =
     \<lparr>as_secs = of_nat (n div nanos_per_sec), subsec_nanos = of_nat (n mod nanos_per_sec)\<rparr>"

definition from_secs :: "u64 \<Rightarrow> duration" where
  "from_secs s = \<lparr>as_secs = s, subsec_nanos = 0\<rparr>"

definition from_nanos :: "u64 \<Rightarrow> duration" where
  "from_nanos n = duration_of_nanos (unat n)"

definition from_micros :: "u64 \<Rightarrow> duration" where
  "from_micros n = duration_of_nanos (unat n * 1000)"

definition from_millis :: "u64 \<Rightarrow> duration" where
  "from_millis n = duration_of_nanos (unat n * 1000000)"

text \<open>\<open>Duration / u32\<close>: seconds and nanoseconds are divided apart, and the remainders' share is
  added to the nanoseconds. Dividing by zero panics.\<close>

definition duration_div :: "duration \<Rightarrow> u32 \<Rightarrow> duration exec" where
  "duration_div d rhs =
     (if rhs = 0 then Panic ''divide by zero error when dividing duration by scalar''
      else
        let r = unat rhs;
            secs = unat (as_secs d) div r;
            extra_secs = unat (as_secs d) mod r;
            nanos = unat (subsec_nanos d) div r;
            extra_nanos = unat (subsec_nanos d) mod r
        in Done \<lparr>as_secs = of_nat secs,
                 subsec_nanos = of_nat (nanos + (extra_secs * nanos_per_sec + extra_nanos) div r)\<rparr>)"

subsection \<open>Laws\<close>

lemma zero_duration_nanos [simp]: "as_nanos zero_duration = 0" "duration_ok zero_duration"
  by (simp_all add: as_nanos_def zero_duration_def duration_ok_def)

lemma is_zero_iff: "is_zero d \<longleftrightarrow> as_nanos d = 0"
  by (auto simp: is_zero_def as_nanos_def unat_eq_zero)

lemma from_secs_nanos [simp]:
  "as_nanos (from_secs s) = unat s * nanos_per_sec" "duration_ok (from_secs s)"
  by (simp_all add: as_nanos_def from_secs_def duration_ok_def)

lemma unat_of_nat_u64: "n \<le> u64_max \<Longrightarrow> unat (of_nat n :: u64) = n"
  by (simp add: unat_of_nat take_bit_nat_eq_self)

lemma unat_of_nat_u32: "n \<le> u32_max \<Longrightarrow> unat (of_nat n :: u32) = n"
  by (simp add: unat_of_nat take_bit_nat_eq_self)

abbreviation duration_max_nanos :: nat where
  "duration_max_nanos \<equiv> 18446744073709551615999999999"

lemma duration_of_nanos_nanos:
  assumes "n \<le> duration_max_nanos"
  shows "as_nanos (duration_of_nanos n) = n" "duration_ok (duration_of_nanos n)"
proof -
  have s: "n div nanos_per_sec \<le> u64_max" and m: "n mod nanos_per_sec < nanos_per_sec"
    using assms by (simp_all add: div_le_mono [of n duration_max_nanos nanos_per_sec, simplified])
  have u: "unat (of_nat (n div nanos_per_sec) :: u64) = n div nanos_per_sec"
    using s by (rule unat_of_nat_u64)
  have v: "unat (of_nat (n mod nanos_per_sec) :: u32) = n mod nanos_per_sec"
    using m by (intro unat_of_nat_u32) linarith
  show "as_nanos (duration_of_nanos n) = n"
    using u v by (simp add: as_nanos_def duration_of_nanos_def)
  show "duration_ok (duration_of_nanos n)"
    using v m by (simp add: duration_ok_def duration_of_nanos_def)
qed

lemma from_nanos_nanos [simp]: "as_nanos (from_nanos n) = unat n" "duration_ok (from_nanos n)"
  using unat_u64_bound [of n] by (auto simp: from_nanos_def intro!: duration_of_nanos_nanos)

lemma from_micros_nanos [simp]:
  "as_nanos (from_micros n) = unat n * 1000" "duration_ok (from_micros n)"
  using unat_u64_bound [of n] by (auto simp: from_micros_def intro!: duration_of_nanos_nanos)

lemma from_millis_nanos [simp]:
  "as_nanos (from_millis n) = unat n * 1000000" "duration_ok (from_millis n)"
  using unat_u64_bound [of n] by (auto simp: from_millis_def intro!: duration_of_nanos_nanos)

lemma as_nanos_bound: "duration_ok d \<Longrightarrow> as_nanos d \<le> duration_max_nanos"
  using unat_u64_bound [of "as_secs d"] by (simp add: as_nanos_def duration_ok_def)

lemma as_nanos_secs: "duration_ok d \<Longrightarrow> unat (as_secs d) = as_nanos d div nanos_per_sec"
  and as_nanos_subsec: "duration_ok d \<Longrightarrow> unat (subsec_nanos d) = as_nanos d mod nanos_per_sec"
  by (simp_all add: as_nanos_def duration_ok_def)

lemma duration_eq_iff:
  "duration_ok d \<Longrightarrow> duration_ok e \<Longrightarrow> d = e \<longleftrightarrow> as_nanos d = as_nanos e"
  for d e :: duration
  by (metis as_nanos_secs as_nanos_subsec duration.equality old.unit.exhaust word_unat_eq_iff)

text \<open>Dividing the parts apart loses nothing: the result is the floor of the quotient.\<close>

lemma duration_div_parts:
  assumes "0 < r" "n < nanos_per_sec"
  shows "s div r * nanos_per_sec + (n div r + (s mod r * nanos_per_sec + n mod r) div r)
           = (s * nanos_per_sec + n) div r"
    and "n div r + (s mod r * nanos_per_sec + n mod r) div r < nanos_per_sec"
proof -
  have s: "s * nanos_per_sec = s div r * r * nanos_per_sec + s mod r * nanos_per_sec"
    by (metis add_mult_distrib div_mult_mod_eq)
  have n: "n = n div r * r + n mod r"
    by simp
  have split: "s * nanos_per_sec + n
      = (s mod r * nanos_per_sec + n mod r) + (s div r * nanos_per_sec + n div r) * r"
    unfolding add_mult_distrib using s n by (simp add: algebra_simps)
  show "s div r * nanos_per_sec + (n div r + (s mod r * nanos_per_sec + n mod r) div r)
      = (s * nanos_per_sec + n) div r"
    unfolding split using assms(1) by simp
  have lo: "n div r + (s mod r * nanos_per_sec + n mod r) div r = (s mod r * nanos_per_sec + n) div r"
    using div_mult_self1 [of r "s mod r * nanos_per_sec + n mod r" "n div r"] assms(1) n
    by (simp add: algebra_simps)
  have "s mod r * nanos_per_sec + n < r * nanos_per_sec"
  proof -
    have "s mod r * nanos_per_sec + n < Suc (s mod r) * nanos_per_sec"
      using assms(2) by simp
    also have "\<dots> \<le> r * nanos_per_sec"
      using assms(1) by (intro mult_le_mono1) (simp add: Suc_leI)
    finally show ?thesis .
  qed
  then show "n div r + (s mod r * nanos_per_sec + n mod r) div r < nanos_per_sec"
    unfolding lo by (simp add: less_mult_imp_div_less mult.commute)
qed

lemma duration_div_floor:
  assumes "rhs \<noteq> 0" "duration_ok d"
  obtains q where "duration_div d rhs = Done q" "duration_ok q"
    and "as_nanos q = as_nanos d div unat rhs"
proof -
  define r s n where "r = unat rhs" and "s = unat (as_secs d)" and "n = unat (subsec_nanos d)"
  define m where "m = n div r + (s mod r * nanos_per_sec + n mod r) div r"
  have r: "0 < r" using assms(1) by (simp add: r_def unat_gt_0)
  have n: "n < nanos_per_sec" using assms(2) by (simp add: n_def duration_ok_def)
  have m: "m < nanos_per_sec" unfolding m_def by (rule duration_div_parts(2) [OF r n])
  have us: "unat (of_nat (s div r) :: u64) = s div r"
    using unat_u64_bound [of "as_secs d"] div_le_dividend [of s r] s_def
    by (intro unat_of_nat_u64) linarith
  have um: "unat (of_nat m :: u32) = m"
    using m by (intro unat_of_nat_u32) linarith
  let ?q = "\<lparr>as_secs = of_nat (s div r), subsec_nanos = of_nat m\<rparr>"
  have "duration_div d rhs = Done ?q"
    using assms(1) by (simp add: duration_div_def Let_def r_def s_def n_def m_def)
  moreover have "duration_ok ?q" using um m by (simp add: duration_ok_def)
  moreover have "as_nanos ?q = as_nanos d div unat rhs"
    using us um duration_div_parts(1) [OF r n, of s]
    by (simp add: as_nanos_def r_def s_def n_def m_def)
  ultimately show thesis by (rule that)
qed

section \<open>SystemTime\<close>

text \<open>
  Wall-clock time as nanoseconds relative to the Unix epoch, negative before it. The seconds are
  an \<open>i64\<close>: \<open>checked_add\<close> is \<open>None\<close> past its end. \<open>duration_since(UNIX_EPOCH)\<close> fails before
  the epoch.
\<close>

type_synonym system_time = int

abbreviation unix_epoch :: system_time where
  "unix_epoch \<equiv> 0"

definition system_time_checked_add :: "system_time \<Rightarrow> duration \<Rightarrow> system_time option" where
  "system_time_checked_add t d =
     (let r = t + int (as_nanos d) in if r < 2 ^ 63 * int nanos_per_sec then Some r else None)"

definition duration_since_epoch :: "system_time \<Rightarrow> duration option" where
  "duration_since_epoch t = (if 0 \<le> t then Some (duration_of_nanos (nat t)) else None)"

end
