(* ===== verification/Quota.thy ===== *)
theory Quota
  imports Duration
begin

text \<open>
  \<open>src/quota.rs\<close>: a quota is a maximum burst (\<open>u32\<close>) and a window (\<open>Duration\<close>). The
  constructors assert that the burst and the window are positive and that there is at most one
  request per nanosecond; \<open>unlimited\<close> has a burst of 0. GCRA works with the emission interval
  (window / burst, in nanoseconds) and the burst offset (interval * burst), both saturating.

  The lemmas give the invariant of every constructed quota, the exact value of the interval and
  the offset, and how far rounding moves the offset from the window.
\<close>

section \<open>Data and constructors\<close>

record quota =
  max_burst :: u32
  window :: duration

definition with_window :: "u32 \<Rightarrow> duration \<Rightarrow> quota exec" where
  "with_window count w =
     assert_exec (count > 0) ''quota count must be greater than 0'' (
     assert_exec (\<not> is_zero w) ''window must be non-zero'' (
     assert_exec (as_nanos w \<ge> unat count) ''quota cannot allow more than one request per nanosecond'' (
     Done \<lparr>max_burst = count, window = w\<rparr>)))"

definition per_second :: "u32 \<Rightarrow> quota exec" where
  "per_second count = with_window count (from_secs 1)"

definition per_minute :: "u32 \<Rightarrow> quota exec" where
  "per_minute count = with_window count (from_secs 60)"

definition per_hour :: "u32 \<Rightarrow> quota exec" where
  "per_hour count = with_window count (from_secs 3600)"

definition per_day :: "u32 \<Rightarrow> quota exec" where
  "per_day count = with_window count (from_secs 86400)"

definition unlimited :: quota where
  "unlimited = \<lparr>max_burst = 0, window = zero_duration\<rparr>"

definition is_unlimited :: "quota \<Rightarrow> bool" where
  "is_unlimited q \<longleftrightarrow> max_burst q = 0"

section \<open>Derived values\<close>

definition replenish_interval :: "quota \<Rightarrow> duration exec" where
  "replenish_interval q =
     (if is_unlimited q then Done zero_duration else duration_div (window q) (max_burst q))"

definition emission_interval_nanos :: "quota \<Rightarrow> nanos exec" where
  "emission_interval_nanos q =
     bind_exec (replenish_interval q) (\<lambda>d.
       let nanos_u128 = as_nanos d
       in Done (if nanos_u128 > unat (- 1 :: u64) then - 1 else of_nat nanos_u128))"

definition burst_offset_nanos :: "quota \<Rightarrow> nanos exec" where
  "burst_offset_nanos q =
     bind_exec (emission_interval_nanos q) (\<lambda>ei. Done (saturating_mul ei (ucast (max_burst q))))"

section \<open>The quota invariant\<close>

text \<open>What every constructor establishes: a duration within its invariant and, unless the quota is
  unlimited, at least one nanosecond per request.\<close>

definition quota_ok :: "quota \<Rightarrow> bool" where
  "quota_ok q \<longleftrightarrow> duration_ok (window q) \<and>
     (is_unlimited q \<or> unat (max_burst q) \<le> as_nanos (window q))"

definition limited_quota :: "quota \<Rightarrow> bool" where
  "limited_quota q \<longleftrightarrow> quota_ok q \<and> \<not> is_unlimited q"

text \<open>The emission interval and the burst offset as natural numbers.\<close>

definition ei_nat :: "quota \<Rightarrow> nat" where
  "ei_nat q = min (as_nanos (window q) div unat (max_burst q)) u64_max"

definition bo_nat :: "quota \<Rightarrow> nat" where
  "bo_nat q = min (ei_nat q * unat (max_burst q)) u64_max"

lemma max_burst_pos: "limited_quota q \<Longrightarrow> 0 < unat (max_burst q)"
  by (simp add: limited_quota_def is_unlimited_def unat_gt_0)

lemma ei_nat_pos: "limited_quota q \<Longrightarrow> 0 < ei_nat q"
  using max_burst_pos [of q]
  by (auto simp: ei_nat_def limited_quota_def quota_ok_def div_greater_zero_iff)

lemma ei_nat_le_bo_nat: "limited_quota q \<Longrightarrow> ei_nat q \<le> bo_nat q"
  using max_burst_pos [of q] by (auto simp: bo_nat_def ei_nat_def)

lemma bo_nat_bound: "bo_nat q \<le> u64_max"
  by (simp add: bo_nat_def)

lemma ei_nat_bound: "ei_nat q \<le> u64_max"
  by (simp add: ei_nat_def)

lemma emission_interval_limited:
  assumes "limited_quota q"
  shows "emission_interval_nanos q = Done (of_nat (ei_nat q))"
proof -
  have nz: "max_burst q \<noteq> 0" and ok: "duration_ok (window q)"
    using assms by (auto simp: limited_quota_def quota_ok_def is_unlimited_def)
  obtain d where d: "duration_div (window q) (max_burst q) = Done d"
    "as_nanos d = as_nanos (window q) div unat (max_burst q)"
    using duration_div_floor [OF nz ok] by metis
  show ?thesis
  proof (cases "as_nanos d \<le> u64_max")
    case True
    then show ?thesis using nz d
      by (simp add: emission_interval_nanos_def replenish_interval_def is_unlimited_def
          unat_max_word ei_nat_def)
  next
    case False
    then have "ei_nat q = u64_max" using d(2) by (simp add: ei_nat_def)
    then show ?thesis using nz d False
      by (simp add: emission_interval_nanos_def replenish_interval_def is_unlimited_def
          unat_max_word)
  qed
qed

lemma unat_ei_nat: "unat (of_nat (ei_nat q) :: u64) = ei_nat q"
  using ei_nat_bound by (rule unat_of_nat_u64)

lemma unat_bo_nat: "unat (of_nat (bo_nat q) :: u64) = bo_nat q"
  using bo_nat_bound by (rule unat_of_nat_u64)

lemma burst_offset_limited:
  assumes "limited_quota q"
  shows "burst_offset_nanos q = Done (of_nat (bo_nat q))"
proof -
  have "saturating_mul (of_nat (ei_nat q)) (ucast (max_burst q)) = (of_nat (bo_nat q) :: u64)"
    by (rule word_eq_unatI, unfold unat_bo_nat)
      (simp add: unat_saturating_mul unat_ei_nat unat_u32_to_u64 bo_nat_def)
  then show ?thesis
    by (simp add: burst_offset_nanos_def emission_interval_limited [OF assms])
qed

lemma emission_interval_unlimited:
  "is_unlimited q \<Longrightarrow> emission_interval_nanos q = Done 0"
  by (simp add: emission_interval_nanos_def replenish_interval_def)

lemma burst_offset_unlimited: "is_unlimited q \<Longrightarrow> burst_offset_nanos q = Done 0"
  by (simp add: burst_offset_nanos_def emission_interval_unlimited saturating_mul_def)

lemma limited_ei_word_nonzero: "limited_quota q \<Longrightarrow> (of_nat (ei_nat q) :: u64) \<noteq> 0"
  using ei_nat_pos [of q] unat_ei_nat [of q] by auto

lemma with_window_Done:
  assumes "with_window count w = Done q" "duration_ok w"
  shows "limited_quota q" "max_burst q = count" "window q = w"
  using assms
  by (auto simp: with_window_def assert_exec_def limited_quota_def quota_ok_def is_unlimited_def
      split: if_splits)

lemma bo_nat_unsaturated:
  assumes "limited_quota q" "as_nanos (window q) \<le> u64_max"
  shows "ei_nat q = as_nanos (window q) div unat (max_burst q)"
    and "bo_nat q = ei_nat q * unat (max_burst q)"
proof -
  have "as_nanos (window q) div unat (max_burst q) \<le> u64_max"
    using assms(2) div_le_dividend le_trans by blast
  then show ei: "ei_nat q = as_nanos (window q) div unat (max_burst q)"
    by (simp add: ei_nat_def)
  have "ei_nat q * unat (max_burst q) \<le> u64_max"
    using assms(2) div_times_less_eq_dividend le_trans unfolding ei by blast
  then show "bo_nat q = ei_nat q * unat (max_burst q)"
    by (simp add: bo_nat_def)
qed

lemma bo_div_ei:
  assumes "limited_quota q" "as_nanos (window q) \<le> u64_max"
  shows "bo_nat q div ei_nat q = unat (max_burst q)"
  using bo_nat_unsaturated [OF assms] ei_nat_pos [OF assms(1)] by simp

lemma bo_div_ei_le:
  assumes "limited_quota q"
  shows "bo_nat q div ei_nat q \<le> unat (max_burst q)"
proof -
  have "bo_nat q \<le> ei_nat q * unat (max_burst q)" by (simp add: bo_nat_def)
  then have "bo_nat q div ei_nat q \<le> ei_nat q * unat (max_burst q) div ei_nat q"
    by (rule div_le_mono)
  then show ?thesis using ei_nat_pos [OF assms] by simp
qed

lemma bo_nat_near_window:
  assumes "limited_quota q" "as_nanos (window q) \<le> u64_max"
  shows "bo_nat q \<le> as_nanos (window q)"
    and "as_nanos (window q) < bo_nat q + unat (max_burst q)"
proof -
  have "bo_nat q = as_nanos (window q) div unat (max_burst q) * unat (max_burst q)"
    using bo_nat_unsaturated [OF assms] by simp
  then show "bo_nat q \<le> as_nanos (window q)"
    and "as_nanos (window q) < bo_nat q + unat (max_burst q)"
    using mod_less_divisor [OF max_burst_pos [OF assms(1)], of "as_nanos (window q)"]
      div_mult_mod_eq [of "as_nanos (window q)" "unat (max_burst q)"]
    by linarith+
qed

section \<open>Properties\<close>

text \<open>The burst offset of a quota whose window fits in \<open>u64\<close> nanoseconds is the emission
  interval times the burst, and rounding the interval down moves it below the window by less than
  one nanosecond per request. The quotient GCRA reports as the limit is the quota's burst.\<close>

theorem burst_offset_close_to_window:
  assumes "with_window count w = Done q" "duration_ok w" "as_nanos w \<le> u64_max"
  shows "\<exists>ei bo. emission_interval_nanos q = Done ei \<and> burst_offset_nanos q = Done bo \<and>
    unat bo = unat ei * unat count \<and> unat bo \<le> as_nanos w \<and> as_nanos w < unat bo + unat count \<and>
    unat (bo div ei) = unat count"
proof -
  have lq: "limited_quota q" and q: "max_burst q = count" "window q = w"
    using with_window_Done [OF assms(1,2)] by auto
  have w: "as_nanos (window q) \<le> u64_max" using assms(3) q by simp
  obtain ei bo :: u64 where words: "of_nat (ei_nat q) = ei" "of_nat (bo_nat q) = bo"
    and u: "unat ei = ei_nat q" "unat bo = bo_nat q"
    using unat_ei_nat unat_bo_nat by blast
  show ?thesis
    using bo_nat_near_window [OF lq w] bo_nat_unsaturated(2) [OF lq w] bo_div_ei [OF lq w]
    unfolding emission_interval_limited [OF lq] burst_offset_limited [OF lq] q words
    by (intro exI [of _ ei] exI [of _ bo] conjI) (simp_all only: u unat_div)
qed

theorem burst_offset_close_to_window_witness:
  "\<exists>q ei bo. with_window 7 (from_secs 1) = Done q \<and>
    emission_interval_nanos q = Done ei \<and> burst_offset_nanos q = Done bo \<and>
    unat bo = unat ei * 7 \<and> unat bo \<le> 1000000000 \<and> 1000000000 < unat bo + 7 \<and> unat (bo div ei) = 7"
proof -
  let ?q = "\<lparr>max_burst = 7, window = from_secs 1\<rparr>"
  have w: "with_window 7 (from_secs 1) = Done ?q"
    by (simp add: with_window_def assert_exec_def is_zero_iff)
  show ?thesis
    using burst_offset_close_to_window [OF w] w by auto
qed

end
