(* ===== verification/Gcra.thy ===== *)
theory Gcra
  imports Quota
begin

text \<open>
  \<open>src/gcra.rs\<close>: the Generic Cell Rate Algorithm. \<open>check_gcra\<close> is translated with every
  operation at its width: the saturating multiplication, addition and subtraction, the divisions
  (a zero emission interval panics), the narrowing casts, and the plain subtractions, which would
  panic on underflow.

  The abstract algorithm below it (\<open>gcra_conforms\<close>, \<open>gcra_next\<close>) is GCRA's virtual scheduling on
  natural numbers, with no machine integers. \<open>check_gcra_eq\<close> relates the two at every input and
  \<open>check_gcra_refines\<close> shows that they agree while the clock stays below the end of \<open>u64\<close>.
\<close>

section \<open>Data\<close>

record rate_limit_info =
  info_limit :: u32
  remaining :: u32
  info_reset_after :: duration

record rate_limited =
  lim_limit :: u32
  retry_after :: duration
  lim_reset_after :: duration

text \<open>Whole seconds, rounded up.\<close>

definition ceil_secs :: "duration \<Rightarrow> u64" where
  "ceil_secs d =
     (let round_up = (if subsec_nanos d > 0 then 1 else 0)
      in saturating_add (as_secs d) round_up)"

definition retry_after_secs :: "rate_limited \<Rightarrow> u64" where
  "retry_after_secs limited = ceil_secs (retry_after limited)"

section \<open>The check\<close>

definition check_gcra ::
  "nanos option \<Rightarrow> nanos \<Rightarrow> nanos \<Rightarrow> nanos \<Rightarrow> u32 \<Rightarrow> (nanos \<times> rate_limit_info, rate_limited) result exec"
  where
  "check_gcra tat now emission_interval burst_offset cost =
     bind_exec (checked_div burst_offset emission_interval) (\<lambda>quotient.
     let limit = ucast quotient;
         current_tat = max (case tat of None \<Rightarrow> now | Some t \<Rightarrow> t) now;
         increment = saturating_mul emission_interval (ucast cost);
         new_tat = saturating_add current_tat increment;
         allow_at = saturating_sub new_tat burst_offset
     in if allow_at > now then
          bind_exec (checked_minus allow_at now) (\<lambda>wait.
          bind_exec (checked_minus current_tat now) (\<lambda>reset.
          Done (Err \<lparr>lim_limit = limit, retry_after = from_nanos wait,
                     lim_reset_after = from_nanos reset\<rparr>)))
        else
          bind_exec (checked_minus new_tat now) (\<lambda>ahead.
          let diff = saturating_sub burst_offset ahead in
          bind_exec (checked_div diff emission_interval) (\<lambda>left.
          Done (Ok (new_tat, \<lparr>info_limit = limit, remaining = ucast left,
                              info_reset_after = from_nanos ahead\<rparr>)))))"

section \<open>The abstract algorithm\<close>

definition tat_nat :: "nanos option \<Rightarrow> nat" where
  "tat_nat tat = (case tat of None \<Rightarrow> 0 | Some t \<Rightarrow> unat t)"

text \<open>The theoretical arrival time after a request of \<open>cost\<close> cells, and whether it conforms.\<close>

definition gcra_next :: "nat \<Rightarrow> nat \<Rightarrow> nat \<Rightarrow> nat \<Rightarrow> nat" where
  "gcra_next ei tat now cost = max tat now + ei * cost"

definition gcra_conforms :: "nat \<Rightarrow> nat \<Rightarrow> nat \<Rightarrow> nat \<Rightarrow> nat \<Rightarrow> bool" where
  "gcra_conforms ei bo tat now cost \<longleftrightarrow> gcra_next ei tat now cost \<le> now + bo"

text \<open>The new arrival time as the machine computes it: capped at \<open>u64::MAX\<close>.\<close>

definition sat_next :: "nat \<Rightarrow> nat \<Rightarrow> nat \<Rightarrow> nat \<Rightarrow> nat" where
  "sat_next ei tat now cost = min (gcra_next ei tat now cost) u64_max"

lemma tat_nat_simps [simp]: "tat_nat None = 0" "tat_nat (Some t) = unat t"
  by (simp_all add: tat_nat_def)

lemma tat_nat_bound: "tat_nat tat \<le> u64_max"
  using unat_u64_bound by (cases tat) auto

lemma sat_next_ge_now: "now \<le> u64_max \<Longrightarrow> now \<le> sat_next ei tat now cost"
  by (simp add: sat_next_def gcra_next_def)

lemma unat_current_tat:
  "unat (max (case tat of None \<Rightarrow> now | Some t \<Rightarrow> t) now) = max (tat_nat tat) (unat now)"
  by (cases tat) (simp_all add: unat_max)

lemma unat_new_tat:
  "unat (saturating_add (max (case tat of None \<Rightarrow> now | Some t \<Rightarrow> t) now)
                        (saturating_mul ei (ucast (cost :: u32))))
     = sat_next (unat ei) (tat_nat tat) (unat now) (unat cost)"
  by (simp add: unat_saturating_add unat_saturating_mul unat_current_tat unat_u32_to_u64
      min_add_min sat_next_def gcra_next_def)

lemma of_nat_unat_eq: "unat (w :: u64) = n \<Longrightarrow> w = of_nat n"
  by auto

text \<open>What \<open>check_gcra\<close> computes, at every input with a non-zero emission interval.\<close>

lemma check_gcra_eq:
  fixes tat :: "nanos option" and now ei bo :: nanos and cost :: u32
  assumes ei: "ei \<noteq> 0"
  defines "nt \<equiv> sat_next (unat ei) (tat_nat tat) (unat now) (unat cost)"
  shows "check_gcra tat now ei bo cost = Done (
    if nt \<le> unat now + unat bo
    then Ok (of_nat nt,
             \<lparr>info_limit = ucast (bo div ei),
              remaining = of_nat ((unat now + unat bo - nt) div unat ei),
              info_reset_after = from_nanos (of_nat (nt - unat now))\<rparr>)
    else Err \<lparr>lim_limit = ucast (bo div ei),
              retry_after = from_nanos (of_nat (nt - unat bo - unat now)),
              lim_reset_after = from_nanos (of_nat (max (tat_nat tat) (unat now) - unat now))\<rparr>)"
proof -
  define ct where "ct = max (case tat of None \<Rightarrow> now | Some t \<Rightarrow> t) now"
  define new where "new = saturating_add ct (saturating_mul ei (ucast cost))"
  define allow where "allow = saturating_sub new bo"
  have ct: "unat ct = max (tat_nat tat) (unat now)"
    by (simp add: ct_def unat_current_tat)
  have new: "unat new = nt"
    by (simp add: new_def ct_def nt_def unat_new_tat)
  have allow: "unat allow = nt - unat bo"
    by (simp add: allow_def unat_saturating_sub new)
  have now_le: "unat now \<le> nt"
    unfolding nt_def using unat_u64_bound by (rule sat_next_ge_now)
  show ?thesis
  proof (cases "nt \<le> unat now + unat bo")
    case True
    then have ng: "\<not> allow > now" using allow by (auto simp: word_nat)
    have ahead: "new - now = of_nat (nt - unat now)" "now \<le> new"
      using now_le new by (auto intro!: of_nat_unat_eq simp: unat_sub word_le_nat_alt simp del: of_nat_diff)
    have left: "unat (saturating_sub bo (of_nat (nt - unat now))) = unat now + unat bo - nt"
      using True now_le ahead new by (simp add: unat_saturating_sub unat_sub word_le_nat_alt)
    have "(ucast (saturating_sub bo (of_nat (nt - unat now)) div ei) :: u32)
        = of_nat ((unat now + unat bo - nt) div unat ei)"
      by (rule word_eq_unatI) (simp add: unat_u64_to_u32 unat_div left unat_of_nat take_bit_eq_mod)
    moreover have "new = of_nat nt" using new by auto
    ultimately show ?thesis
      using True ng ei ahead
      unfolding check_gcra_def ct_def [symmetric] new_def [symmetric] allow_def [symmetric] Let_def
      by simp
  next
    case False
    then have g: "allow > now" using allow by (auto simp: word_nat)
    have wait: "allow - now = of_nat (nt - unat bo - unat now)" "now \<le> allow"
      using g allow by (auto intro!: of_nat_unat_eq simp: unat_sub word_le_nat_alt word_less_nat_alt simp del: of_nat_diff)
    have reset: "ct - now = of_nat (max (tat_nat tat) (unat now) - unat now)" "now \<le> ct"
      using ct by (auto intro!: of_nat_unat_eq simp: unat_sub word_le_nat_alt simp del: of_nat_diff)
    show ?thesis
      using False g ei wait reset
      unfolding check_gcra_def ct_def [symmetric] new_def [symmetric] allow_def [symmetric] Let_def
      by (simp del: of_nat_diff)
  qed
qed

text \<open>The decision and the numbers of the reply, each as an equation on natural numbers.\<close>

lemma check_gcra_allowed_iff:
  assumes "ei \<noteq> 0"
  shows "(\<exists>r. check_gcra tat now ei bo cost = Done (Ok r)) \<longleftrightarrow>
    sat_next (unat ei) (tat_nat tat) (unat now) (unat cost) \<le> unat now + unat bo"
  using check_gcra_eq [OF assms] by simp

lemma check_gcra_OkD:
  assumes "ei \<noteq> 0" "check_gcra tat now ei bo cost = Done (Ok (new_tat, info))"
  defines "nt \<equiv> sat_next (unat ei) (tat_nat tat) (unat now) (unat cost)"
  shows "nt \<le> unat now + unat bo"
    and "unat new_tat = nt"
    and "info_limit info = ucast (bo div ei)"
    and "remaining info = of_nat ((unat now + unat bo - nt) div unat ei)"
    and "as_nanos (info_reset_after info) = nt - unat now"
proof -
  have le: "nt \<le> u64_max" by (simp add: nt_def sat_next_def)
  show "nt \<le> unat now + unat bo" "unat new_tat = nt" "info_limit info = ucast (bo div ei)"
    "remaining info = of_nat ((unat now + unat bo - nt) div unat ei)"
    "as_nanos (info_reset_after info) = nt - unat now"
    using assms(2) le unfolding check_gcra_eq [OF assms(1)] nt_def [symmetric]
    by (auto simp: unat_of_nat_u64 simp del: of_nat_diff split: if_splits)
qed

lemma check_gcra_ErrD:
  assumes "ei \<noteq> 0" "check_gcra tat now ei bo cost = Done (Err limited)"
  defines "nt \<equiv> sat_next (unat ei) (tat_nat tat) (unat now) (unat cost)"
  shows "unat now + unat bo < nt"
    and "as_nanos (retry_after limited) = nt - unat bo - unat now"
    and "as_nanos (lim_reset_after limited) = max (tat_nat tat) (unat now) - unat now"
    and "lim_limit limited = ucast (bo div ei)"
    and "duration_ok (retry_after limited)"
proof -
  have le: "nt \<le> u64_max" by (simp add: nt_def sat_next_def)
  have le2: "max (tat_nat tat) (unat now) \<le> u64_max"
    using tat_nat_bound [of tat] unat_u64_bound [of now] by simp
  show "unat now + unat bo < nt"
    "as_nanos (retry_after limited) = nt - unat bo - unat now"
    "as_nanos (lim_reset_after limited) = max (tat_nat tat) (unat now) - unat now"
    "lim_limit limited = ucast (bo div ei)" "duration_ok (retry_after limited)"
    using assms(2) le le2 unfolding check_gcra_eq [OF assms(1)] nt_def [symmetric]
    by (auto simp: unat_of_nat_u64 simp del: of_nat_diff split: if_splits)
qed

section \<open>Consequences used by the storages\<close>

text \<open>A TAT in the past is as good as none.\<close>

lemma check_gcra_expired:
  "unat tat \<le> unat now \<Longrightarrow> check_gcra (Some tat) now ei bo cost = check_gcra None now ei bo cost"
  by (simp add: check_gcra_def max_def word_le_nat_alt)

lemma check_gcra_returns_iff: "returns (check_gcra tat now ei bo cost) \<longleftrightarrow> ei \<noteq> 0"
  using check_gcra_eq [of ei tat now bo cost] by (cases "ei = 0") (auto simp: check_gcra_def)

lemma sat_next_conforms_iff:
  "now + bo < u64_max \<Longrightarrow> sat_next ei tat now cost \<le> now + bo \<longleftrightarrow> gcra_conforms ei bo tat now cost"
  by (auto simp: sat_next_def gcra_conforms_def)

lemma sat_next_later:
  assumes "now + bo < sat_next ei tat now cost" "ei * cost \<le> bo" "now \<le> t"
  shows "sat_next ei tat t cost \<le> t + bo \<longleftrightarrow> sat_next ei tat now cost - bo \<le> t"
  using assms by (auto simp: sat_next_def gcra_next_def)

lemma ceil_secs_covers:
  assumes "duration_ok d" "as_nanos d \<le> u64_max"
  shows "as_nanos d \<le> unat (ceil_secs d) * nanos_per_sec"
    and "unat (ceil_secs d) * nanos_per_sec < as_nanos d + nanos_per_sec"
proof -
  have "unat (as_secs d) + 1 \<le> u64_max"
    using assms(2) by (simp add: as_nanos_def)
  then have "unat (ceil_secs d) = unat (as_secs d) + (if subsec_nanos d > 0 then 1 else 0)"
    by (simp add: ceil_secs_def unat_saturating_add)
  then show "as_nanos d \<le> unat (ceil_secs d) * nanos_per_sec"
    and "unat (ceil_secs d) * nanos_per_sec < as_nanos d + nanos_per_sec"
    using assms(1) by (auto simp: as_nanos_def duration_ok_def word_less_nat_alt)
qed

lemma retry_after_iff:
  assumes "ei \<noteq> 0" "check_gcra tat now ei bo cost = Done (Err limited)"
    and "unat ei * unat cost \<le> unat bo" "unat now \<le> unat t"
  shows "(\<exists>r. check_gcra tat t ei bo cost = Done (Ok r)) \<longleftrightarrow>
    unat now + as_nanos (retry_after limited) \<le> unat t"
  using sat_next_later [OF check_gcra_ErrD(1) [OF assms(1,2)] assms(3,4)]
    check_gcra_ErrD(1,2) [OF assms(1,2)]
  unfolding check_gcra_allowed_iff [OF assms(1)] by linarith

text \<open>The facts that evaluate a concrete check.\<close>

lemmas gcra_eval =
  check_gcra_def saturating_mul_def saturating_add_def saturating_sub_def Let_def

section \<open>Properties\<close>

text \<open>C5: while the clock plus the burst offset stays below \<open>u64::MAX\<close>, the machine check is the
  abstract GCRA: it allows exactly the conforming requests, stores the abstract next arrival time,
  reports as remaining the whole emission intervals left, and a denied request is told to wait
  until it conforms.\<close>

theorem check_gcra_refines:
  assumes "ei \<noteq> 0" "unat now + unat bo < u64_max"
  shows "case check_gcra tat now ei bo cost of
      Done (Ok (new_tat, info)) \<Rightarrow>
        gcra_conforms (unat ei) (unat bo) (tat_nat tat) (unat now) (unat cost) \<and>
        unat new_tat = gcra_next (unat ei) (tat_nat tat) (unat now) (unat cost) \<and>
        remaining info = of_nat ((unat now + unat bo - unat new_tat) div unat ei) \<and>
        as_nanos (info_reset_after info) = unat new_tat - unat now
    | Done (Err limited) \<Rightarrow>
        \<not> gcra_conforms (unat ei) (unat bo) (tat_nat tat) (unat now) (unat cost) \<and>
        as_nanos (retry_after limited)
          = min (gcra_next (unat ei) (tat_nat tat) (unat now) (unat cost)) u64_max - unat bo - unat now \<and>
        as_nanos (lim_reset_after limited) = max (tat_nat tat) (unat now) - unat now
    | Panic _ \<Rightarrow> False"
proof -
  define T N E B C where defs: "T = tat_nat tat" "N = unat now" "E = unat ei" "B = unat bo"
    "C = unat cost"
  have eq: "sat_next E T N C = gcra_next E T N C" if "gcra_conforms E B T N C"
    using that assms(2) by (auto simp: sat_next_def gcra_conforms_def defs)
  have iff: "sat_next E T N C \<le> N + B \<longleftrightarrow> gcra_conforms E B T N C"
    using assms(2) unfolding defs by (rule sat_next_conforms_iff)
  show ?thesis
    using check_gcra_OkD [OF assms(1), of tat now bo cost]
      check_gcra_ErrD [OF assms(1), of tat now bo cost]
      check_gcra_returns_iff [of tat now ei bo cost] assms(1) iff eq
    unfolding defs [symmetric] sat_next_def [symmetric]
    by (auto split: exec.splits result.splits)
qed

theorem check_gcra_refines_witness:
  "gcra_conforms 20000000000 60000000000 0 5 1 \<and>
   (\<exists>new_tat info. check_gcra None 5 20000000000 60000000000 1 = Done (Ok (new_tat, info)) \<and>
     unat new_tat = 20000000005 \<and> remaining info = 2)"
  using check_gcra_refines [of 20000000000 5 60000000000 None 1]
  by (simp add: gcra_eval gcra_conforms_def gcra_next_def)

text \<open>\<open>check_gcra\<close> panics exactly when the emission interval is zero: no other division or
  subtraction in it can fail, whatever the stored TAT, the clock, the offset and the cost.\<close>

theorem check_gcra_panics_iff:
  "(\<exists>msg. check_gcra tat now ei bo cost = Panic msg) \<longleftrightarrow> ei = 0"
  using check_gcra_returns_iff [of tat now ei bo cost]
  by (cases "check_gcra tat now ei bo cost") auto

text \<open>C25: \<open>retry_after\<close> is exact. If a request within the tier's limit is denied and nothing else
  changes the bucket, the same request is denied at every later time before
  \<open>now + retry_after\<close> and allowed from then on.\<close>

theorem retry_after_exact:
  assumes "ei \<noteq> 0" "check_gcra tat now ei bo cost = Done (Err limited)"
    and "unat ei * unat cost \<le> unat bo" "unat now \<le> unat t"
  shows "(\<exists>r. check_gcra tat t ei bo cost = Done (Ok r)) \<longleftrightarrow>
    unat now + as_nanos (retry_after limited) \<le> unat t"
  using assms by (rule retry_after_iff)

theorem retry_after_exact_witness:
  "\<exists>limited. check_gcra (Some 60000000000) 0 20000000000 60000000000 1 = Done (Err limited) \<and>
     (\<exists>r. check_gcra (Some 60000000000) 20000000000 20000000000 60000000000 1 = Done (Ok r)) \<and>
     \<not> (\<exists>r. check_gcra (Some 60000000000) 19999999999 20000000000 60000000000 1 = Done (Ok r))"
proof -
  let ?l = "\<lparr>lim_limit = 3, retry_after = from_nanos 20000000000,
             lim_reset_after = from_nanos 60000000000\<rparr>"
  have d: "check_gcra (Some 60000000000) 0 20000000000 60000000000 1 = Done (Err ?l)"
    by (simp add: gcra_eval)
  show ?thesis
    using d retry_after_exact [OF _ d, of 20000000000] retry_after_exact [OF _ d, of 19999999999]
    by simp
qed

text \<open>C26: the \<open>Retry-After\<close> header is the wait rounded up to whole seconds, by less than one
  second, so a client that waits that long is allowed.\<close>

theorem retry_after_secs_suffices:
  assumes "ei \<noteq> 0" "check_gcra tat now ei bo cost = Done (Err limited)"
    and "unat ei * unat cost \<le> unat bo"
    and "unat now + unat (retry_after_secs limited) * nanos_per_sec \<le> unat t"
  shows "(\<exists>r. check_gcra tat t ei bo cost = Done (Ok r)) \<and>
    unat (retry_after_secs limited) * nanos_per_sec < as_nanos (retry_after limited) + nanos_per_sec"
proof -
  have "as_nanos (retry_after limited) \<le> u64_max"
    using check_gcra_ErrD(2) [OF assms(1,2)] by (simp add: sat_next_def)
  note cover = ceil_secs_covers [OF check_gcra_ErrD(5) [OF assms(1,2)] this,
      folded retry_after_secs_def]
  have "unat now \<le> unat t" using assms(4) by simp
  then show ?thesis
    using retry_after_iff [OF assms(1-3)] cover assms(4) by simp
qed

theorem retry_after_secs_suffices_witness:
  "\<exists>limited. check_gcra (Some 60000000000) 500000000 20000000000 60000000000 1 = Done (Err limited) \<and>
     unat (retry_after_secs limited) = 20 \<and>
     (\<exists>r. check_gcra (Some 60000000000) 20500000000 20000000000 60000000000 1 = Done (Ok r))"
proof -
  let ?l = "\<lparr>lim_limit = 3, retry_after = from_nanos 19500000000,
             lim_reset_after = from_nanos 59500000000\<rparr>"
  have d: "check_gcra (Some 60000000000) 500000000 20000000000 60000000000 1 = Done (Err ?l)"
    by (simp add: gcra_eval)
  have s: "retry_after_secs ?l = 20"
    by (simp add: retry_after_secs_def ceil_secs_def from_nanos_def duration_of_nanos_def
        saturating_add_def)
  show ?thesis
    using d s retry_after_secs_suffices [OF _ d, of 20500000000] by simp
qed

text \<open>C27: \<open>remaining\<close> is exact: right after an allowed request, a further request at the same
  time is allowed if and only if it costs at most \<open>remaining\<close>.\<close>

theorem remaining_exact:
  assumes "ei \<noteq> 0" "unat now + unat bo < u64_max" "unat bo div unat ei \<le> u32_max"
    and "check_gcra tat now ei bo cost = Done (Ok (new_tat, info))"
  shows "(\<exists>r. check_gcra (Some new_tat) now ei bo cost' = Done (Ok r)) \<longleftrightarrow>
    unat cost' \<le> unat (remaining info)"
proof -
  define nt where "nt = sat_next (unat ei) (tat_nat tat) (unat now) (unat cost)"
  note ok = check_gcra_OkD [OF assms(1,4), folded nt_def]
  have now_le: "unat now \<le> nt"
    unfolding nt_def using unat_u64_bound by (rule sat_next_ge_now)
  have "(unat now + unat bo - nt) div unat ei \<le> unat bo div unat ei"
    using now_le by (intro div_le_mono) linarith
  then have rem: "unat (remaining info) = (unat now + unat bo - nt) div unat ei"
    using assms(3) ok(4) by (simp add: unat_of_nat_u32)
  have "gcra_conforms (unat ei) (unat bo) nt (unat now) (unat cost') \<longleftrightarrow>
      unat ei * unat cost' \<le> unat now + unat bo - nt"
    using ok(1) now_le by (auto simp: gcra_conforms_def gcra_next_def)
  then show ?thesis
    unfolding check_gcra_allowed_iff [OF assms(1)] rem
    using assms(1) ok(2) sat_next_conforms_iff [OF assms(2)]
    by (simp add: div_le_iff_mult_le unat_gt_0)
qed

theorem remaining_exact_witness:
  "\<exists>new_tat info. check_gcra None 0 20000000000 60000000000 1 = Done (Ok (new_tat, info)) \<and>
     unat (remaining info) = 2 \<and>
     (\<exists>r. check_gcra (Some new_tat) 0 20000000000 60000000000 2 = Done (Ok r)) \<and>
     \<not> (\<exists>r. check_gcra (Some new_tat) 0 20000000000 60000000000 3 = Done (Ok r))"
proof -
  let ?i = "\<lparr>info_limit = 3, remaining = 2, info_reset_after = from_nanos 20000000000\<rparr>"
  have d: "check_gcra None 0 20000000000 60000000000 1 = Done (Ok (20000000000, ?i))"
    by (simp add: gcra_eval)
  show ?thesis
    using d remaining_exact [OF _ _ _ d, of 2] remaining_exact [OF _ _ _ d, of 3] by simp
qed

text \<open>The arrival time a check leaves is its \<open>reset_after\<close> past the clock, or has passed already.\<close>

lemma reset_after_tat:
  assumes "ei \<noteq> 0"
    and "(case check_gcra tat now ei bo cost of
            Done (Ok (new_tat, info)) \<Rightarrow> tat' = Some new_tat \<and> reset = info_reset_after info
          | Done (Err limited) \<Rightarrow> tat' = tat \<and> reset = lim_reset_after limited
          | Panic _ \<Rightarrow> False)"
  shows "max (tat_nat tat') (unat now) = unat now + as_nanos reset"
proof (cases "check_gcra tat now ei bo cost")
  case (Done res)
  show ?thesis
  proof (cases res)
    case (Ok p)
    then obtain n i where p: "res = Ok (n, i)" by (cases p) auto
    have "unat now \<le> sat_next (unat ei) (tat_nat tat) (unat now) (unat cost)"
      using unat_u64_bound [of now] by (simp add: sat_next_def gcra_next_def)
    then show ?thesis
      using assms(2) Done p check_gcra_OkD(2,5) [OF assms(1), of tat now bo cost n i] by simp
  next
    case (Err l)
    then show ?thesis
      using assms(2) Done check_gcra_ErrD(3) [OF assms(1), of tat now bo cost l] by simp
  qed
qed (use assms(2) in simp)

text \<open>A bucket that is not full yet differs from a fresh one, already for a cost of 0.\<close>

lemma check_gcra_not_fresh:
  assumes "ei \<noteq> 0" "unat t < tat_nat tat"
  shows "check_gcra tat t ei bo 0 \<noteq> check_gcra None t ei bo 0"
proof -
  have fresh: "sat_next (unat ei) (tat_nat None) (unat t) 0 = unat t"
    using unat_u64_bound [of t] by (simp add: sat_next_def gcra_next_def)
  have used: "sat_next (unat ei) (tat_nat tat) (unat t) 0 = tat_nat tat"
    using assms(2) tat_nat_bound [of tat] by (simp add: sat_next_def gcra_next_def)
  have "unat t \<noteq> tat_nat tat" using assms(2) by simp
  then show ?thesis
    using check_gcra_eq [OF assms(1), of None t bo 0] check_gcra_eq [OF assms(1), of tat t bo 0] fresh used
      tat_nat_bound [of tat]
    by (auto simp: unat_of_nat_u64 word_unat_eq_iff)
qed

text \<open>C28: \<open>reset_after\<close> is exactly the time until the bucket is full. After an allowed or a denied request, at any
  later clock reading every check gives what it would give on a fresh bucket if and only if \<open>reset_after\<close> has passed; and
  a request for the whole burst is allowed again if and only if it has passed.\<close>

theorem reset_after_restores_full_quota:
  assumes "ei \<noteq> 0"
    and "(case check_gcra tat now ei bo cost of
            Done (Ok (new_tat, info)) \<Rightarrow> tat' = Some new_tat \<and> reset = info_reset_after info
          | Done (Err limited) \<Rightarrow> tat' = tat \<and> reset = lim_reset_after limited
          | Panic _ \<Rightarrow> False)"
    and "unat now \<le> unat t"
  shows "((\<forall>cost'. check_gcra tat' t ei bo cost' = check_gcra None t ei bo cost') \<longleftrightarrow> unat now + as_nanos reset \<le> unat t) \<and>
    (unat bo = unat ei * unat full \<and> unat t + unat bo < u64_max \<longrightarrow>
      ((\<exists>r. check_gcra tat' t ei bo full = Done (Ok r)) \<longleftrightarrow> unat now + as_nanos reset \<le> unat t))"
proof -
  have passed: "unat now + as_nanos reset \<le> unat t \<longleftrightarrow> tat_nat tat' \<le> unat t"
    using reset_after_tat [OF assms(1,2)] assms(3) by linarith
  have "check_gcra tat' t ei bo cost' = check_gcra None t ei bo cost'" if "tat_nat tat' \<le> unat t" for cost'
    using that by (cases tat') (simp_all add: check_gcra_expired)
  moreover have "(\<exists>r. check_gcra tat' t ei bo full = Done (Ok r)) \<longleftrightarrow> tat_nat tat' \<le> unat t"
    if "unat bo = unat ei * unat full" "unat t + unat bo < u64_max"
  proof -
    have "gcra_conforms (unat ei) (unat bo) (tat_nat tat') (unat t) (unat full) \<longleftrightarrow> tat_nat tat' \<le> unat t"
      using that(1) by (auto simp: gcra_conforms_def gcra_next_def)
    then show ?thesis
      using check_gcra_eq [OF assms(1)] sat_next_conforms_iff [OF that(2)] by simp
  qed
  ultimately show ?thesis
    unfolding passed using check_gcra_not_fresh [OF assms(1), of t tat' bo] by (meson not_le)
qed

theorem reset_after_restores_full_quota_witness:
  "\<exists>tat' reset. (case check_gcra None 0 20000000000 60000000000 3 of
       Done (Ok (new_tat, info)) \<Rightarrow> tat' = Some new_tat \<and> reset = info_reset_after info
     | Done (Err limited) \<Rightarrow> tat' = None \<and> reset = lim_reset_after limited
     | Panic _ \<Rightarrow> False) \<and>
     check_gcra tat' 60000000000 20000000000 60000000000 3
       = check_gcra None 60000000000 20000000000 60000000000 3 \<and>
     \<not> (\<exists>r. check_gcra tat' 59999999999 20000000000 60000000000 3 = Done (Ok r))"
  using reset_after_restores_full_quota [where ei = 20000000000 and tat = None and now = 0
      and bo = 60000000000 and cost = 3 and tat' = "Some 60000000000"
      and reset = "from_nanos 60000000000" and t = 60000000000 and full = 3]
    reset_after_restores_full_quota [where ei = 20000000000 and tat = None and now = 0
      and bo = 60000000000 and cost = 3 and tat' = "Some 60000000000"
      and reset = "from_nanos 60000000000" and t = 59999999999 and full = 3]
  by (simp add: gcra_eval)

text \<open>A request that costs more than the whole burst is never allowed, at any time and on any
  bucket (while the clock plus the burst offset stays below \<open>u64::MAX\<close>).\<close>

theorem cost_above_burst_never_allowed:
  assumes "ei \<noteq> 0" "unat now + unat bo < u64_max" "unat bo < unat ei * unat cost"
  shows "\<exists>limited. check_gcra tat now ei bo cost = Done (Err limited)"
proof -
  have "\<not> gcra_conforms (unat ei) (unat bo) (tat_nat tat) (unat now) (unat cost)"
    using assms(3) by (auto simp: gcra_conforms_def gcra_next_def)
  then show ?thesis
    using check_gcra_eq [OF assms(1)] sat_next_conforms_iff [OF assms(2)] by simp
qed

theorem cost_above_burst_never_allowed_witness:
  "\<exists>limited. check_gcra None 7 20000000000 60000000000 4 = Done (Err limited)"
  by (rule cost_above_burst_never_allowed) simp_all

text \<open>C39: a request of cost 0 is allowed exactly when the stored TAT is at most one burst ahead of
  the clock, and then it leaves the bucket as it was. A TAT further ahead (a check whose clock
  reading is older than another's that already went through) denies even a free request.\<close>

theorem zero_cost_allowed_iff:
  assumes "ei \<noteq> 0"
  shows "(\<exists>new_tat info. check_gcra tat now ei bo 0 = Done (Ok (new_tat, info)) \<and>
      unat new_tat = max (tat_nat tat) (unat now)) \<longleftrightarrow> tat_nat tat \<le> unat now + unat bo"
proof -
  have "sat_next (unat ei) (tat_nat tat) (unat now) 0 = max (tat_nat tat) (unat now)"
    using tat_nat_bound [of tat] unat_u64_bound [of now] by (simp add: sat_next_def gcra_next_def)
  moreover have "max (tat_nat tat) (unat now) \<le> u64_max"
    using tat_nat_bound [of tat] unat_u64_bound [of now] by simp
  ultimately show ?thesis
    using check_gcra_eq [OF assms, of tat now bo 0] by (auto simp: unat_of_nat_u64)
qed

theorem zero_cost_allowed_iff_witness:
  "\<not> (\<exists>new_tat info. check_gcra (Some 60000000001) 0 20000000000 60000000000 0
        = Done (Ok (new_tat, info)) \<and> unat new_tat = 60000000001)"
  using zero_cost_allowed_iff [of 20000000000 "Some 60000000001" 0 60000000000] by simp

text \<open>C40: a quota whose burst offset saturates (a window of more than about 584 years, such as
  \<open>Duration::MAX\<close>) limits nothing: every check, of any cost and on any bucket, is allowed.\<close>

theorem saturated_quota_never_limits:
  assumes "with_window count w = Done q" "duration_ok w"
    and "u64_max \<le> as_nanos w div unat count * unat count"
  shows "\<exists>ei bo. emission_interval_nanos q = Done ei \<and> burst_offset_nanos q = Done bo \<and>
    (\<forall>tat now cost. \<exists>r. check_gcra tat now ei bo cost = Done (Ok r))"
proof -
  have lq: "limited_quota q" and q: "max_burst q = count" "window q = w"
    using with_window_Done [OF assms(1,2)] by auto
  have "u64_max \<le> ei_nat q * unat count"
    using assms(3) max_burst_pos [OF lq] q by (auto simp: ei_nat_def min_def)
  then have bo: "bo_nat q = u64_max" by (simp add: bo_nat_def q min_def)
  have "sat_next e t n c \<le> n + unat (of_nat (bo_nat q) :: u64)" for e t n c
    using unat_bo_nat [of q] bo by (simp add: sat_next_def)
  then show ?thesis
    using emission_interval_limited [OF lq] burst_offset_limited [OF lq]
      check_gcra_allowed_iff [OF limited_ei_word_nonzero [OF lq]] by auto
qed

theorem saturated_quota_never_limits_witness:
  "\<exists>q ei bo. with_window 5 (from_secs 18446744073709551615) = Done q \<and>
    emission_interval_nanos q = Done ei \<and> burst_offset_nanos q = Done bo \<and>
    (\<exists>r. check_gcra (Some 1000) 1000 ei bo 4000000000 = Done (Ok r))"
proof -
  let ?w = "from_secs 18446744073709551615"
  have w: "with_window 5 ?w = Done \<lparr>max_burst = 5, window = ?w\<rparr>"
    by (simp add: with_window_def assert_exec_def is_zero_iff)
  show ?thesis using saturated_quota_never_limits [OF w] w by auto
qed

end
