(* ===== verification/Gcra_Runs.thy ===== *)
theory Gcra_Runs
  imports Gcra
begin

text \<open>
  Sequences of requests against one bucket of the abstract GCRA. \<open>gcra_run\<close> decides them in
  order. The two theorems of the algorithm are here, on natural numbers, and the storages inherit
  them: no window ever admits more than its share (\<open>gcra_run_window\<close>), and requests whose every
  window fits are all admitted (\<open>gcra_run_all_iff\<close>).
\<close>

text \<open>A request is its cost and its time.\<close>

type_synonym cell_request = "nat \<times> nat"

fun gcra_run :: "nat \<Rightarrow> nat \<Rightarrow> nat \<Rightarrow> cell_request list \<Rightarrow> bool list" where
  "gcra_run ei bo tat [] = []"
| "gcra_run ei bo tat ((c, t) # rs) =
     (if gcra_conforms ei bo tat t c
      then True # gcra_run ei bo (gcra_next ei tat t c) rs
      else False # gcra_run ei bo tat rs)"

text \<open>The total cost of the admitted requests.\<close>

definition admitted_cost :: "cell_request list \<Rightarrow> bool list \<Rightarrow> nat" where
  "admitted_cost rs ds = (\<Sum>(r, d) \<leftarrow> zip rs ds. if d then fst r else 0)"

lemma admitted_cost_simps [simp]:
  "admitted_cost [] ds = 0"
  "admitted_cost rs [] = 0"
  "admitted_cost (r # rs) (d # ds) = (if d then fst r else 0) + admitted_cost rs ds"
  by (simp_all add: admitted_cost_def)

lemma admitted_cost_none: "True \<notin> set ds \<Longrightarrow> admitted_cost rs ds = 0"
proof (induction rs arbitrary: ds)
  case (Cons r rs)
  then show ?case by (cases ds) auto
qed simp

lemma length_gcra_run [simp]: "length (gcra_run ei bo tat rs) = length rs"
  by (induction ei bo tat rs rule: gcra_run.induct) auto

text \<open>Only the level \<open>max tat t\<close> at the first request matters.\<close>

lemma gcra_run_level:
  assumes "max tat t0 = max tat' t0" "\<forall>r \<in> set rs. t0 \<le> snd r"
  shows "gcra_run ei bo tat rs = gcra_run ei bo tat' rs"
  using assms
proof (induction rs arbitrary: tat tat')
  case (Cons r rs)
  obtain c t where r: "r = (c, t)" by (cases r)
  have "t0 \<le> t" using Cons.prems(2) r by simp
  then have "max tat t = max tat' t" using Cons.prems(1) by linarith
  then have "gcra_next ei tat t c = gcra_next ei tat' t c"
    by (simp add: gcra_next_def)
  moreover have "gcra_run ei bo tat rs = gcra_run ei bo tat' rs"
    using Cons.prems by (intro Cons.IH) simp_all
  ultimately show ?case by (simp add: r gcra_conforms_def)
qed simp

text \<open>From a level of at least \<open>t0\<close>, with all times at most \<open>t1\<close>: if anything is admitted, the
  admitted cost fits between \<open>t0\<close> and one burst past \<open>t1\<close>.\<close>

lemma gcra_run_window_from:
  assumes "\<forall>r \<in> set rs. snd r \<le> t1" "t0 \<le> tat \<or> (\<forall>r \<in> set rs. t0 \<le> snd r)"
    and "True \<in> set (gcra_run ei bo tat rs)"
  shows "t0 + ei * admitted_cost rs (gcra_run ei bo tat rs) \<le> t1 + bo"
  using assms
proof (induction ei bo tat rs arbitrary: t0 rule: gcra_run.induct)
  case (2 ei bo tat c t rs)
  show ?case
  proof (cases "gcra_conforms ei bo tat t c")
    case True
    let ?n = "gcra_next ei tat t c"
    have n: "t0 + ei * c \<le> ?n" "?n \<le> t1 + bo"
      using True 2(3,4) by (auto simp: gcra_next_def gcra_conforms_def)
    show ?thesis
    proof (cases "True \<in> set (gcra_run ei bo ?n rs)")
      case rest: True
      have "(t0 + ei * c) + ei * admitted_cost rs (gcra_run ei bo ?n rs) \<le> t1 + bo"
        using 2(1) [OF True, of "t0 + ei * c"] 2(3) n rest by simp
      then show ?thesis using True by (simp add: algebra_simps)
    next
      case False
      then show ?thesis using True n by (simp add: admitted_cost_none)
    qed
  next
    case False
    then show ?thesis using 2(2) [OF False, of t0] 2(3-5) by auto
  qed
qed simp

lemma gcra_run_window:
  assumes "sorted (map snd rs)" "rs \<noteq> []"
  shows "ei * admitted_cost rs (gcra_run ei bo tat rs) \<le> snd (last rs) - snd (hd rs) + bo"
proof (cases "True \<in> set (gcra_run ei bo tat rs)")
  case True
  have "snd r \<le> snd (last rs) \<and> snd (hd rs) \<le> snd r" if "r \<in> set rs" for r
  proof -
    obtain i where i: "i < length rs" "r = rs ! i" using \<open>r \<in> set rs\<close> by (auto simp: in_set_conv_nth)
    have "map snd rs ! 0 \<le> map snd rs ! i" "map snd rs ! i \<le> map snd rs ! (length rs - 1)"
      using i by (intro sorted_nth_mono [OF assms(1)]; simp)+
    then show ?thesis using i assms(2) by (simp add: hd_conv_nth last_conv_nth)
  qed
  then have "snd (hd rs) + ei * admitted_cost rs (gcra_run ei bo tat rs) \<le> snd (last rs) + bo"
    and "snd (hd rs) \<le> snd (last rs)"
    using True assms(2) by (auto intro!: gcra_run_window_from)
  then show ?thesis by linarith
next
  case False
  then show ?thesis by (simp add: admitted_cost_none)
qed

text \<open>The decisions of a segment of a run are a run from some arrival time.\<close>

lemma gcra_run_drop: "\<exists>tat'. drop i (gcra_run ei bo tat rs) = gcra_run ei bo tat' (drop i rs)"
proof (induction i arbitrary: tat rs)
  case (Suc i)
  show ?case
  proof (cases rs)
    case (Cons r rs')
    then show ?thesis using Suc.IH by (cases r) simp
  qed simp
qed auto

lemma gcra_run_take: "take n (gcra_run ei bo tat rs) = gcra_run ei bo tat (take n rs)"
proof (induction ei bo tat rs arbitrary: n rule: gcra_run.induct)
  case (2 ei bo tat c t rs)
  then show ?case by (cases n) auto
qed simp

lemma gcra_run_segment_window:
  assumes "sorted (map snd rs)" "0 < n" "i + n \<le> length rs"
  shows "ei * admitted_cost (take n (drop i rs)) (take n (drop i (gcra_run ei bo tat rs)))
    \<le> snd (rs ! (i + n - 1)) - snd (rs ! i) + bo"
proof -
  let ?seg = "take n (drop i rs)"
  obtain tat' where seg: "take n (drop i (gcra_run ei bo tat rs)) = gcra_run ei bo tat' ?seg"
    using gcra_run_drop gcra_run_take by metis
  have "sorted (map snd ?seg)"
    using assms(1) by (simp add: drop_map [symmetric] take_map [symmetric] sorted_wrt_take sorted_wrt_drop)
  moreover have "?seg \<noteq> []" using assms(2,3) by auto
  moreover have "hd ?seg = rs ! i" "last ?seg = rs ! (i + n - 1)"
    using assms(2,3) \<open>?seg \<noteq> []\<close> by (simp_all add: hd_conv_nth last_conv_nth min_absorb2)
  ultimately show ?thesis using gcra_run_window [of ?seg ei bo tat'] seg by simp
qed

text \<open>The cost admitted in a span of time.\<close>

definition admitted_between :: "nat \<Rightarrow> nat \<Rightarrow> cell_request list \<Rightarrow> bool list \<Rightarrow> nat" where
  "admitted_between t0 t1 rs ds = (\<Sum>(r, d) \<leftarrow> zip rs ds. if d \<and> t0 \<le> snd r \<and> snd r \<le> t1 then fst r else 0)"

lemma admitted_between_simps [simp]:
  "admitted_between t0 t1 [] ds = 0"
  "admitted_between t0 t1 (r # rs) (d # ds) =
     (if d \<and> t0 \<le> snd r \<and> snd r \<le> t1 then fst r else 0) + admitted_between t0 t1 rs ds"
  by (simp_all add: admitted_between_def)

lemma admitted_between_append:
  "length rs = length ds \<Longrightarrow>
    admitted_between t0 t1 (rs @ rs') (ds @ ds') = admitted_between t0 t1 rs ds + admitted_between t0 t1 rs' ds'"
  by (simp add: admitted_between_def)

lemma admitted_between_outside:
  "\<forall>r \<in> set rs. snd r < t0 \<or> t1 < snd r \<Longrightarrow> admitted_between t0 t1 rs ds = 0"
  by (auto simp: admitted_between_def sum_list_eq_0_iff dest!: set_zip_leftD)

lemma admitted_between_inside:
  "\<forall>r \<in> set rs. t0 \<le> snd r \<and> snd r \<le> t1 \<Longrightarrow> admitted_between t0 t1 rs ds = admitted_cost rs ds"
  unfolding admitted_between_def admitted_cost_def
  by (rule arg_cong [where f = sum_list], rule map_cong) (auto dest!: set_zip_leftD)

text \<open>In time order the requests of a span are a segment.\<close>

lemma sorted_span:
  assumes "sorted (map snd rs)"
  obtains A B C where "rs = A @ B @ C" "\<forall>r \<in> set A. snd r < t0" "\<forall>r \<in> set B. t0 \<le> snd r \<and> snd r \<le> t1"
    "\<forall>r \<in> set C. t1 < snd r"
proof -
  let ?R = "dropWhile (\<lambda>r. snd r < t0) rs"
  have sorted: "sorted (map snd ?R)"
    using assms by (metis map_append sorted_wrt_append takeWhile_dropWhile_id)
  have "\<forall>r \<in> set ?R. t0 \<le> snd r"
  proof (cases ?R)
    case (Cons r R)
    then have "\<not> snd r < t0" by (metis hd_dropWhile list.distinct(1) list.sel(1))
    then show ?thesis using sorted Cons by auto
  next
    case Nil
    show ?thesis unfolding Nil by simp
  qed
  moreover have "\<forall>r \<in> set (dropWhile (\<lambda>r. snd r \<le> t1) ?R). t1 < snd r"
  proof (cases "dropWhile (\<lambda>r. snd r \<le> t1) ?R")
    case (Cons r R)
    then have "\<not> snd r \<le> t1" by (metis hd_dropWhile list.distinct(1) list.sel(1))
    moreover have "sorted (map snd (r # R))"
      using sorted by (metis Cons map_append sorted_wrt_append takeWhile_dropWhile_id)
    ultimately show ?thesis using Cons by auto
  next
    case Nil
    show ?thesis unfolding Nil by simp
  qed
  ultimately show thesis
    by (intro that [of "takeWhile (\<lambda>r. snd r < t0) rs" "takeWhile (\<lambda>r. snd r \<le> t1) ?R" "dropWhile (\<lambda>r. snd r \<le> t1) ?R"])
      (auto dest: set_takeWhileD)
qed

lemma gcra_run_between:
  assumes "sorted (map snd rs)"
  shows "ei * admitted_between t0 t1 rs (gcra_run ei bo tat rs) \<le> t1 - t0 + bo"
proof -
  obtain A B C where rs: "rs = A @ B @ C" and A: "\<forall>r \<in> set A. snd r < t0"
    and B: "\<forall>r \<in> set B. t0 \<le> snd r \<and> snd r \<le> t1" and C: "\<forall>r \<in> set C. t1 < snd r"
    using sorted_span [OF assms] by blast
  let ?ds = "gcra_run ei bo tat rs" and ?i = "length A" and ?n = "length B"
  have ds: "?ds = take ?i ?ds @ take ?n (drop ?i ?ds) @ drop ?n (drop ?i ?ds)"
    by (metis append_take_drop_id)
  have len: "length (take ?i ?ds) = ?i" "length (take ?n (drop ?i ?ds)) = ?n" by (simp_all add: rs)
  have "admitted_between t0 t1 rs ?ds = admitted_between t0 t1 A (take ?i ?ds)
      + (admitted_between t0 t1 B (take ?n (drop ?i ?ds)) + admitted_between t0 t1 C (drop ?n (drop ?i ?ds)))"
    by (subst ds, subst (1) rs) (simp only: admitted_between_append len)
  also have "\<dots> = admitted_cost B (take ?n (drop ?i ?ds))"
    using A B C by (simp add: admitted_between_outside admitted_between_inside)
  finally have eq: "admitted_between t0 t1 rs ?ds = admitted_cost B (take ?n (drop ?i ?ds))" .
  show ?thesis
  proof (cases "B = []")
    case False
    then have "ei * admitted_cost (take ?n (drop ?i rs)) (take ?n (drop ?i ?ds))
        \<le> snd (rs ! (?i + ?n - 1)) - snd (rs ! ?i) + bo"
      by (intro gcra_run_segment_window assms) (simp_all add: rs)
    moreover have "take ?n (drop ?i rs) = B" "rs ! ?i = hd B"
      using False by (simp_all add: rs nth_append hd_conv_nth)
    moreover have "rs ! (?i + ?n - 1) = last B"
    proof -
      have "?i + ?n - 1 = ?i + (?n - 1)" using False by (simp add: Suc_leI)
      then have "rs ! (?i + ?n - 1) = (B @ C) ! (?n - 1)" by (simp only: rs nth_append_length_plus)
      then show ?thesis using False by (simp add: nth_append last_conv_nth)
    qed
    moreover have "t0 \<le> snd (hd B)" "snd (last B) \<le> t1" using B False by simp_all
    ultimately show ?thesis unfolding eq by simp
  qed (simp add: eq)
qed

text \<open>The total cost of the first \<open>j\<close> requests.\<close>

definition cost_upto :: "cell_request list \<Rightarrow> nat \<Rightarrow> nat" where
  "cost_upto rs j = sum_list (map fst (take j rs))"

lemma cost_upto_simps [simp]:
  "cost_upto rs 0 = 0" "cost_upto ((c, t) # rs) (Suc j) = c + cost_upto rs j"
  by (simp_all add: cost_upto_def)

text \<open>Every window of consecutive requests fits: from the start of any request to the end of any
  later one, the cost is at most what the elapsed time and one burst allow.\<close>

fun windows_fit :: "nat \<Rightarrow> nat \<Rightarrow> cell_request list \<Rightarrow> bool" where
  "windows_fit ei bo [] = True"
| "windows_fit ei bo ((c, t) # rs) =
     ((\<forall>j < Suc (length rs). t + ei * cost_upto ((c, t) # rs) (Suc j)
                               \<le> snd (((c, t) # rs) ! j) + bo) \<and> windows_fit ei bo rs)"

lemma all_less_Suc_split: "(\<forall>j < Suc n. P j) \<longleftrightarrow> P 0 \<and> (\<forall>j < n. P (Suc j))"
  using less_Suc_eq_0_disj by auto

lemma gcra_run_all_from:
  "(\<forall>d \<in> set (gcra_run ei bo tat rs). d) \<longleftrightarrow>
     (\<forall>j < length rs. tat + ei * cost_upto rs (Suc j) \<le> snd (rs ! j) + bo) \<and> windows_fit ei bo rs"
proof (induction ei bo tat rs rule: gcra_run.induct)
  case (2 ei bo tat c t rs)
  have next_le: "gcra_next ei tat t c + x \<le> y \<longleftrightarrow> tat + ei * c + x \<le> y \<and> t + ei * c + x \<le> y" for x y
    by (auto simp: gcra_next_def max_def)
  show ?case
  proof (cases "gcra_conforms ei bo tat t c")
    case True
    then have head: "tat + ei * c \<le> t + bo" "t + ei * c \<le> t + bo"
      by (auto simp: gcra_conforms_def gcra_next_def)
    have "(\<forall>d \<in> set (gcra_run ei bo tat ((c, t) # rs)). d) \<longleftrightarrow>
        (\<forall>j < length rs. gcra_next ei tat t c + ei * cost_upto rs (Suc j) \<le> snd (rs ! j) + bo) \<and>
        windows_fit ei bo rs"
      using True 2(1) [OF True] by simp
    then show ?thesis
      using head by (auto simp: next_le all_less_Suc_split add_mult_distrib2 add.assoc)
  next
    case False
    then have "\<not> (tat + ei * c \<le> t + bo \<and> t + ei * c \<le> t + bo)"
      by (auto simp: gcra_conforms_def gcra_next_def max_def split: if_splits)
    then show ?thesis using False by (auto simp: all_less_Suc_split)
  qed
qed simp

lemma gcra_run_all_iff:
  assumes "rs \<noteq> []" "tat \<le> snd (hd rs)"
  shows "(\<forall>d \<in> set (gcra_run ei bo tat rs). d) \<longleftrightarrow> windows_fit ei bo rs"
proof -
  obtain c t rs' where rs: "rs = (c, t) # rs'" using assms(1) by (metis list.exhaust surj_pair)
  have "\<forall>j < length rs. tat + ei * cost_upto rs (Suc j) \<le> snd (rs ! j) + bo" if "windows_fit ei bo rs"
  proof (intro allI impI)
    fix j assume "j < length rs"
    then have "t + ei * cost_upto rs (Suc j) \<le> snd (rs ! j) + bo" using that rs by simp
    moreover have "tat \<le> t" using assms(2) rs by simp
    ultimately show "tat + ei * cost_upto rs (Suc j) \<le> snd (rs ! j) + bo" by linarith
  qed
  then show ?thesis using gcra_run_all_from by blast
qed

end
