(* ===== verification/Storage.thy ===== *)
theory Storage
  imports Gcra_Runs
begin

text \<open>
  \<open>src/storage/mod.rs\<close>: the key of a bucket, the storage error and the result type of
  \<open>Storage::check_and_update\<close>.

  Two contracts are locales. \<open>answering_store\<close>: a storage that answers every request with a limited
  quota with a decision. The trait's contract (check and update atomically, one state per distinct key) is the locale
  \<open>gcra_store\<close>: a step decides one request, and maintenance (garbage collection, expiry) may run
  between requests. What a store promises is stated on the arrival time of each key, in natural
  numbers of the store's own time unit. Inside the locale, every run of a store is shown to decide
  each key's requests as the abstract GCRA does on them alone (\<open>run_refines\<close>); the window bound
  and the absence of interference between keys follow once for all storages.
\<close>

section \<open>Keys, errors and results\<close>

record storage_key =
  key_user :: rstring
  key_tier :: rstring

definition storage_key_new :: "rstring \<Rightarrow> rstring \<Rightarrow> storage_key" where
  "storage_key_new user tier = \<lparr>key_user = user, key_tier = tier\<rparr>"

text \<open>The boxed error is kept as the text it displays.\<close>

datatype storage_error = StorageError rstring

fun display_storage_error :: "storage_error \<Rightarrow> rstring" where
  "display_storage_error (StorageError e) = lit ''storage error: '' @ e"

fun storage_error_source :: "storage_error \<Rightarrow> rstring option" where
  "storage_error_source (StorageError e) = Some e"

type_synonym decision = "(rate_limit_info, rate_limited) result"
type_synonym storage_outcome = "(decision, storage_error) result"

text \<open>The type of \<open>check_and_update\<close> on a storage with state \<open>'s\<close>: the result and the new state.\<close>

type_synonym 's storage_op =
  "'s \<Rightarrow> storage_key \<Rightarrow> quota \<Rightarrow> u32 \<Rightarrow> nanos \<Rightarrow> (storage_outcome \<times> 's) exec"

section \<open>Storages that always answer\<close>

text \<open>Calls made one after another: their results and the final state.\<close>

fun storage_calls ::
  "'s storage_op \<Rightarrow> 's \<Rightarrow> (storage_key \<times> quota \<times> u32 \<times> nanos) list \<Rightarrow> (storage_outcome list \<times> 's) exec" where
  "storage_calls op s [] = Done ([], s)"
| "storage_calls op s ((key, q, cost, now) # rs) =
     bind_exec (op s key q cost now) (\<lambda>(r, s').
     bind_exec (storage_calls op s' rs) (\<lambda>(rs', s''). Done (r # rs', s'')))"

text \<open>A storage that, from every state of its invariant, answers a request with a limited quota with a
  decision and is ready for the next one.\<close>

locale answering_store =
  fixes op :: "'s storage_op"
    and ready :: "'s \<Rightarrow> bool"
  assumes answers: "ready s \<Longrightarrow> limited_quota q \<Longrightarrow>
    \<exists>d s'. op s key q cost now = Done (Ok d, s') \<and> ready s'"
begin

lemma calls_answered:
  assumes "ready s" "\<forall>(key, q, cost, now) \<in> set rs. limited_quota q"
  shows "\<exists>outs s'. storage_calls op s rs = Done (outs, s') \<and> length outs = length rs \<and>
    (\<forall>r \<in> set outs. is_ok r) \<and> ready s'"
  using assms
proof (induction rs arbitrary: s)
  case (Cons r rs)
  obtain key q cost now where r: "r = (key, q, cost, now)" by (cases r)
  then have "limited_quota q" using Cons.prems(2) by simp
  then obtain d s1 where "op s key q cost now = Done (Ok d, s1)" "ready s1"
    using answers [OF Cons.prems(1)] by blast
  moreover obtain outs s' where "storage_calls op s1 rs = Done (outs, s')"
    "length outs = length rs" "\<forall>r \<in> set outs. is_ok r" "ready s'"
    using Cons.IH [OF \<open>ready s1\<close>] Cons.prems(2) by auto
  ultimately show ?case by (simp add: r)
qed simp

end

text \<open>An outcome that allows the request.\<close>

fun reported_allowed :: "storage_outcome \<Rightarrow> bool" where
  "reported_allowed (Ok (Ok _)) = True"
| "reported_allowed _ = False"

section \<open>Runs of a store\<close>

datatype 'k store_event = Request 'k nat nat | Maintain nat

fun event_time :: "'k store_event \<Rightarrow> nat" where
  "event_time (Request k c t) = t"
| "event_time (Maintain t) = t"

text \<open>The decided requests of a run, in order: the key, the cost and time, and the decision.\<close>

fun store_run ::
  "('s \<Rightarrow> 'k \<Rightarrow> nat \<Rightarrow> nat \<Rightarrow> bool \<times> 's) \<Rightarrow> ('s \<Rightarrow> nat \<Rightarrow> 's) \<Rightarrow> 's \<Rightarrow> 'k store_event list
    \<Rightarrow> ('k \<times> cell_request \<times> bool) list" where
  "store_run step tick s [] = []"
| "store_run step tick s (Request k c t # es) =
     (case step s k c t of (d, s') \<Rightarrow> (k, (c, t), d) # store_run step tick s' es)"
| "store_run step tick s (Maintain t # es) = store_run step tick (tick s t) es"

text \<open>The state a run ends in.\<close>

fun store_state ::
  "('s \<Rightarrow> 'k \<Rightarrow> nat \<Rightarrow> nat \<Rightarrow> bool \<times> 's) \<Rightarrow> ('s \<Rightarrow> nat \<Rightarrow> 's) \<Rightarrow> 's \<Rightarrow> 'k store_event list \<Rightarrow> 's" where
  "store_state step tick s [] = s"
| "store_state step tick s (Request k c t # es) = store_state step tick (snd (step s k c t)) es"
| "store_state step tick s (Maintain t # es) = store_state step tick (tick s t) es"

definition requests_of :: "'k \<Rightarrow> ('k \<times> cell_request \<times> bool) list \<Rightarrow> cell_request list" where
  "requests_of k tr = map (\<lambda>(_, r, _). r) (filter (\<lambda>(k', _, _). k' = k) tr)"

definition decisions_of :: "'k \<Rightarrow> ('k \<times> cell_request \<times> bool) list \<Rightarrow> bool list" where
  "decisions_of k tr = map (\<lambda>(_, _, d). d) (filter (\<lambda>(k', _, _). k' = k) tr)"

lemma requests_of_simps [simp]:
  "requests_of k [] = []"
  "requests_of k ((k', r, d) # tr) = (if k' = k then r # requests_of k tr else requests_of k tr)"
  by (simp_all add: requests_of_def)

lemma decisions_of_simps [simp]:
  "decisions_of k [] = []"
  "decisions_of k ((k', r, d) # tr) = (if k' = k then d # decisions_of k tr else decisions_of k tr)"
  by (simp_all add: decisions_of_def)

text \<open>A key's decided requests are its request events.\<close>

fun event_requests :: "'k \<Rightarrow> 'k store_event list \<Rightarrow> cell_request list" where
  "event_requests k [] = []"
| "event_requests k (Request k' c t # es) =
     (if k' = k then (c, t) # event_requests k es else event_requests k es)"
| "event_requests k (Maintain t # es) = event_requests k es"

lemma requests_of_run: "requests_of k (store_run step tick s es) = event_requests k es"
  by (induction step tick s es rule: store_run.induct) (auto split: prod.splits)

lemma event_requests_event: "r \<in> set (event_requests k es) \<Longrightarrow> Request k (fst r) (snd r) \<in> set es"
  by (induction k es rule: event_requests.induct) (auto split: if_splits)

lemma requests_of_times:
  "r \<in> set (requests_of k (store_run step tick s es)) \<Longrightarrow> snd r \<in> event_time ` set es"
  by (induction step tick s es rule: store_run.induct)
    (auto split: prod.splits if_splits)

lemma requests_of_sorted:
  "sorted (map event_time es) \<Longrightarrow> sorted (map snd (requests_of k (store_run step tick s es)))"
  by (induction step tick s es rule: store_run.induct)
    (force split: prod.splits dest: requests_of_times)+

section \<open>The contract\<close>

locale gcra_store =
  fixes step :: "'s \<Rightarrow> 'k \<Rightarrow> nat \<Rightarrow> nat \<Rightarrow> bool \<times> 's"
    and tick :: "'s \<Rightarrow> nat \<Rightarrow> 's"
    and tat :: "'s \<Rightarrow> 'k \<Rightarrow> nat"
    and ei :: "'k \<Rightarrow> nat"
    and bo :: "'k \<Rightarrow> nat"
    and valid :: "'k \<Rightarrow> nat \<Rightarrow> nat \<Rightarrow> bool"
    and inv :: "'s \<Rightarrow> bool"
  assumes decides: "inv s \<Longrightarrow> valid k c t \<Longrightarrow> tat s k \<le> t + bo k \<Longrightarrow>
      fst (step s k c t) \<longleftrightarrow> gcra_conforms (ei k) (bo k) (tat s k) t c"
    and advances: "inv s \<Longrightarrow> valid k c t \<Longrightarrow> tat s k \<le> t + bo k \<Longrightarrow> fst (step s k c t) \<Longrightarrow>
      max (tat (snd (step s k c t)) k) t = gcra_next (ei k) (tat s k) t c"
    and keeps: "inv s \<Longrightarrow> valid k c t \<Longrightarrow> tat s k \<le> t + bo k \<Longrightarrow> \<not> fst (step s k c t) \<Longrightarrow>
      max (tat (snd (step s k c t)) k) t = max (tat s k) t"
    and isolates: "inv s \<Longrightarrow> valid k c t \<Longrightarrow> k' \<noteq> k \<Longrightarrow> max (tat (snd (step s k c t)) k') t = max (tat s k') t"
    and ticks: "inv s \<Longrightarrow> max (tat (tick s t) k) t = max (tat s k) t"
    and step_inv: "inv s \<Longrightarrow> valid k c t \<Longrightarrow> inv (snd (step s k c t))"
    and tick_inv: "inv s \<Longrightarrow> inv (tick s t)"
begin

text \<open>A run over events at non-decreasing times, whose requests are all valid.\<close>

definition proper :: "'k store_event list \<Rightarrow> bool" where
  "proper es \<longleftrightarrow> sorted (map event_time es) \<and> (\<forall>k c t. Request k c t \<in> set es \<longrightarrow> valid k c t)"

lemma proper_Cons:
  "proper (e # es) \<longleftrightarrow> (\<forall>e' \<in> set es. event_time e \<le> event_time e') \<and> proper es \<and>
     (\<forall>k c t. e = Request k c t \<longrightarrow> valid k c t)"
  by (auto simp: proper_def)

lemma level_le:
  assumes "max (tat s' k) t = max x t" "x \<le> t + bo k" "t \<le> t'"
  shows "tat s' k \<le> t' + bo k"
  using assms by linarith

lemma requests_from:
  assumes "\<forall>e \<in> set es. t \<le> event_time e"
  shows "\<forall>r \<in> set (requests_of k (store_run step tick s es)). t \<le> snd r"
  using assms requests_of_times by fastforce

text \<open>Each key's requests are decided as by the abstract algorithm on that key alone.\<close>

lemma run_refines:
  assumes "proper es" "\<forall>e \<in> set es. tat s k \<le> event_time e + bo k" "inv s"
  shows "decisions_of k (store_run step tick s es)
    = gcra_run (ei k) (bo k) (tat s k) (requests_of k (store_run step tick s es))"
  using assms
proof (induction es arbitrary: s)
  case (Cons e es)
  have later: "\<forall>e' \<in> set es. event_time e \<le> event_time e'" and es: "proper es"
    using Cons.prems(1) by (auto simp: proper_Cons)
  have IH: "decisions_of k (store_run step tick s' es)
      = gcra_run (ei k) (bo k) x (requests_of k (store_run step tick s' es))"
    if "max (tat s' k) (event_time e) = max x (event_time e)" "x \<le> event_time e + bo k" "inv s'" for s' x
  proof -
    have "decisions_of k (store_run step tick s' es)
        = gcra_run (ei k) (bo k) (tat s' k) (requests_of k (store_run step tick s' es))"
      using later es level_le [OF that(1,2)] that(3) by (intro Cons.IH) auto
    also have "\<dots> = gcra_run (ei k) (bo k) x (requests_of k (store_run step tick s' es))"
      by (rule gcra_run_level [OF that(1)]) (rule requests_from [OF later])
    finally show ?thesis .
  qed
  have inv: "inv s" by (rule Cons.prems(3))
  show ?case
  proof (cases e)
    case (Maintain t)
    then show ?thesis using IH [of "tick s t" "tat s k"] ticks [OF inv] tick_inv [OF inv] Cons.prems(2) by simp
  next
    case (Request k' c t)
    obtain d s' where st: "step s k' c t = (d, s')" by fastforce
    have v: "valid k' c t" using Cons.prems(1) Request by (simp add: proper_Cons)
    have inv': "inv s'" using step_inv [OF inv v] st by simp
    have le: "tat s k \<le> t + bo k" using Cons.prems(2) Request by simp
    show ?thesis
    proof (cases "k' = k")
      case False
      then show ?thesis
        using IH [of s' "tat s k"] isolates [OF inv v, of k] inv' le Request st by auto
    next
      case True
      then have v: "valid k c t" and st: "step s k c t = (d, s')" using v st by simp_all
      show ?thesis
      proof (cases d)
        case True
        then have "gcra_next (ei k) (tat s k) t c \<le> t + bo k"
          and "max (tat s' k) t = max (gcra_next (ei k) (tat s k) t c) t"
          using decides [OF inv v le] advances [OF inv v le] st
          by (auto simp: gcra_conforms_def gcra_next_def)
        then show ?thesis
          using True decides [OF inv v le] IH [of s'] inv' Request st \<open>k' = k\<close> by simp
      next
        case False
        then show ?thesis
          using decides [OF inv v le] keeps [OF inv v le] IH [of s' "tat s k"] inv' le Request st \<open>k' = k\<close> by simp
      qed
    qed
  qed
qed simp

text \<open>No window of a key's consecutive requests admits more than the elapsed time and one burst
  allow.\<close>

lemma window_bound:
  fixes s k es
  defines "rs \<equiv> requests_of k (store_run step tick s es)"
  assumes "proper es" "\<forall>e \<in> set es. tat s k \<le> event_time e + bo k" "inv s"
    and "0 < n" "i + n \<le> length rs"
  shows "ei k * admitted_cost (take n (drop i rs))
      (take n (drop i (decisions_of k (store_run step tick s es))))
    \<le> snd (rs ! (i + n - 1)) - snd (rs ! i) + bo k"
  using gcra_run_segment_window [OF requests_of_sorted assms(5) assms(6) [unfolded rs_def]] assms(2)
  unfolding run_refines [OF assms(2-4)] rs_def by (simp add: proper_def)

text \<open>The same for a span of time, whatever falls into it.\<close>

lemma span_bound:
  assumes "proper es" "\<forall>e \<in> set es. tat s k \<le> event_time e + bo k" "inv s"
  shows "ei k * admitted_between t0 t1 (requests_of k (store_run step tick s es))
      (decisions_of k (store_run step tick s es)) \<le> t1 - t0 + bo k"
  using assms(1) unfolding run_refines [OF assms] proper_def
  by (blast intro: gcra_run_between requests_of_sorted)

text \<open>Requests whose every window fits are all admitted.\<close>

lemma fitting_requests_admitted:
  fixes s k es
  defines "rs \<equiv> requests_of k (store_run step tick s es)"
  assumes "proper es" "\<forall>e \<in> set es. tat s k \<le> event_time e" "inv s"
    and "windows_fit (ei k) (bo k) rs"
  shows "\<forall>d \<in> set (decisions_of k (store_run step tick s es)). d"
proof (cases "rs = []")
  case False
  have "snd (hd rs) \<in> event_time ` set es"
    using False requests_of_times [of "hd rs" k step tick s es] unfolding rs_def by simp
  then have "tat s k \<le> snd (hd rs)" using assms(3) by auto
  moreover have "\<forall>e \<in> set es. tat s k \<le> event_time e + bo k" using assms(3) by (auto intro: trans_le_add1)
  ultimately show ?thesis
    using gcra_run_all_iff [OF False] assms(5) run_refines [OF assms(2) _ assms(4)] unfolding rs_def by simp
next
  case True
  moreover have "\<forall>e \<in> set es. tat s k \<le> event_time e + bo k" using assms(3) by (auto intro: trans_le_add1)
  ultimately show ?thesis using run_refines [OF assms(2) _ assms(4)] unfolding rs_def by simp
qed

end

end
