(* ===== verification/Memory_Storage.thy ===== *)
theory Memory_Storage
  imports Storage
begin

text \<open>
  \<open>src/storage/memory.rs\<close> and \<open>src/gc.rs\<close>. \<open>MemoryStorage\<close> maps \<open>(user_id, tier)\<close> to the TAT.
  The map's entry holds its shard's lock from the read to the write, so \<open>check_and_update\<close> is one
  atomic step on the map. The garbage collector's loop body removes the entries whose TAT is in the
  past.

  \<open>MemoryStorage\<close> with its collector is a \<open>gcra_store\<close> (the interpretation \<open>mem\<close>), which gives the
  rate guarantee of whole runs. The other lemmas give each operation's effect on the map.
\<close>

section \<open>State and operations\<close>

record memory_storage =
  mem_state :: "rstring \<times> rstring \<rightharpoonup> nanos"

definition memory_new :: memory_storage where
  "memory_new = \<lparr>mem_state = Map.empty\<rparr>"

definition memory_default :: memory_storage where
  "memory_default = memory_new"

definition memory_len :: "memory_storage \<Rightarrow> nat" where
  "memory_len m = card (dom (mem_state m))"

definition memory_is_empty :: "memory_storage \<Rightarrow> bool" where
  "memory_is_empty m \<longleftrightarrow> dom (mem_state m) = {}"

definition memory_retain_active :: "memory_storage \<Rightarrow> nanos \<Rightarrow> memory_storage" where
  "memory_retain_active m now =
     m\<lparr>mem_state := (\<lambda>k. case mem_state m k of
         None \<Rightarrow> None | Some tat \<Rightarrow> if tat \<ge> now then Some tat else None)\<rparr>"

definition memory_clear :: "memory_storage \<Rightarrow> memory_storage" where
  "memory_clear m = m\<lparr>mem_state := Map.empty\<rparr>"

definition memory_check_and_update :: "memory_storage storage_op" where
  "memory_check_and_update m key quota cost now =
     bind_exec (emission_interval_nanos quota) (\<lambda>ei.
     bind_exec (burst_offset_nanos quota) (\<lambda>bo.
     let entry = (key_user key, key_tier key) in
     case mem_state m entry of
       Some slot \<Rightarrow>
         bind_exec (check_gcra (Some slot) now ei bo cost) (\<lambda>r. Done (
           case r of
             Ok (new_tat, info) \<Rightarrow> (Ok (Ok info), m\<lparr>mem_state := (mem_state m)(entry \<mapsto> new_tat)\<rparr>)
           | Err limited \<Rightarrow> (Ok (Err limited), m)))
     | None \<Rightarrow>
         bind_exec (check_gcra None now ei bo cost) (\<lambda>r. Done (
           case r of
             Ok (new_tat, info) \<Rightarrow> (Ok (Ok info), m\<lparr>mem_state := (mem_state m)(entry \<mapsto> new_tat)\<rparr>)
           | Err limited \<Rightarrow> (Ok (Err limited), m)))))"

text \<open>\<open>GcHandle::spawn\<close> refuses a zero interval; its task then runs this body at every tick.\<close>

definition gc_spawn :: "duration \<Rightarrow> unit exec" where
  "gc_spawn interval = assert_exec (\<not> is_zero interval) ''gc interval must be non-zero'' (Done ())"

definition gc_tick :: "memory_storage \<Rightarrow> nanos \<Rightarrow> memory_storage" where
  "gc_tick m now = memory_retain_active m now"

section \<open>Effect of a check\<close>

definition entry_of :: "storage_key \<Rightarrow> rstring \<times> rstring" where
  "entry_of key = (key_user key, key_tier key)"

lemma entry_of_inj: "entry_of k = entry_of k' \<longleftrightarrow> k = k'"
  by (simp add: entry_of_def) (metis storage_key.equality old.unit.exhaust)

text \<open>Both arms of the entry match run the same check.\<close>

lemma memory_check_unfold:
  "memory_check_and_update m key quota cost now =
     bind_exec (emission_interval_nanos quota) (\<lambda>ei.
     bind_exec (burst_offset_nanos quota) (\<lambda>bo.
     bind_exec (check_gcra (mem_state m (entry_of key)) now ei bo cost) (\<lambda>r. Done (
       case r of
         Ok (new_tat, info) \<Rightarrow>
           (Ok (Ok info), m\<lparr>mem_state := (mem_state m)(entry_of key \<mapsto> new_tat)\<rparr>)
       | Err limited \<Rightarrow> (Ok (Err limited), m)))))"
  unfolding memory_check_and_update_def entry_of_def Let_def
  by (cases "mem_state m (key_user key, key_tier key)") simp_all

lemma memory_check_limited:
  assumes "limited_quota q"
  shows "memory_check_and_update m key q cost now =
    bind_exec (check_gcra (mem_state m (entry_of key)) now (of_nat (ei_nat q)) (of_nat (bo_nat q)) cost)
      (\<lambda>r. Done (case r of
         Ok (new_tat, info) \<Rightarrow>
           (Ok (Ok info), m\<lparr>mem_state := (mem_state m)(entry_of key \<mapsto> new_tat)\<rparr>)
       | Err limited \<Rightarrow> (Ok (Err limited), m)))"
  by (simp add: memory_check_unfold emission_interval_limited [OF assms] burst_offset_limited [OF assms])

lemma memory_check_cases:
  assumes "limited_quota q"
  obtains (Allowed) new_tat info where
      "check_gcra (mem_state m (entry_of key)) now (of_nat (ei_nat q)) (of_nat (bo_nat q)) cost
        = Done (Ok (new_tat, info))"
      "memory_check_and_update m key q cost now
        = Done (Ok (Ok info), m\<lparr>mem_state := (mem_state m)(entry_of key \<mapsto> new_tat)\<rparr>)"
  | (Denied) limited where
      "check_gcra (mem_state m (entry_of key)) now (of_nat (ei_nat q)) (of_nat (bo_nat q)) cost
        = Done (Err limited)"
      "memory_check_and_update m key q cost now = Done (Ok (Err limited), m)"
proof -
  have "returns (check_gcra (mem_state m (entry_of key)) now (of_nat (ei_nat q)) (of_nat (bo_nat q)) cost)"
    using limited_ei_word_nonzero [OF assms] by (simp add: check_gcra_returns_iff)
  then obtain r where r: "check_gcra (mem_state m (entry_of key)) now (of_nat (ei_nat q))
      (of_nat (bo_nat q)) cost = Done r"
    by (auto simp: returns_iff)
  show thesis
  proof (cases r)
    case (Ok p)
    then show ?thesis using r that(1) by (cases p) (simp add: memory_check_limited [OF assms])
  next
    case (Err l)
    then show ?thesis using r that(2) by (simp add: memory_check_limited [OF assms])
  qed
qed

text \<open>The answer depends on the key's own entry only.\<close>

lemma memory_check_answer:
  "map_exec fst (memory_check_and_update m key q cost now) =
     bind_exec (emission_interval_nanos q) (\<lambda>ei.
     bind_exec (burst_offset_nanos q) (\<lambda>bo.
     map_exec (\<lambda>r. Ok (map_result snd id r)) (check_gcra (mem_state m (entry_of key)) now ei bo cost)))"
  unfolding memory_check_unfold
  by (cases "emission_interval_nanos q"; cases "burst_offset_nanos q";
      cases "check_gcra (mem_state m (entry_of key)) now (done_val (emission_interval_nanos q))
        (done_val (burst_offset_nanos q)) cost")
    (auto split: result.splits prod.splits)

lemma retain_active_lookup:
  "mem_state (memory_retain_active m now) e =
     (case mem_state m e of None \<Rightarrow> None | Some tat \<Rightarrow> if now \<le> tat then Some tat else None)"
  by (simp add: memory_retain_active_def)

lemma retain_active_check:
  assumes "unat gc_now \<le> unat now"
  shows "check_gcra (mem_state (memory_retain_active m gc_now) e) now ei bo cost
    = check_gcra (mem_state m e) now ei bo cost"
proof (cases "mem_state m e")
  case (Some tat)
  then show ?thesis
    using assms check_gcra_expired [of tat now ei bo cost]
    by (simp add: retain_active_lookup word_le_nat_alt)
qed (simp add: retain_active_lookup)

section \<open>MemoryStorage is a store\<close>

text \<open>The step of a run: the quota is a function of the key (the tier decides it), and time, cost and
  decision are read as numbers and a truth value.\<close>

definition mem_step ::
  "(storage_key \<Rightarrow> quota) \<Rightarrow> memory_storage \<Rightarrow> storage_key \<Rightarrow> nat \<Rightarrow> nat \<Rightarrow> bool \<times> memory_storage" where
  "mem_step Q m key c t =
     (case memory_check_and_update m key (Q key) (of_nat c) (of_nat t) of
        Done (Ok (Ok _), m') \<Rightarrow> (True, m')
      | Done (_, m') \<Rightarrow> (False, m')
      | Panic _ \<Rightarrow> (False, m))"

definition mem_tick :: "memory_storage \<Rightarrow> nat \<Rightarrow> memory_storage" where
  "mem_tick m t = gc_tick m (of_nat t)"

definition mem_tat :: "memory_storage \<Rightarrow> storage_key \<Rightarrow> nat" where
  "mem_tat m key = tat_nat (mem_state m (entry_of key))"

text \<open>A request a built \<open>RateTier\<close> makes: a limited quota, a clock that has not come within one
  burst of the end of \<open>u64\<close>, and a cost that fits its type.\<close>

definition mem_valid :: "(storage_key \<Rightarrow> quota) \<Rightarrow> storage_key \<Rightarrow> nat \<Rightarrow> nat \<Rightarrow> bool" where
  "mem_valid Q key c t \<longleftrightarrow> limited_quota (Q key) \<and> t + bo_nat (Q key) < u64_max \<and> c \<le> u32_max"

lemma mem_step_cases:
  fixes m :: memory_storage
  assumes v: "mem_valid Q key c t"
  defines "T \<equiv> mem_tat m key" and "E \<equiv> ei_nat (Q key)" and "B \<equiv> bo_nat (Q key)"
  obtains (Allowed) m' where "mem_step Q m key c t = (True, m')" "gcra_conforms E B T t c"
      "mem_tat m' key = gcra_next E T t c" "\<And>k. k \<noteq> key \<Longrightarrow> mem_tat m' k = mem_tat m k"
  | (Denied) "mem_step Q m key c t = (False, m)" "\<not> gcra_conforms E B T t c"
proof -
  have lq: "limited_quota (Q key)" and tb: "t + B < u64_max" and c: "c \<le> u32_max"
    using v by (auto simp: mem_valid_def B_def)
  note u = unat_of_nat_u64 [of t] unat_of_nat_u32 [OF c] unat_ei_nat unat_bo_nat
  have t: "unat (of_nat t :: u64) = t" using tb by (intro unat_of_nat_u64) linarith
  have conf: "sat_next E T t c \<le> t + B \<longleftrightarrow> gcra_conforms E B T t c"
    using tb by (rule sat_next_conforms_iff)
  have eqn: "gcra_conforms E B T t c \<Longrightarrow> sat_next E T t c = gcra_next E T t c"
    using tb by (auto simp: sat_next_def gcra_conforms_def)
  note nz = limited_ei_word_nonzero [OF lq]
  show thesis
    using lq
  proof (cases rule: memory_check_cases [where m = m and key = key and now = "of_nat t" and cost = "of_nat c"])
    case (Allowed new_tat info)
    let ?m = "m\<lparr>mem_state := (mem_state m)(entry_of key \<mapsto> new_tat)\<rparr>"
    have "sat_next E T t c \<le> t + B" "unat new_tat = sat_next E T t c"
      using check_gcra_OkD(1,2) [OF nz Allowed(1)] t u by (simp_all add: T_def E_def B_def mem_tat_def)
    then show ?thesis
      using that(1) [of ?m] Allowed(2) conf eqn
      by (simp add: mem_step_def mem_tat_def entry_of_inj)
  next
    case (Denied limited)
    have "\<not> sat_next E T t c \<le> t + B"
      using check_gcra_ErrD(1) [OF nz Denied(1)] t u by (simp add: T_def E_def B_def mem_tat_def)
    then show ?thesis using that(2) Denied(2) conf by (simp add: mem_step_def)
  qed
qed

lemma mem_tick_level: "max (mem_tat (mem_tick m t) key) t = max (mem_tat m key) t"
proof (cases "mem_state m (entry_of key)")
  case (Some tat)
  have "unat (of_nat t :: u64) \<le> t" by (simp add: unat_of_nat take_bit_nat_less_eq_self)
  then show ?thesis
    using Some by (auto simp: mem_tat_def mem_tick_def gc_tick_def retain_active_lookup word_le_nat_alt)
qed (simp add: mem_tat_def mem_tick_def gc_tick_def retain_active_lookup)

interpretation mem: gcra_store "mem_step Q" mem_tick mem_tat "\<lambda>k. ei_nat (Q k)" "\<lambda>k. bo_nat (Q k)"
  "mem_valid Q" "\<lambda>_. True" for Q
proof (unfold_locales, goal_cases)
  case (1 m key c t)
  show ?case using 1(2) by (cases rule: mem_step_cases [where m = m]) auto
next
  case (2 m key c t)
  show ?case using 2(2,4) by (cases rule: mem_step_cases [where m = m]) (auto simp: gcra_next_def)
next
  case (3 m key c t)
  show ?case using 3(2,4) by (cases rule: mem_step_cases [where m = m]) auto
next
  case (4 m key c t k)
  show ?case using 4(2,3) by (cases rule: mem_step_cases [where m = m]) auto
next
  case (5 m t key)
  show ?case by (rule mem_tick_level)
qed simp_all

interpretation mem_answers: answering_store memory_check_and_update "\<lambda>_. True"
proof (unfold_locales, goal_cases)
  case (1 m q key cost now)
  from 1(2) show ?case
    by (cases rule: memory_check_cases [where m = m and key = key and now = now and cost = cost]) auto
qed

lemma mem_tat_new [simp]: "mem_tat memory_new key = 0"
  by (simp add: mem_tat_def memory_new_def)

lemma mem_proper_iff:
  "mem.proper Q es \<longleftrightarrow>
     sorted (map event_time es) \<and> (\<forall>k c t. Request k c t \<in> set es \<longrightarrow> mem_valid Q k c t)"
  by (rule mem.proper_def)

section \<open>Properties\<close>

text \<open>The rate guarantee of \<open>MemoryStorage\<close>. Take any sequence of requests by any users, with the
  garbage collector running at any points between them, at non-decreasing times, on a new storage.
  For every key and every segment of its consecutive requests, the emission interval times the cost
  admitted in the segment is at most the time the segment spans plus one burst.\<close>

theorem memory_rate_guarantee:
  assumes "sorted (map event_time es)" "\<forall>k c t. Request k c t \<in> set es \<longrightarrow> mem_valid Q k c t"
    and "store_run (mem_step Q) mem_tick memory_new es = trace"
    and "0 < n" "i + n \<le> length (requests_of key trace)"
  shows "ei_nat (Q key) * admitted_cost (take n (drop i (requests_of key trace)))
      (take n (drop i (decisions_of key trace)))
    \<le> snd (requests_of key trace ! (i + n - 1)) - snd (requests_of key trace ! i) + bo_nat (Q key)"
  using mem.window_bound [of Q es memory_new key n i] assms by (simp add: mem_proper_iff)

text \<open>C14: \<open>MemoryStorage\<close> decides the requests of each key exactly as the abstract GCRA decides them
  alone: the other users' requests and the garbage collector change nothing for it.\<close>

theorem memory_keys_independent:
  assumes "sorted (map event_time es)" "\<forall>k c t. Request k c t \<in> set es \<longrightarrow> mem_valid Q k c t"
    and "store_run (mem_step Q) mem_tick memory_new es = trace"
  shows "decisions_of key trace
    = gcra_run (ei_nat (Q key)) (bo_nat (Q key)) 0 (requests_of key trace)"
  using mem.run_refines [of Q es memory_new key] assms by (simp add: mem_proper_iff)

text \<open>C15: no false denials. If for every stretch of a key's consecutive requests the cost fits into
  the elapsed time plus one burst, \<open>MemoryStorage\<close> admits every one of them.\<close>

theorem memory_admits_conforming:
  assumes "sorted (map event_time es)" "\<forall>k c t. Request k c t \<in> set es \<longrightarrow> mem_valid Q k c t"
    and "store_run (mem_step Q) mem_tick memory_new es = trace"
    and "windows_fit (ei_nat (Q key)) (bo_nat (Q key)) (requests_of key trace)"
  shows "\<forall>d \<in> set (decisions_of key trace). d"
  using mem.fitting_requests_admitted [of Q es memory_new key] assms by (simp add: mem_proper_iff)

text \<open>A concrete run for the witnesses: three requests per minute, four requests of one user at the
  same time with a collection in between.\<close>

definition three_per_minute :: quota where
  "three_per_minute = \<lparr>max_burst = 3, window = from_secs 60\<rparr>"

definition demo_key :: storage_key where
  "demo_key = storage_key_new (lit ''u1'') (lit ''free'')"

definition demo_events :: "storage_key store_event list" where
  "demo_events = [Request demo_key 1 5, Request demo_key 2 5, Maintain 6, Request demo_key 1 7]"

lemma three_per_minute_limited: "limited_quota three_per_minute"
  by (simp add: three_per_minute_def limited_quota_def quota_ok_def is_unlimited_def)

lemma three_not_unlimited: "\<not> is_unlimited three_per_minute"
  using three_per_minute_limited by (simp add: limited_quota_def)

lemma three_per_minute_nat:
  "ei_nat three_per_minute = 20000000000" "bo_nat three_per_minute = 60000000000"
  by (simp_all add: three_per_minute_def ei_nat_def bo_nat_def)

lemma per_minute_three: "per_minute 3 = Done three_per_minute"
  by (simp add: per_minute_def with_window_def assert_exec_def is_zero_iff three_per_minute_def)

lemmas memory_eval = mem_step_def memory_check_limited [OF three_per_minute_limited]
  three_per_minute_nat mem_tick_def gc_tick_def memory_retain_active_def memory_new_def entry_of_def
  gcra_eval

lemma demo_valid:
  "sorted (map event_time demo_events)"
  "\<forall>k c t. Request k c t \<in> set demo_events \<longrightarrow> mem_valid (\<lambda>_. three_per_minute) k c t"
  by (auto simp: demo_events_def mem_valid_def three_per_minute_limited three_per_minute_nat)

lemma demo_trace:
  "store_run (mem_step (\<lambda>_. three_per_minute)) mem_tick memory_new demo_events =
     [(demo_key, (1, 5), True), (demo_key, (2, 5), True), (demo_key, (1, 7), False)]"
  by (simp add: demo_events_def memory_eval)

theorem memory_rate_guarantee_witness:
  "20000000000 * admitted_cost [(1, 5), (2, 5), (1, 7)] [True, True, False] \<le> 7 - 5 + 60000000000"
  using memory_rate_guarantee [OF demo_valid demo_trace, of 3 0 demo_key]
  by (simp add: three_per_minute_nat)

theorem memory_keys_independent_witness:
  "gcra_run 20000000000 60000000000 0 [(1, 5), (2, 5), (1, 7)] = [True, True, False]"
  using memory_keys_independent [OF demo_valid demo_trace, of demo_key]
  by (simp add: three_per_minute_nat)

theorem memory_admits_conforming_witness:
  "False \<notin> set (decisions_of demo_key
     (store_run (mem_step (\<lambda>_. three_per_minute)) mem_tick memory_new
       [Request demo_key 1 5, Request demo_key 2 5]))"
proof -
  have "\<forall>d \<in> set (decisions_of demo_key
     (store_run (mem_step (\<lambda>_. three_per_minute)) mem_tick memory_new
       [Request demo_key 1 5, Request demo_key 2 5])). d"
  proof (rule memory_admits_conforming [OF _ _ refl])
    show "sorted (map event_time [Request demo_key 1 5, Request demo_key 2 5])" by simp
    show "\<forall>k c t. Request k c t \<in> set [Request demo_key 1 5, Request demo_key 2 5] \<longrightarrow>
        mem_valid (\<lambda>_. three_per_minute) k c t"
      by (auto simp: mem_valid_def three_per_minute_limited three_per_minute_nat)
    have "store_run (mem_step (\<lambda>_. three_per_minute)) mem_tick memory_new
        [Request demo_key 1 5, Request demo_key 2 5]
        = [(demo_key, (1, 5), True), (demo_key, (2, 5), True)]"
      by (simp add: memory_eval)
    then show "windows_fit (ei_nat three_per_minute) (bo_nat three_per_minute) (requests_of demo_key
        (store_run (mem_step (\<lambda>_. three_per_minute)) mem_tick memory_new
          [Request demo_key 1 5, Request demo_key 2 5]))"
      by (simp add: three_per_minute_nat all_less_Suc_split)
  qed
  then show ?thesis by blast
qed

text \<open>Garbage collection is invisible. Collecting at a time not after the next check changes the
  answer of no check, for any key, quota and cost.\<close>

theorem gc_invisible:
  assumes "unat gc_now \<le> unat now"
  shows "map_exec fst (memory_check_and_update (gc_tick m gc_now) key q cost now)
    = map_exec fst (memory_check_and_update m key q cost now)"
  unfolding memory_check_answer gc_tick_def retain_active_check [OF assms] ..

theorem gc_invisible_witness:
  "map_exec fst (memory_check_and_update
      (gc_tick \<lparr>mem_state = [(lit ''u1'', lit ''free'') \<mapsto> 4]\<rparr> 5) demo_key three_per_minute 1 5)
    = map_exec fst (memory_check_and_update
        \<lparr>mem_state = [(lit ''u1'', lit ''free'') \<mapsto> 4]\<rparr> demo_key three_per_minute 1 5)"
  by (rule gc_invisible) simp

text \<open>A check on \<open>MemoryStorage\<close> with a limited quota always returns a decision, never a storage
  error and never a panic. A denied check leaves the storage as it was; an allowed one writes the
  key's own entry and no other. An unlimited quota, which the limiter never passes here, panics.\<close>

theorem memory_check_effect:
  assumes "quota_ok q"
  shows "case memory_check_and_update m key q cost now of
      Done (Ok (Ok info), m') \<Rightarrow> \<not> is_unlimited q \<and>
        (\<exists>new_tat. m' = m\<lparr>mem_state := (mem_state m)((key_user key, key_tier key) \<mapsto> new_tat)\<rparr> \<and>
          as_nanos (info_reset_after info) = unat new_tat - unat now)
    | Done (Ok (Err limited), m') \<Rightarrow> \<not> is_unlimited q \<and> m' = m
    | Done (Err _, _) \<Rightarrow> False
    | Panic _ \<Rightarrow> is_unlimited q"
proof (cases "is_unlimited q")
  case True
  then show ?thesis
    by (simp add: memory_check_unfold emission_interval_unlimited burst_offset_unlimited check_gcra_def)
next
  case False
  then have lq: "limited_quota q" using assms by (simp add: limited_quota_def)
  show ?thesis
    using lq
  proof (cases rule: memory_check_cases [where m = m and key = key and now = now and cost = cost])
    case (Allowed new_tat info)
    then show ?thesis
      using False check_gcra_OkD(2,5) [OF limited_ei_word_nonzero [OF lq] Allowed(1)]
      by (auto simp: entry_of_def)
  next
    case (Denied limited)
    then show ?thesis using False by simp
  qed
qed

theorem memory_check_effect_witness:
  "\<exists>info. memory_check_and_update memory_new demo_key three_per_minute 1 5 =
     Done (Ok (Ok info), \<lparr>mem_state = [(lit ''u1'', lit ''free'') \<mapsto> 20000000005]\<rparr>)"
  using memory_check_effect [of three_per_minute memory_new demo_key 1 5] three_per_minute_limited
  by (simp add: limited_quota_def memory_eval demo_key_def storage_key_new_def)

end
