(* ===== verification/Transition.thy ===== *)
theory Transition
  imports Prelude
begin

text \<open>
  \<open>src/storage/breaker/transition.rs\<close>: the circuit breaker's state machine as the pure function
  \<open>after_call\<close>, with the source's match arms in the source's order.
\<close>

datatype breaker_state = Closed (failures: u32) | Open (until: nanos) | HalfOpen

datatype route = Primary | Probe

datatype outcome = Success | Failure

record policy =
  failure_threshold :: u32
  open_for :: nanos

fun after_call :: "breaker_state \<Rightarrow> route \<Rightarrow> outcome \<Rightarrow> nanos \<Rightarrow> policy \<Rightarrow> breaker_state" where
  "after_call (Closed _) Primary Success now p = Closed 0"
| "after_call HalfOpen Probe Success now p = Closed 0"
| "after_call (Closed n) Primary Failure now p =
     (let n' = saturating_add n 1
      in if n' \<ge> failure_threshold p then Open (saturating_add now (open_for p)) else Closed n')"
| "after_call HalfOpen Probe Failure now p = Open (saturating_add now (open_for p))"
| "after_call st _ _ _ _ = st"

fun is_closed :: "breaker_state \<Rightarrow> bool" where
  "is_closed (Closed _) = True"
| "is_closed _ = False"

fun is_open :: "breaker_state \<Rightarrow> bool" where
  "is_open (Open _) = True"
| "is_open _ = False"

text \<open>A policy the breaker's setters accept, and a failure count below its threshold.\<close>

definition policy_ok :: "policy \<Rightarrow> bool" where
  "policy_ok p \<longleftrightarrow> 0 < failure_threshold p \<and> 0 < open_for p"

definition count_ok :: "policy \<Rightarrow> breaker_state \<Rightarrow> bool" where
  "count_ok p st \<longleftrightarrow> (case st of Closed n \<Rightarrow> n < failure_threshold p | _ \<Rightarrow> True)"

lemma after_call_count_ok:
  "policy_ok p \<Longrightarrow> count_ok p st \<Longrightarrow> count_ok p (after_call st r oc now p)"
  by (induction st r oc now p rule: after_call.induct)
    (auto simp: policy_ok_def count_ok_def Let_def)

lemma after_call_primary_not_closed:
  "\<not> is_closed st \<Longrightarrow> after_call st Primary oc now p = st"
  by (cases st) auto

lemma after_call_probe_not_half_open:
  "st \<noteq> HalfOpen \<Longrightarrow> after_call st Probe oc now p = st"
  by (cases st; cases oc) auto

lemma after_call_not_half_open:
  "after_call st r oc now p = HalfOpen \<longleftrightarrow> st = HalfOpen \<and> r = Primary"
  by (induction st r oc now p rule: after_call.induct) (auto simp: Let_def)

lemma after_call_primary_half_open:
  "st \<noteq> HalfOpen \<Longrightarrow> after_call st Primary oc now p \<noteq> HalfOpen"
  by (simp add: after_call_not_half_open)

lemma after_call_probe_leaves_half_open: "after_call st Probe oc now p \<noteq> HalfOpen"
  by (simp add: after_call_not_half_open)

lemma unat_succ_count:
  "n < m \<Longrightarrow> unat (saturating_add n 1) = Suc (unat n)" for n m :: u32
  using unat_u32_bound [of m] by (simp add: unat_saturating_add word_less_nat_alt)

section \<open>Properties\<close>

text \<open>When the breaker changes side. A call's result closes a breaker that was not closed only if
  the call was the probe, the breaker was half-open and the call succeeded; it opens one that was not
  open only if the call failed and was either that probe or an ordinary call that brought the count to
  the threshold; and no result makes it half-open. Every other result (a stale one above all) leaves
  an open or half-open breaker exactly as it was, with the same probe time.\<close>

theorem after_call_changes:
  assumes "after_call st r oc now p = st'"
  shows "(is_closed st' \<and> \<not> is_closed st \<longrightarrow> st = HalfOpen \<and> r = Probe \<and> oc = Success) \<and>
    (is_open st' \<and> \<not> is_open st \<longrightarrow> oc = Failure \<and> until st' = saturating_add now (open_for p) \<and>
       (st = HalfOpen \<and> r = Probe \<or>
        is_closed st \<and> r = Primary \<and> failure_threshold p \<le> saturating_add (failures st) 1)) \<and>
    (st' = HalfOpen \<longrightarrow> st = HalfOpen) \<and>
    (\<not> is_closed st \<and> \<not> (st = HalfOpen \<and> r = Probe) \<longrightarrow> st' = st)"
  using assms
  by (induction st r oc now p rule: after_call.induct) (auto simp: Let_def split: if_splits)

theorem after_call_changes_witness:
  "is_closed (Closed 0) \<and> after_call HalfOpen Probe Success 50 \<lparr>failure_threshold = 3, open_for = 5\<rparr> = Closed 0 \<and>
   (HalfOpen = HalfOpen \<and> Probe = Probe \<and> Success = Success)"
  using after_call_changes [of HalfOpen Probe Success 50 "\<lparr>failure_threshold = 3, open_for = 5\<rparr>" "Closed 0"]
  by simp

end
