(* ===== verification/Circuit_Breaker.thy ===== *)
theory Circuit_Breaker
  imports Memory_Storage Transition
begin

text \<open>
  \<open>src/storage/breaker.rs\<close>: the \<open>CircuitBreaker\<close>, a storage that answers from a local
  \<open>MemoryStorage\<close> while its primary fails. The primary is any storage: its state \<open>'p\<close> and its
  \<open>check_and_update\<close> are parameters.

  This theory has the constructor and the setters with their panics, the operations the call is made
  of (\<open>admit\<close>, \<open>emit\<close>, \<open>prune_fallback\<close>, \<open>prune_fallback_if_due\<close>, the probe guard) and the whole
  call run without interruption (\<open>breaker_check_and_update\<close>). Interleaved and cancelled calls are in
  \<open>Breaker_Concurrency\<close>, over the same operations.

  The user's callback is kept as the list of the events it was called with.
\<close>

section \<open>State\<close>

datatype breaker_event = PrimaryFailed storage_error | Opened storage_error | ClosedEvent

record 'p breaker =
  primary :: 'p
  fallback :: memory_storage
  policy :: policy
  state :: breaker_state
  last_pruned :: nanos
  on_state_change :: "breaker_event list option"

text \<open>A duration as \<open>u64\<close> nanoseconds, saturating.\<close>

definition duration_nanos :: "duration \<Rightarrow> nanos" where
  "duration_nanos d = (if as_nanos d \<le> unat (- 1 :: u64) then of_nat (as_nanos d) else - 1)"

definition DEFAULT_FAILURE_THRESHOLD :: u32 where
  "DEFAULT_FAILURE_THRESHOLD = 3"

definition DEFAULT_OPEN_FOR :: duration where
  "DEFAULT_OPEN_FOR = from_secs 5"

definition breaker_new :: "'p \<Rightarrow> memory_storage \<Rightarrow> 'p breaker" where
  "breaker_new p fb =
     \<lparr>primary = p, fallback = fb,
      policy = \<lparr>failure_threshold = DEFAULT_FAILURE_THRESHOLD, open_for = duration_nanos DEFAULT_OPEN_FOR\<rparr>,
      state = Closed 0, last_pruned = 0, on_state_change = None\<rparr>"

definition set_failure_threshold :: "'p breaker \<Rightarrow> u32 \<Rightarrow> 'p breaker exec" where
  "set_failure_threshold b threshold =
     assert_exec (threshold > 0) ''failure threshold must be greater than 0''
       (Done (b\<lparr>policy := (policy b)\<lparr>failure_threshold := threshold\<rparr>\<rparr>))"

definition set_open_for :: "'p breaker \<Rightarrow> duration \<Rightarrow> 'p breaker exec" where
  "set_open_for b d =
     assert_exec (\<not> is_zero d) ''open_for must be non-zero''
       (Done (b\<lparr>policy := (policy b)\<lparr>open_for := duration_nanos d\<rparr>\<rparr>))"

definition set_on_state_change :: "'p breaker \<Rightarrow> 'p breaker" where
  "set_on_state_change b = b\<lparr>on_state_change := Some []\<rparr>"

section \<open>Operations of a call\<close>

definition admit :: "'p breaker \<Rightarrow> nanos \<Rightarrow> route option \<times> 'p breaker" where
  "admit b now =
     (case state b of
        Closed _ \<Rightarrow> (Some Primary, b)
      | Open u \<Rightarrow> if now \<ge> u then (Some Probe, b\<lparr>state := HalfOpen\<rparr>) else (None, b)
      | HalfOpen \<Rightarrow> (None, b))"

definition emit :: "'p breaker \<Rightarrow> breaker_event \<Rightarrow> 'p breaker" where
  "emit b ev =
     (case on_state_change b of None \<Rightarrow> b | Some evs \<Rightarrow> b\<lparr>on_state_change := Some (evs @ [ev])\<rparr>)"

definition prune_fallback :: "'p breaker \<Rightarrow> nanos \<Rightarrow> 'p breaker" where
  "prune_fallback b now =
     b\<lparr>last_pruned := now, fallback := memory_retain_active (fallback b) now\<rparr>"

text \<open>The exchange of \<open>last_pruned\<close> succeeds when the cell still holds the value loaded before.\<close>

definition prune_exchange :: "'p breaker \<Rightarrow> nanos \<Rightarrow> nanos \<Rightarrow> bool \<times> 'p breaker" where
  "prune_exchange b seen now =
     (if last_pruned b = seen then (True, b\<lparr>last_pruned := now\<rparr>) else (False, b))"

definition prune_fallback_if_due :: "'p breaker \<Rightarrow> nanos \<Rightarrow> 'p breaker" where
  "prune_fallback_if_due b now =
     (let seen = last_pruned b in
      if saturating_sub now seen \<ge> open_for (policy b) then
        (case prune_exchange b seen now of
           (True, b') \<Rightarrow> b'\<lparr>fallback := memory_retain_active (fallback b') now\<rparr>
         | (False, b') \<Rightarrow> b')
      else b)"

fun outcome_of :: "storage_outcome \<Rightarrow> outcome" where
  "outcome_of (Ok _) = Success"
| "outcome_of (Err _) = Failure"

text \<open>\<open>Drop for ProbeGuard\<close>: an armed guard puts a half-open breaker back to open, with a probe time
  that has passed.\<close>

definition drop_guard :: "bool \<Rightarrow> nanos \<Rightarrow> 'p breaker \<Rightarrow> 'p breaker" where
  "drop_guard armed admitted_at b =
     (if \<not> armed then b
      else if state b = HalfOpen then b\<lparr>state := Open admitted_at\<rparr> else b)"

definition fallback_check :: "'p breaker storage_op" where
  "fallback_check b key quota cost now =
     map_exec (\<lambda>(r, fb). (r, b\<lparr>fallback := fb\<rparr>)) (memory_check_and_update (fallback b) key quota cost now)"

section \<open>The call\<close>

definition breaker_check_and_update :: "'p storage_op \<Rightarrow> 'p breaker storage_op" where
  "breaker_check_and_update primary_op b key quota cost now =
     (case admit b now of
        (None, b1) \<Rightarrow> fallback_check b1 key quota cost now
      | (Some route, b1) \<Rightarrow>
          let b2 = (if route = Probe then prune_fallback b1 now else b1) in
          bind_exec (primary_op (primary b2) key quota cost now) (\<lambda>(result, p').
          let b3 = b2\<lparr>primary := p'\<rparr>;
              old = state b3;
              new = after_call old route (outcome_of result) now (policy b3);
              b4 = b3\<lparr>state := new\<rparr>
          in case result of
               Ok decision \<Rightarrow>
                 let b5 = (if old = HalfOpen \<and> is_closed new
                           then emit (b4\<lparr>fallback := memory_clear (fallback b4)\<rparr>) ClosedEvent
                           else b4)
                 in Done (Ok decision, b5)
             | Err error \<Rightarrow>
                 let b5 = emit b4 (PrimaryFailed error);
                     b6 = (if is_closed old \<and> is_open new
                           then emit (prune_fallback b5 now) (Opened error)
                           else prune_fallback_if_due b5 now)
                 in fallback_check b6 key quota cost now))"

section \<open>Frame and inversion lemmas\<close>

lemma emit_frame [simp]:
  "primary (emit b ev) = primary b" "fallback (emit b ev) = fallback b" "policy (emit b ev) = policy b"
  "state (emit b ev) = state b" "last_pruned (emit b ev) = last_pruned b"
  by (simp_all add: emit_def split: option.split)

lemma prune_frame [simp]:
  "primary (prune_fallback b now) = primary b" "policy (prune_fallback b now) = policy b"
  "state (prune_fallback b now) = state b"
  "on_state_change (prune_fallback b now) = on_state_change b"
  by (simp_all add: prune_fallback_def)

lemma prune_if_due_frame [simp]:
  "primary (prune_fallback_if_due b now) = primary b" "policy (prune_fallback_if_due b now) = policy b"
  "state (prune_fallback_if_due b now) = state b"
  "on_state_change (prune_fallback_if_due b now) = on_state_change b"
  by (simp_all add: prune_fallback_if_due_def prune_exchange_def Let_def)

lemma drop_guard_frame [simp]:
  "fallback (drop_guard a t b) = fallback b" "policy (drop_guard a t b) = policy b"
  "on_state_change (drop_guard a t b) = on_state_change b"
  by (simp_all add: drop_guard_def)

lemma admit_frame:
  "admit b now = (r, b') \<Longrightarrow> primary b' = primary b \<and> fallback b' = fallback b \<and> policy b' = policy b
     \<and> on_state_change b' = on_state_change b \<and> last_pruned b' = last_pruned b"
  by (auto simp: admit_def split: breaker_state.splits if_splits)

text \<open>The fallback answers every request with a limited quota.\<close>

lemma fallback_check_total:
  assumes "limited_quota q"
  obtains d fb where "fallback_check b key q cost now = Done (Ok d, b\<lparr>fallback := fb\<rparr>)"
    and "memory_check_and_update (fallback b) key q cost now = Done (Ok d, fb)"
  using assms
  by (cases rule: memory_check_cases [where m = "fallback b" and key = key and now = now and cost = cost])
    (auto simp: fallback_check_def)

text \<open>What the call does, one case per path through it.\<close>

lemma breaker_call_closed_ok:
  assumes "state b = Closed n" "primary_op (primary b) key q cost now = Done (Ok d, p')"
  shows "breaker_check_and_update primary_op b key q cost now
    = Done (Ok d, b\<lparr>primary := p', state := Closed 0\<rparr>)"
  using assms by (simp add: breaker_check_and_update_def admit_def Let_def)

lemma breaker_call_skips_primary:
  assumes "state b = Open u" "now < u"
  shows "breaker_check_and_update primary_op b key q cost now = fallback_check b key q cost now"
  using assms unfolding not_le [symmetric] by (simp add: breaker_check_and_update_def admit_def)

lemma breaker_call_closed_err:
  assumes "state b = Closed n" "primary_op (primary b) key q cost now = Done (Err e, p')"
  shows "breaker_check_and_update primary_op b key q cost now =
    (let b1 = emit (b\<lparr>primary := p', state := after_call (Closed n) Primary Failure now (policy b)\<rparr>)
                (PrimaryFailed e)
     in fallback_check (if is_open (state b1) then emit (prune_fallback b1 now) (Opened e)
                        else prune_fallback_if_due b1 now) key q cost now)"
  using assms by (simp add: breaker_check_and_update_def admit_def Let_def)

lemma breaker_call_probe_ok:
  assumes "state b = Open u" "u \<le> now" "primary_op (primary b) key q cost now = Done (Ok d, p')"
  shows "breaker_check_and_update primary_op b key q cost now =
    Done (Ok d, emit ((prune_fallback b now)\<lparr>primary := p', state := Closed 0,
      fallback := memory_clear (memory_retain_active (fallback b) now)\<rparr>) ClosedEvent)"
  using assms by (simp add: breaker_check_and_update_def admit_def Let_def prune_fallback_def)

lemma breaker_call_probe_err:
  assumes "state b = Open u" "u \<le> now" "primary_op (primary b) key q cost now = Done (Err e, p')"
  shows "breaker_check_and_update primary_op b key q cost now =
    fallback_check (prune_fallback_if_due (emit ((prune_fallback b now)
        \<lparr>primary := p', state := Open (saturating_add now (open_for (policy b)))\<rparr>) (PrimaryFailed e)) now)
      key q cost now"
  using assms by (simp add: breaker_check_and_update_def admit_def Let_def prune_fallback_def)

text \<open>The cases of a call on a breaker with no probe in flight.\<close>

lemma breaker_call_cases:
  assumes "state b \<noteq> HalfOpen" "primary_op (primary b) key q cost now = Done (r, p')"
  obtains (ClosedOk) n d where "state b = Closed n" "r = Ok d"
  | (ClosedErr) n e where "state b = Closed n" "r = Err e"
  | (Skip) u where "state b = Open u" "now < u"
  | (ProbeOk) u d where "state b = Open u" "u \<le> now" "r = Ok d"
  | (ProbeErr) u e where "state b = Open u" "u \<le> now" "r = Err e"
proof (cases "state b")
  case (Closed n)
  then show ?thesis using that(1,2) by (cases r) auto
next
  case (Open u)
  then show ?thesis using that(3-5) by (cases r; cases "u \<le> now") auto
qed (use assms(1) in simp)

lemmas breaker_call_eqs =
  breaker_call_closed_ok breaker_call_closed_err breaker_call_skips_primary
  breaker_call_probe_ok breaker_call_probe_err

lemma closed_failure_step:
  assumes "state b = Closed n" "unat n < unat (failure_threshold (policy b))"
    and "primary_op (primary b) key q cost now = Done (Err e, p')" "limited_quota q"
  obtains d b' where "breaker_check_and_update primary_op b key q cost now = Done (Ok d, b')"
    and "policy b' = policy b" "primary b' = p'"
    and "state b' = (if Suc (unat n) < unat (failure_threshold (policy b))
                     then Closed (saturating_add n 1)
                     else Open (saturating_add now (open_for (policy b))))"
    and "unat (saturating_add n 1) = Suc (unat n)"
proof -
  have suc: "unat (saturating_add n 1) = Suc (unat n)"
    using assms(2) by (intro unat_succ_count) (simp add: word_less_nat_alt)
  define st where "st = after_call (Closed n) Primary Failure now (policy b)"
  define b1 where "b1 = emit (b\<lparr>primary := p', state := st\<rparr>) (PrimaryFailed e)"
  define b2 where "b2 = (if is_open (state b1) then emit (prune_fallback b1 now) (Opened e)
    else prune_fallback_if_due b1 now)"
  have st: "st = (if Suc (unat n) < unat (failure_threshold (policy b))
      then Closed (saturating_add n 1) else Open (saturating_add now (open_for (policy b))))"
    using suc by (auto simp: st_def Let_def word_le_nat_alt)
  have b2: "state b2 = st" "policy b2 = policy b" "primary b2 = p'"
    by (simp_all add: b2_def b1_def)
  obtain d fb where fb: "fallback_check b2 key q cost now = Done (Ok d, b2\<lparr>fallback := fb\<rparr>)"
    using fallback_check_total [OF assms(4)] by metis
  have "breaker_check_and_update primary_op b key q cost now = Done (Ok d, b2\<lparr>fallback := fb\<rparr>)"
    using breaker_call_closed_err [where primary_op = primary_op, OF assms(1,3)]
    unfolding Let_def st_def [symmetric] b1_def [symmetric] b2_def [symmetric] fb .
  then show thesis
    using b2 st suc by (intro that [of d "b2\<lparr>fallback := fb\<rparr>"]) simp_all
qed

text \<open>A primary that always fails, on requests with limited quotas.\<close>

definition always_fails :: "'p storage_op \<Rightarrow> bool" where
  "always_fails primary_op \<longleftrightarrow> (\<forall>p key q cost now. \<exists>e p'. primary_op p key q cost now = Done (Err e, p'))"

lemma failing_calls:
  assumes "always_fails primary_op" "state b = Closed n" "rs \<noteq> []"
    and "\<forall>(key, q, cost, now) \<in> set rs. limited_quota q"
    and "unat n + length rs \<le> unat (failure_threshold (policy b))"
  shows "\<exists>outs b'. storage_calls (breaker_check_and_update primary_op) b rs = Done (outs, b') \<and> (\<forall>r \<in> set outs. is_ok r) \<and>
    policy b' = policy b \<and>
    (if unat n + length rs < unat (failure_threshold (policy b))
     then \<exists>m. state b' = Closed m \<and> unat m = unat n + length rs
     else state b' = Open (saturating_add (snd (snd (snd (last rs)))) (open_for (policy b))))"
  using assms(2-)
proof (induction rs arbitrary: b n)
  case (Cons r rs)
  obtain key q cost now where r: "r = (key, q, cost, now)" by (cases r)
  have lq: "limited_quota q" using Cons.prems(3) r by simp
  obtain e p' where pr: "primary_op (primary b) key q cost now = Done (Err e, p')"
    using assms(1) unfolding always_fails_def by blast
  have lt: "unat n < unat (failure_threshold (policy b))" using Cons.prems(4) by simp
  obtain d b1 where call: "breaker_check_and_update primary_op b key q cost now = Done (Ok d, b1)"
    and pol: "policy b1 = policy b"
    and st: "state b1 = (if Suc (unat n) < unat (failure_threshold (policy b))
      then Closed (saturating_add n 1) else Open (saturating_add now (open_for (policy b))))"
    and suc: "unat (saturating_add n 1) = Suc (unat n)"
    using closed_failure_step [where primary_op = primary_op, OF Cons.prems(1) lt pr lq] by metis
  show ?case
  proof (cases "rs = []")
    case True
    then show ?thesis using call pol st suc r Cons.prems(4) by auto
  next
    case False
    have "Suc (unat n) < unat (failure_threshold (policy b))"
      using Cons.prems(4) False by (cases rs) auto
    then have "state b1 = Closed (saturating_add n 1)" using st by simp
    then obtain outs b' where "storage_calls (breaker_check_and_update primary_op) b1 rs = Done (outs, b')"
      "\<forall>r \<in> set outs. is_ok r" "policy b' = policy b1"
      "if unat (saturating_add n 1) + length rs < unat (failure_threshold (policy b1))
       then \<exists>m. state b' = Closed m \<and> unat m = unat (saturating_add n 1) + length rs
       else state b' = Open (saturating_add (snd (snd (snd (last rs)))) (open_for (policy b1)))"
      using Cons.IH [of b1 "saturating_add n 1"] False Cons.prems(3,4) pol suc by auto
    then show ?thesis using call pol suc r False by auto
  qed
qed simp

text \<open>What holds between calls: an accepted policy, a count below the threshold, no probe in flight.\<close>

definition breaker_idle :: "'p breaker \<Rightarrow> bool" where
  "breaker_idle b \<longleftrightarrow> policy_ok (policy b) \<and> count_ok (policy b) (state b) \<and> state b \<noteq> HalfOpen"

lemma breaker_new_idle: "breaker_idle (breaker_new p fb)"
  by (simp add: breaker_idle_def breaker_new_def policy_ok_def count_ok_def
      DEFAULT_FAILURE_THRESHOLD_def DEFAULT_OPEN_FOR_def duration_nanos_def unat_max_word
      word_less_nat_alt unat_of_nat_u64)

lemma fallback_check_idle:
  assumes "limited_quota q" "breaker_idle x"
  shows "\<exists>d b'. fallback_check x key q cost now = Done (Ok d, b') \<and> breaker_idle b' \<and>
    policy b' = policy x"
proof -
  obtain d fb where "fallback_check x key q cost now = Done (Ok d, x\<lparr>fallback := fb\<rparr>)"
    using fallback_check_total [OF assms(1)] by metis
  moreover have "breaker_idle (x\<lparr>fallback := fb\<rparr>)" using assms(2) by (simp add: breaker_idle_def)
  ultimately show ?thesis by auto
qed

text \<open>One complete call from an idle breaker: it is answered and the breaker is idle again.\<close>

lemma breaker_call_idle:
  assumes "breaker_idle b" "limited_quota q"
    and "primary_op (primary b) key q cost now = Done (r, p')"
  shows "\<exists>d b'. breaker_check_and_update primary_op b key q cost now = Done (Ok d, b') \<and>
    breaker_idle b' \<and> policy b' = policy b"
proof -
  have nh: "state b \<noteq> HalfOpen" and pol: "policy_ok (policy b)" and cnt: "count_ok (policy b) (state b)"
    using assms(1) by (simp_all add: breaker_idle_def)
  note eqs = breaker_call_eqs [where primary_op = primary_op and b = b and key = key and q = q
      and cost = cost and now = now]
  note fb = fallback_check_idle [OF assms(2), of _ key cost now]
  have acc: "count_ok (policy b) (after_call (state b) rt oc now (policy b))" for rt oc
    by (rule after_call_count_ok [OF pol cnt])
  show ?thesis
  proof (rule breaker_call_cases [where primary_op = primary_op, OF nh assms(3)])
    fix n d assume "state b = Closed n" "r = Ok d"
    then show ?thesis using eqs(1) assms(3) pol
      by (simp add: breaker_idle_def count_ok_def policy_ok_def)
  next
    fix n e assume c: "state b = Closed n" "r = Err e"
    define st where "st = after_call (Closed n) Primary Failure now (policy b)"
    have "count_ok (policy b) st" "st \<noteq> HalfOpen"
      using acc [of Primary Failure] c after_call_primary_half_open [of "Closed n" Failure now "policy b"]
      by (simp_all add: st_def del: after_call.simps)
    then show ?thesis
      using eqs(2) [OF c(1), of e p'] assms(3) c(2) pol
        fb [of "emit (prune_fallback (emit (b\<lparr>primary := p', state := st\<rparr>) (PrimaryFailed e)) now) (Opened e)"]
        fb [of "prune_fallback_if_due (emit (b\<lparr>primary := p', state := st\<rparr>) (PrimaryFailed e)) now"]
      unfolding st_def [symmetric] Let_def by (simp add: breaker_idle_def split: if_splits)
  next
    fix u assume "state b = Open u" "now < u"
    then show ?thesis using eqs(3) fb [OF assms(1)] by simp
  next
    fix u d assume "state b = Open u" "u \<le> now" "r = Ok d"
    then show ?thesis using eqs(4) assms(3) pol
      by (simp add: breaker_idle_def count_ok_def policy_ok_def)
  next
    fix u e assume c: "state b = Open u" "u \<le> now" "r = Err e"
    let ?b = "prune_fallback_if_due (emit ((prune_fallback b now)
        \<lparr>primary := p', state := Open (saturating_add now (open_for (policy b)))\<rparr>) (PrimaryFailed e)) now"
    have "breaker_idle ?b" "policy ?b = policy b"
      using pol by (simp_all add: breaker_idle_def count_ok_def)
    then show ?thesis using eqs(5) [OF c(1,2), of e p'] assms(3) c(3) fb [of ?b] by simp
  qed
qed

text \<open>A primary that returns on limited quotas makes the breaker a storage that always answers.\<close>

definition primary_returns :: "'p storage_op \<Rightarrow> bool" where
  "primary_returns primary_op \<longleftrightarrow>
     (\<forall>p key q cost now. limited_quota q \<longrightarrow> returns (primary_op p key q cost now))"

lemma breaker_answering:
  assumes "primary_returns primary_op"
  shows "answering_store (breaker_check_and_update primary_op) breaker_idle"
proof (unfold_locales, goal_cases)
  case (1 b q key cost now)
  then obtain r p' where "primary_op (primary b) key q cost now = Done (r, p')"
    using assms by (fastforce simp: primary_returns_def returns_iff)
  then show ?case using breaker_call_idle [where primary_op = primary_op, OF 1] by blast
qed

text \<open>In particular with a \<open>MemoryStorage\<close> as its primary, or another breaker over one.\<close>

lemma memory_returns: "primary_returns memory_check_and_update"
proof -
  have "returns (memory_check_and_update m key q cost now)" if "limited_quota q" for m key q cost now
    using mem_answers.answers [OF TrueI that, of m key cost now] by auto
  then show ?thesis by (simp add: primary_returns_def)
qed

interpretation brk_mem: answering_store "breaker_check_and_update memory_check_and_update" breaker_idle
  by (rule breaker_answering [OF memory_returns])

lemma open_calls:
  assumes "state b = Open u" "\<forall>(key, q, cost, now) \<in> set rs. limited_quota q \<and> now < u"
  shows "\<exists>outs b'. storage_calls (breaker_check_and_update primary_op) b rs = Done (outs, b') \<and> (\<forall>r \<in> set outs. is_ok r) \<and>
    primary b' = primary b \<and> state b' = Open u \<and> on_state_change b' = on_state_change b"
  using assms
proof (induction rs arbitrary: b)
  case (Cons r rs)
  obtain key q cost now where r: "r = (key, q, cost, now)" by (cases r)
  have lq: "limited_quota q" and lt: "now < u" using Cons.prems(2) r by simp_all
  obtain d fb where "fallback_check b key q cost now = Done (Ok d, b\<lparr>fallback := fb\<rparr>)"
    using fallback_check_total [OF lq] by metis
  then have "breaker_check_and_update primary_op b key q cost now = Done (Ok d, b\<lparr>fallback := fb\<rparr>)"
    using breaker_call_skips_primary [where primary_op = primary_op, OF Cons.prems(1) lt] by simp
  moreover obtain outs b' where "storage_calls (breaker_check_and_update primary_op) (b\<lparr>fallback := fb\<rparr>) rs = Done (outs, b')"
    "\<forall>r \<in> set outs. is_ok r" "primary b' = primary b" "state b' = Open u"
    "on_state_change b' = on_state_change b"
    using Cons.IH [of "b\<lparr>fallback := fb\<rparr>"] Cons.prems by auto
  ultimately show ?case by (simp add: r)
qed simp

section \<open>Properties\<close>

text \<open>A concrete outage for the witnesses: a primary that always fails, counting its calls.\<close>

definition failing_primary :: "nat storage_op" where
  "failing_primary p key q cost now = Done (Err (StorageError (lit ''redis down'')), Suc p)"

definition healthy_primary :: "nat storage_op" where
  "healthy_primary p key q cost now =
     Done (Ok (Ok \<lparr>info_limit = 3, remaining = 2, info_reset_after = from_secs 20\<rparr>), Suc p)"

definition demo_request :: "nanos \<Rightarrow> storage_key \<times> quota \<times> u32 \<times> nanos" where
  "demo_request now = (demo_key, three_per_minute, 1, now)"

lemma failing_primary_returns: "primary_returns failing_primary"
  by (simp add: primary_returns_def failing_primary_def)

lemma failing_primary_fails: "always_fails failing_primary"
  by (simp add: always_fails_def failing_primary_def)

text \<open>The outage never reaches the caller. However the primary answers (as long as it
  returns on limited quotas),
  every call of a sequence of calls on a breaker is answered with a decision, allowed or limited, and
  never with a storage error; and the breaker is then ready for the next call.\<close>

theorem breaker_always_answers:
  assumes "breaker_idle b" "primary_returns primary_op"
    and "\<forall>(key, q, cost, now) \<in> set rs. limited_quota q"
  shows "\<exists>outs b'. storage_calls (breaker_check_and_update primary_op) b rs = Done (outs, b') \<and> length outs = length rs \<and>
    (\<forall>r \<in> set outs. is_ok r) \<and> breaker_idle b'"
  using answering_store.calls_answered [OF breaker_answering [OF assms(2)] assms(1,3)] .

theorem breaker_always_answers_witness:
  "\<exists>outs b'. storage_calls (breaker_check_and_update failing_primary) (breaker_new 0 memory_new) [demo_request 0, demo_request 1]
      = Done (outs, b') \<and> length outs = 2 \<and> list_all is_ok outs \<and> breaker_idle b'"
  using breaker_always_answers [OF breaker_new_idle [of 0 memory_new],
      of failing_primary "[demo_request 0, demo_request 1]"]
  by (auto simp: list_all_iff failing_primary_returns demo_request_def three_per_minute_limited
      simp del: storage_calls.simps)

text \<open>C37: the breaker opens exactly at the threshold. From a breaker that has counted no failure, calls
  to a failing primary are all answered and only counted while there are fewer than the threshold; the
  one that reaches it opens the breaker until its own start time plus \<open>open_for\<close>.\<close>

theorem breaker_opens_at_threshold:
  assumes "always_fails primary_op" "state b = Closed 0" "rs \<noteq> []"
    and "\<forall>(key, q, cost, now) \<in> set rs. limited_quota q"
    and "length rs \<le> unat (failure_threshold (policy b))"
  shows "\<exists>outs b'. storage_calls (breaker_check_and_update primary_op) b rs = Done (outs, b') \<and> (\<forall>r \<in> set outs. is_ok r) \<and>
    (if length rs < unat (failure_threshold (policy b))
     then state b' = Closed (of_nat (length rs))
     else state b' = Open (saturating_add (snd (snd (snd (last rs)))) (open_for (policy b))))"
proof -
  have count: "unat m = length rs \<Longrightarrow> m = of_nat (length rs)" for m :: u32
    by (metis word_nchotomy of_nat_unat ucast_id)
  show ?thesis
    using failing_calls [of primary_op b 0 rs] assms by (auto split: if_splits dest: count)
qed

theorem breaker_opens_at_threshold_witness:
  "\<exists>outs b'. storage_calls (breaker_check_and_update failing_primary) (breaker_new 0 memory_new)
      [demo_request 0, demo_request 1, demo_request 2] = Done (outs, b') \<and>
    list_all is_ok outs \<and> state b' = Open 5000000002"
  using breaker_opens_at_threshold [OF failing_primary_fails, of "breaker_new 0 memory_new"
      "[demo_request 0, demo_request 1, demo_request 2]"]
  by (simp add: list_all_iff breaker_new_def demo_request_def three_per_minute_limited
      DEFAULT_FAILURE_THRESHOLD_def DEFAULT_OPEN_FOR_def duration_nanos_def unat_max_word
      saturating_add_def del: storage_calls.simps)

text \<open>While the breaker is open, requests before the probe time never touch the primary: whatever
  it would answer, they are served, and the primary, the probe time and the reported events stay as
  they were.\<close>

theorem open_breaker_skips_primary:
  assumes "state b = Open u" "\<forall>(key, q, cost, now) \<in> set rs. limited_quota q \<and> now < u"
  shows "\<exists>outs b'. storage_calls (breaker_check_and_update primary_op) b rs = Done (outs, b') \<and> (\<forall>r \<in> set outs. is_ok r) \<and>
    primary b' = primary b \<and> state b' = Open u \<and> on_state_change b' = on_state_change b"
  using assms by (rule open_calls)

theorem open_breaker_skips_primary_witness:
  "\<exists>outs b'. storage_calls (breaker_check_and_update failing_primary) ((breaker_new 7 memory_new)\<lparr>state := Open 10\<rparr>)
      [demo_request 0, demo_request 9] = Done (outs, b') \<and> list_all is_ok outs \<and>
    primary b' = 7 \<and> state b' = Open 10"
  using open_breaker_skips_primary [of "(breaker_new 7 memory_new)\<lparr>state := Open 10\<rparr>" 10
      "[demo_request 0, demo_request 9]" failing_primary]
  by (simp add: list_all_iff demo_request_def three_per_minute_limited breaker_new_def del: storage_calls.simps) blast

text \<open>C24: the probe decides. The first request at or after the probe time goes to the primary. If the
  primary answers, its decision is returned, the breaker closes with no failure counted, the local
  counts are discarded and the closing is reported. If it fails, the request is still answered with a
  decision, and the breaker is open again until the probe's time plus \<open>open_for\<close>.\<close>

theorem probe_closes_or_reopens:
  assumes "state b = Open u" "u \<le> now" "limited_quota q"
    and "primary_op (primary b) key q cost now = Done (r, p')"
  shows "\<exists>d b'. breaker_check_and_update primary_op b key q cost now = Done (Ok d, b') \<and>
    primary b' = p' \<and>
    (case r of
       Ok decision \<Rightarrow> d = decision \<and> state b' = Closed 0 \<and> memory_is_empty (fallback b') \<and>
         on_state_change b' = map_option (\<lambda>evs. evs @ [ClosedEvent]) (on_state_change b)
     | Err e \<Rightarrow> state b' = Open (saturating_add now (open_for (policy b))) \<and>
         on_state_change b' = map_option (\<lambda>evs. evs @ [PrimaryFailed e]) (on_state_change b))"
proof (cases r)
  case (Ok decision)
  then show ?thesis
    using breaker_call_probe_ok [where primary_op = primary_op, OF assms(1,2)] assms(4)
    by (auto simp: memory_is_empty_def memory_clear_def emit_def split: option.split)
next
  case (Err e)
  let ?b = "prune_fallback_if_due (emit ((prune_fallback b now)
        \<lparr>primary := p', state := Open (saturating_add now (open_for (policy b)))\<rparr>) (PrimaryFailed e)) now"
  obtain d fb where "fallback_check ?b key q cost now = Done (Ok d, ?b\<lparr>fallback := fb\<rparr>)"
    using fallback_check_total [OF assms(3)] by metis
  then show ?thesis
    using breaker_call_probe_err [where primary_op = primary_op, OF assms(1,2)] assms(4) Err
    by (auto simp: emit_def split: option.split)
qed

theorem probe_closes_or_reopens_witness:
  "\<exists>d b'. breaker_check_and_update healthy_primary ((breaker_new 0 memory_new)\<lparr>state := Open 10\<rparr>)
      demo_key three_per_minute 1 10 = Done (Ok d, b') \<and> state b' = Closed 0 \<and> primary b' = 1"
  using probe_closes_or_reopens [of "(breaker_new 0 memory_new)\<lparr>state := Open 10\<rparr>" 10 10
      three_per_minute healthy_primary demo_key 1]
  by (simp add: healthy_primary_def three_per_minute_limited breaker_new_def) blast

end
