(* ===== verification/Breaker_Concurrency.thy ===== *)
theory Breaker_Concurrency
  imports Circuit_Breaker
begin

text \<open>
  \<open>src/storage/breaker.rs\<close> again, now with any number of calls in flight. A call is a future: it is
  created (\<open>admit\<close> runs), polled, suspended while the primary answers, resumed, and possibly dropped
  before it finishes. Between two steps of one call any other call may take steps. Each step is one
  critical section or one atomic operation of the source: the lock of \<open>admit\<close>, the store and the
  \<open>retain_active\<close> of \<open>prune_fallback\<close>, the primary's answer, the lock around \<open>after_call\<close>, the load
  and the exchange of \<open>prune_fallback_if_due\<close>, one call of the callback, one operation on the fallback.
\<close>

section \<open>The steps of one call\<close>

type_synonym storage_request = "storage_key \<times> quota \<times> u32 \<times> nanos"

abbreviation request_now :: "storage_request \<Rightarrow> nanos" where
  "request_now req \<equiv> snd (snd (snd req))"

datatype action =
    StorePruned
  | RetainActive
  | ClearFallback
  | Emit breaker_event
  | LoadPruned
  | ExchangePruned nanos

datatype ending = AnswerFromPrimary decision | AnswerFromFallback

text \<open>
  Where a call is: not made yet; admitted to the primary with the actions left before its
  \<open>await\<close>; the primary has answered but the call has not been resumed; the actions left after the
  state was updated; finished; dropped.
\<close>

datatype call =
    Start storage_request
  | Admitted route storage_request "action list"
  | Resumable route storage_request storage_outcome
  | Finishing storage_request "action list" ending
  | Answered storage_outcome
  | Dropped

definition run_action :: "nanos \<Rightarrow> action \<Rightarrow> 'p breaker \<Rightarrow> action list \<times> 'p breaker" where
  "run_action now a b =
     (case a of
        StorePruned \<Rightarrow> ([], b\<lparr>last_pruned := now\<rparr>)
      | RetainActive \<Rightarrow> ([], b\<lparr>fallback := memory_retain_active (fallback b) now\<rparr>)
      | ClearFallback \<Rightarrow> ([], b\<lparr>fallback := memory_clear (fallback b)\<rparr>)
      | Emit ev \<Rightarrow> ([], emit b ev)
      | LoadPruned \<Rightarrow>
          (if saturating_sub now (last_pruned b) \<ge> open_for (policy b)
           then [ExchangePruned (last_pruned b)] else [], b)
      | ExchangePruned seen \<Rightarrow>
          (case prune_exchange b seen now of
             (True, b') \<Rightarrow> ([RetainActive], b')
           | (False, b') \<Rightarrow> ([], b')))"

text \<open>What is left of a call once the state has been updated from \<open>old\<close> to \<open>new\<close>.\<close>

fun finishing_actions :: "storage_outcome \<Rightarrow> breaker_state \<Rightarrow> breaker_state \<Rightarrow> action list" where
  "finishing_actions (Ok _) old new =
     (if old = HalfOpen \<and> is_closed new then [ClearFallback, Emit ClosedEvent] else [])"
| "finishing_actions (Err e) old new =
     Emit (PrimaryFailed e) #
     (if is_closed old \<and> is_open new then [StorePruned, RetainActive, Emit (Opened e)] else [LoadPruned])"

fun ending_of :: "storage_outcome \<Rightarrow> ending" where
  "ending_of (Ok decision) = AnswerFromPrimary decision"
| "ending_of (Err _) = AnswerFromFallback"

fun call_step :: "'p storage_op \<Rightarrow> call \<Rightarrow> 'p breaker \<Rightarrow> (call \<times> 'p breaker) exec" where
  "call_step primary_op (Start req) b =
     (case admit b (request_now req) of
        (None, b') \<Rightarrow> Done (Finishing req [] AnswerFromFallback, b')
      | (Some rt, b') \<Rightarrow>
          Done (Admitted rt req (if rt = Probe then [StorePruned, RetainActive] else []), b'))"
| "call_step primary_op (Admitted rt req (a # rest)) b =
     (case run_action (request_now req) a b of
        (todo, b') \<Rightarrow> Done (Admitted rt req (todo @ rest), b'))"
| "call_step primary_op (Admitted rt req []) b =
     (case req of (key, quota, cost, now) \<Rightarrow>
        map_exec (\<lambda>(r, p'). (Resumable rt req r, b\<lparr>primary := p'\<rparr>))
          (primary_op (primary b) key quota cost now))"
| "call_step primary_op (Resumable rt req r) b =
     (let old = state b; new = after_call old rt (outcome_of r) (request_now req) (policy b)
      in Done (Finishing req (finishing_actions r old new) (ending_of r), b\<lparr>state := new\<rparr>))"
| "call_step primary_op (Finishing req (a # rest) en) b =
     (case run_action (request_now req) a b of
        (todo, b') \<Rightarrow> Done (Finishing req (todo @ rest) en, b'))"
| "call_step primary_op (Finishing req [] (AnswerFromPrimary decision)) b = Done (Answered (Ok decision), b)"
| "call_step primary_op (Finishing req [] AnswerFromFallback) b =
     (case req of (key, quota, cost, now) \<Rightarrow>
        map_exec (\<lambda>(r, b'). (Answered r, b')) (fallback_check b key quota cost now))"
| "call_step primary_op c b = Done (c, b)"

text \<open>The call holds an armed \<open>ProbeGuard\<close>.\<close>

fun probing :: "call \<Rightarrow> bool" where
  "probing (Admitted rt _ _) = (rt = Probe)"
| "probing (Resumable rt _ _) = (rt = Probe)"
| "probing _ = False"

fun request_of :: "call \<Rightarrow> storage_request option" where
  "request_of (Start req) = Some req"
| "request_of (Admitted _ req _) = Some req"
| "request_of (Resumable _ req _) = Some req"
| "request_of (Finishing req _ _) = Some req"
| "request_of _ = None"

text \<open>Dropping the future, by cancellation or by a panic that unwinds it, drops its guard.\<close>

definition drop_call :: "call \<Rightarrow> 'p breaker \<Rightarrow> 'p breaker" where
  "drop_call c b =
     (case request_of c of None \<Rightarrow> b | Some req \<Rightarrow> drop_guard (probing c) (request_now req) b)"

section \<open>All calls together\<close>

record 'p breaker_sys =
  brk :: "'p breaker"
  calls :: "nat \<Rightarrow> call"

definition sys_init :: "'p breaker \<Rightarrow> (nat \<Rightarrow> storage_request) \<Rightarrow> 'p breaker_sys" where
  "sys_init b reqs = \<lparr>brk = b, calls = Start \<circ> reqs\<rparr>"

inductive sys_step :: "'p storage_op \<Rightarrow> 'p breaker_sys \<Rightarrow> 'p breaker_sys \<Rightarrow> bool"
  for primary_op :: "'p storage_op" where
  advance: "call_step primary_op (calls s i) (brk s) = Done (c', b') \<Longrightarrow>
    sys_step primary_op s \<lparr>brk = b', calls = (calls s)(i := c')\<rparr>"
| cancel: "sys_step primary_op s \<lparr>brk = drop_call (calls s i) (brk s), calls = (calls s)(i := Dropped)\<rparr>"

inductive_cases sys_stepE: "sys_step primary_op s t"

text \<open>An execution, with the list of the state changes the breaker went through.\<close>

inductive sys_trace :: "'p storage_op \<Rightarrow> 'p breaker_sys \<Rightarrow> (breaker_state \<times> breaker_state) list \<Rightarrow>
    'p breaker_sys \<Rightarrow> bool" for primary_op :: "'p storage_op" and s0 :: "'p breaker_sys" where
  trace_init: "sys_trace primary_op s0 [] s0"
| trace_step: "sys_trace primary_op s0 h s \<Longrightarrow> sys_step primary_op s t \<Longrightarrow>
    sys_trace primary_op s0 (h @ [(state (brk s), state (brk t))]) t"

definition sys_reachable :: "'p storage_op \<Rightarrow> 'p breaker_sys \<Rightarrow> bool" where
  "sys_reachable primary_op s \<longleftrightarrow>
     (\<exists>b reqs h. breaker_idle b \<and> sys_trace primary_op (sys_init b reqs) h s)"

text \<open>The two changes the source reports: \<open>Opened\<close> and \<open>Closed\<close>.\<close>

fun is_opening :: "breaker_state \<times> breaker_state \<Rightarrow> bool" where
  "is_opening (old, new) \<longleftrightarrow> is_closed old \<and> is_open new"

fun is_closing :: "breaker_state \<times> breaker_state \<Rightarrow> bool" where
  "is_closing (old, new) \<longleftrightarrow> old = HalfOpen \<and> is_closed new"

section \<open>What one step can do\<close>

lemma run_action_frame:
  "run_action now a b = (todo, b') \<Longrightarrow> state b' = state b \<and> policy b' = policy b \<and> primary b' = primary b"
  by (auto simp: run_action_def prune_exchange_def split: action.splits if_splits)

lemma fallback_check_frame:
  "fallback_check b key q cost now = Done (r, b') \<Longrightarrow> state b' = state b \<and> policy b' = policy b"
  by (cases "memory_check_and_update (fallback b) key q cost now") (auto simp: fallback_check_def)

text \<open>A step of a call updates the breaker's state only when it admits a probe or applies a result.\<close>

lemma call_step_cases:
  assumes "call_step primary_op c b = Done (c', b')"
  obtains (Quiet) "state b' = state b" "policy b' = policy b" "probing c' = probing c"
  | (AdmitProbe) req u where "c = Start req" "state b = Open u" "u \<le> request_now req"
      "state b' = HalfOpen" "policy b' = policy b" "probing c'"
  | (Apply) rt req r where "c = Resumable rt req r" "policy b' = policy b" "\<not> probing c'"
      "state b' = after_call (state b) rt (outcome_of r) (request_now req) (policy b)"
  using assms
proof (cases "(primary_op, c, b)" rule: call_step.cases)
  case (1 pop req b)
  then show ?thesis using assms that(1,2)
    by (cases req) (auto simp: admit_def split: breaker_state.splits if_splits)
next
  case (3 pop rt req b)
  then show ?thesis using assms that(1)
    by (cases "primary_op (primary b) (fst req) (fst (snd req)) (fst (snd (snd req))) (request_now req)")
      (auto split: prod.splits)
next
  case (7 pop req b)
  then show ?thesis using assms that(1)
    by (auto simp: map_exec_Done_iff dest!: fallback_check_frame split: prod.splits)
qed (use that(1,3) in \<open>auto simp: Let_def dest: run_action_frame split: prod.splits\<close>)

lemma drop_call_cases:
  obtains (Release) req where "request_of c = Some req" "probing c" "state b = HalfOpen"
      "drop_call c b = b\<lparr>state := Open (request_now req)\<rparr>"
  | (Nothing) "drop_call c b = b" "\<not> probing c \<or> state b \<noteq> HalfOpen"
  by (cases c) (auto simp: drop_call_def drop_guard_def)

section \<open>The invariant\<close>

text \<open>
  A half-open breaker has exactly one call that holds an armed guard, and no call holds one
  otherwise; the policy is an accepted one and the failure count is below its threshold.
\<close>

definition sys_inv :: "'p breaker_sys \<Rightarrow> bool" where
  "sys_inv s \<longleftrightarrow> policy_ok (policy (brk s)) \<and> count_ok (policy (brk s)) (state (brk s)) \<and>
     (\<forall>i j. probing (calls s i) \<longrightarrow> probing (calls s j) \<longrightarrow> i = j) \<and>
     (state (brk s) = HalfOpen \<longleftrightarrow> (\<exists>i. probing (calls s i)))"

lemma sys_inv_init: "breaker_idle b \<Longrightarrow> sys_inv (sys_init b reqs)"
  by (simp add: sys_inv_def sys_init_def breaker_idle_def)

lemma sys_inv_advance:
  assumes "sys_inv s" "call_step primary_op (calls s i) (brk s) = Done (c', b')"
  shows "sys_inv \<lparr>brk = b', calls = (calls s)(i := c')\<rparr>"
  using assms(2)
proof (cases rule: call_step_cases)
  case Quiet
  then show ?thesis using assms(1) by (auto simp: sys_inv_def)
next
  case AdmitProbe
  then show ?thesis using assms(1) by (auto simp: sys_inv_def count_ok_def)
next
  case (Apply rt req r)
  then have "count_ok (policy (brk s)) (state b')"
    using assms(1) by (simp add: sys_inv_def after_call_count_ok)
  moreover have "(\<exists>k. probing (((calls s)(i := c')) k)) \<longleftrightarrow> rt = Primary \<and> (\<exists>k. probing (calls s k))"
  proof -
    have i: "probing (calls s i) \<longleftrightarrow> rt = Probe" using Apply(1) by simp
    have uniq: "probing (calls s i) \<Longrightarrow> probing (calls s k) \<Longrightarrow> k = i" for k
      using assms(1) unfolding sys_inv_def by blast
    have others: "(\<exists>k. probing (((calls s)(i := c')) k)) \<longleftrightarrow> (\<exists>k. k \<noteq> i \<and> probing (calls s k))"
      using Apply(3) by auto
    show ?thesis
    proof (cases rt)
      case Primary
      then have "k \<noteq> i" if "probing (calls s k)" for k using that i by auto
      then show ?thesis using others Primary by blast
    next
      case Probe
      then show ?thesis using others uniq i by blast
    qed
  qed
  ultimately show ?thesis using assms(1) Apply(2-4)
    unfolding sys_inv_def by (auto simp: after_call_not_half_open split: if_splits)
qed

lemma sys_inv_cancel:
  "sys_inv s \<Longrightarrow> sys_inv \<lparr>brk = drop_call (calls s i) (brk s), calls = (calls s)(i := Dropped)\<rparr>"
  by (cases rule: drop_call_cases [where c = "calls s i" and b = "brk s"])
    (auto simp: sys_inv_def count_ok_def)

lemma sys_step_inv: "sys_step primary_op s t \<Longrightarrow> sys_inv s \<Longrightarrow> sys_inv t"
  by (erule sys_stepE) (auto intro: sys_inv_advance sys_inv_cancel)

lemma sys_trace_inv: "sys_trace primary_op s0 h s \<Longrightarrow> sys_inv s0 \<Longrightarrow> sys_inv s"
  by (induction rule: sys_trace.induct) (auto intro: sys_step_inv)

lemma sys_reachable_inv: "sys_reachable primary_op s \<Longrightarrow> sys_inv s"
  by (auto simp: sys_reachable_def intro: sys_trace_inv sys_inv_init)

section \<open>Which steps change the state\<close>

text \<open>Quantifiers over requests stay whole.\<close>

declare split_paired_Ex [simp del] split_paired_All [simp del]

lemma sys_inv_owner: "sys_inv s \<Longrightarrow> probing (calls s i) \<Longrightarrow> state (brk s) = HalfOpen"
  by (auto simp: sys_inv_def)

text \<open>The changes a step can make, with the call and the event that made it.\<close>

definition allowed_change :: "(nat \<Rightarrow> call) \<Rightarrow> (nat \<Rightarrow> call) \<Rightarrow> breaker_state \<Rightarrow> breaker_state \<Rightarrow> bool" where
  "allowed_change cs cs' old new \<longleftrightarrow>
     (case old of
        Closed n \<Rightarrow>
          (\<exists>i req r. cs i = Resumable Primary req r \<and> (is_ok r \<longrightarrow> new = Closed 0) \<and>
             (\<not> is_ok r \<longrightarrow> new = Closed (saturating_add n 1) \<or> is_open new))
      | Open u \<Rightarrow> new = HalfOpen \<and> (\<exists>i req. cs i = Start req \<and> u \<le> request_now req \<and> probing (cs' i))
      | HalfOpen \<Rightarrow>
          (\<exists>i req. probing (cs i) \<and> request_of (cs i) = Some req \<and>
             (if is_closed new then new = Closed 0 \<and> (\<exists>d. cs i = Resumable Probe req (Ok d))
              else if cs' i = Dropped then new = Open (request_now req)
              else is_open new \<and> (\<exists>e. cs i = Resumable Probe req (Err e)))))"

lemma after_call_effect:
  assumes "st' = after_call st rt (outcome_of r) now p" "st' \<noteq> st" "rt = Probe \<longrightarrow> st = HalfOpen"
  obtains (Ordinary) n where "st = Closed n" "rt = Primary" "is_ok r \<longrightarrow> st' = Closed 0"
      "\<not> is_ok r \<longrightarrow> st' = Closed (saturating_add n 1) \<or> is_open st'"
  | (ProbeOk) d where "st = HalfOpen" "rt = Probe" "r = Ok d" "st' = Closed 0"
  | (ProbeErr) e where "st = HalfOpen" "rt = Probe" "r = Err e" "is_open st'"
  using assms by (cases st; cases rt; cases r) (auto simp: Let_def split: if_splits)

lemma advance_change:
  assumes "sys_inv s" "call_step primary_op (calls s i) (brk s) = Done (c', b')"
    and "state b' \<noteq> state (brk s)"
  shows "allowed_change (calls s) ((calls s)(i := c')) (state (brk s)) (state b')"
  using assms(2)
proof (cases rule: call_step_cases)
  case Quiet
  then show ?thesis using assms(3) by simp
next
  case (AdmitProbe req u)
  then show ?thesis by (auto simp: allowed_change_def intro!: exI [of _ i])
next
  case (Apply rt req r)
  have "rt = Probe \<longrightarrow> state (brk s) = HalfOpen"
    using Apply(1) sys_inv_owner [OF assms(1), of i] by auto
  have "c' \<noteq> Dropped" using assms(2) Apply(1) by (auto simp: Let_def)
  show ?thesis
  proof (cases rule: after_call_effect [OF Apply(4) assms(3) \<open>rt = Probe \<longrightarrow> _\<close>])
    case (1 n)
    then show ?thesis using Apply(1) by (fastforce simp: allowed_change_def)
  next
    case (2 d)
    then show ?thesis using Apply(1) by (auto simp: allowed_change_def intro!: exI [of _ i])
  next
    case (3 e)
    then show ?thesis using Apply(1) \<open>c' \<noteq> Dropped\<close>
      by (cases "state b'") (auto simp: allowed_change_def intro!: exI [of _ i])
  qed
qed

lemma step_change:
  assumes "sys_inv s" "sys_step primary_op s t" "state (brk t) \<noteq> state (brk s)"
  shows "allowed_change (calls s) (calls t) (state (brk s)) (state (brk t))"
  using assms(2)
proof (cases rule: sys_step.cases)
  case (advance i c' b')
  then show ?thesis
    using advance_change [where primary_op = primary_op, OF assms(1) advance(2)] assms(3) by simp
next
  case (cancel i)
  show ?thesis
  proof (cases rule: drop_call_cases [where c = "calls s i" and b = "brk s"])
    case (Release req)
    then show ?thesis using cancel by (auto simp: allowed_change_def intro!: exI [of _ i])
  next
    case Nothing
    then show ?thesis using cancel assms(3) by simp
  qed
qed

text \<open>The openings and the closings of an execution that starts closed alternate.\<close>

lemma changes_balanced:
  assumes "sys_trace primary_op s0 h s" "sys_inv s0" "is_closed (state (brk s0))"
  shows "length (filter is_opening h)
    = length (filter is_closing h) + (if is_closed (state (brk s)) then 0 else 1)"
  using assms
proof (induction rule: sys_trace.induct)
  case (trace_step h s t)
  have inv: "sys_inv s" using sys_trace_inv [OF trace_step.hyps(1)] trace_step.prems by simp
  show ?case
  proof (cases "state (brk t) = state (brk s)")
    case True
    then show ?thesis using trace_step by (cases "state (brk s)") auto
  next
    case False
    have "allowed_change (calls s) (calls t) (state (brk s)) (state (brk t))"
      by (rule step_change [OF inv trace_step.hyps(2) False])
    then show ?thesis using trace_step
      by (cases "state (brk s)"; cases "state (brk t)") (auto simp: allowed_change_def split: if_splits)
  qed
qed simp

section \<open>One call run to its end\<close>

primrec run_call :: "nat \<Rightarrow> 'p storage_op \<Rightarrow> call \<Rightarrow> 'p breaker \<Rightarrow> (call \<times> 'p breaker) exec" where
  "run_call 0 primary_op c b = Done (c, b)"
| "run_call (Suc n) primary_op c b =
     bind_exec (call_step primary_op c b) (\<lambda>(c', b'). run_call n primary_op c' b')"

lemma run_call_answered [simp]: "run_call n primary_op (Answered r) b = Done (Answered r, b)"
  by (induction n) simp_all

lemma run_call_add:
  "run_call (m + n) primary_op c b =
     bind_exec (run_call m primary_op c b) (\<lambda>(c', b'). run_call n primary_op c' b')"
  by (induction m arbitrary: c b) (auto simp: bind_exec_assoc split_def)

text \<open>Each action is done after at most three steps, without touching the state.\<close>

fun action_weight :: "action \<Rightarrow> nat" where
  "action_weight LoadPruned = 3"
| "action_weight (ExchangePruned _) = 2"
| "action_weight _ = 1"

lemma run_action_weight:
  "run_action now a b = (todo, b') \<Longrightarrow> sum_list (map action_weight todo) < action_weight a"
  by (auto simp: run_action_def prune_exchange_def split: action.splits if_splits)

lemma actions_finish:
  "\<exists>k b'. run_call k primary_op (Admitted rt req acts) b = Done (Admitted rt req [], b') \<and>
    state b' = state b \<and> policy b' = policy b"
proof (induction "sum_list (map action_weight acts)" arbitrary: acts b rule: less_induct)
  case less
  show ?case
  proof (cases acts)
    case Nil
    then show ?thesis by (intro exI [of _ 0]) simp
  next
    case (Cons a rest)
    obtain todo b1 where run: "run_action (request_now req) a b = (todo, b1)" by fastforce
    then have "sum_list (map action_weight (todo @ rest)) < sum_list (map action_weight acts)"
      using run_action_weight Cons by fastforce
    then obtain k b' where "run_call k primary_op (Admitted rt req (todo @ rest)) b1 = Done (Admitted rt req [], b')"
      "state b' = state b1" "policy b' = policy b1"
      using less by blast
    then show ?thesis using run run_action_frame [OF run] Cons
      by (intro exI [of _ "Suc k"] exI [of _ b']) simp
  qed
qed

text \<open>Left alone, the call that holds the probe takes the breaker out of the half-open state.\<close>

lemma probe_resolves:
  assumes "probing c" "state b = HalfOpen" "\<forall>p key q cost now. returns (primary_op p key q cost now)"
  shows "\<exists>k c' b'. run_call k primary_op c b = Done (c', b') \<and> state b' \<noteq> HalfOpen"
proof -
  have settle: "\<exists>c' b'. run_call 1 primary_op (Resumable Probe req r) x = Done (c', b') \<and> state b' \<noteq> HalfOpen"
    for req r x
    by (simp add: Let_def after_call_probe_leaves_half_open)
  show ?thesis
  proof (cases c)
    case (Admitted rt req acts)
    then have rt: "rt = Probe" using assms(1) by simp
    obtain k b1 where run: "run_call k primary_op c b = Done (Admitted rt req [], b1)"
      using actions_finish [of primary_op rt req acts b] Admitted by blast
    obtain key q cost now where req: "req = (key, q, cost, now)" by (cases req)
    obtain r p' where "primary_op (primary b1) key q cost now = Done (r, p')"
      using assms(3) by (metis returns_iff surj_pair)
    then have "run_call (k + 1) primary_op c b = Done (Resumable rt req r, b1\<lparr>primary := p'\<rparr>)"
      unfolding run_call_add run by (simp add: req)
    then have "run_call ((k + 1) + 1) primary_op c b
        = run_call 1 primary_op (Resumable Probe req r) (b1\<lparr>primary := p'\<rparr>)"
      unfolding run_call_add [of "k + 1"] by (simp add: rt)
    then show ?thesis using settle by metis
  next
    case (Resumable rt req r)
    then show ?thesis using assms(1) settle [of req r b] by (intro exI [of _ 1]) simp
  qed (use assms(1) in simp_all)
qed

text \<open>A call that is not interrupted is the call of \<open>Circuit_Breaker\<close>.\<close>

lemma run_call_answered_map [simp]:
  "bind_exec (map_exec (\<lambda>(r, b'). (Answered r, b')) m) (\<lambda>(c', b'). run_call n primary_op c' b')
    = map_exec (\<lambda>(r, b'). (Answered r, b')) m"
  by (cases m) (auto split: prod.splits)

lemma run_fallback:
  "run_call (Suc n) primary_op (Finishing (key, q, cost, now) [] AnswerFromFallback) b =
     map_exec (\<lambda>(r, b'). (Answered r, b')) (fallback_check b key q cost now)"
  by simp

lemma run_finishing_ok:
  "run_call (5 + n) primary_op (Finishing req (finishing_actions (Ok d) old new) (ending_of (Ok d))) b =
     Done (Answered (Ok d),
       if old = HalfOpen \<and> is_closed new
       then emit (b\<lparr>fallback := memory_clear (fallback b)\<rparr>) ClosedEvent else b)"
  by (simp add: eval_nat_numeral run_action_def)

lemma run_finishing_err:
  "run_call (5 + n) primary_op
      (Finishing (key, q, cost, now) (finishing_actions (Err e) old new) (ending_of (Err e))) b =
    map_exec (\<lambda>(r, b'). (Answered r, b'))
      (fallback_check
        (let b1 = emit b (PrimaryFailed e) in
         if is_closed old \<and> is_open new then emit (prune_fallback b1 now) (Opened e)
         else prune_fallback_if_due b1 now) key q cost now)"
  by (cases "fallback_check (emit b (PrimaryFailed e)) key q cost now")
    (auto simp: eval_nat_numeral run_action_def prune_fallback_def prune_fallback_if_due_def
      prune_exchange_def Let_def)

lemma run_start_primary:
  "admit b now = (Some Primary, b1) \<Longrightarrow>
    run_call (Suc n) primary_op (Start (key, q, cost, now)) b
      = run_call n primary_op (Admitted Primary (key, q, cost, now) []) b1"
  by simp

lemma run_start_probe:
  "admit b now = (Some Probe, b1) \<Longrightarrow>
    run_call (Suc (Suc (Suc n))) primary_op (Start (key, q, cost, now)) b
      = run_call n primary_op (Admitted Probe (key, q, cost, now) []) (prune_fallback b1 now)"
  by (simp add: run_action_def prune_fallback_def)

lemma run_from_primary:
  "run_call (7 + n) primary_op (Admitted rt (key, q, cost, now) []) b =
     bind_exec (primary_op (primary b) key q cost now) (\<lambda>(r, p').
       let b3 = b\<lparr>primary := p'\<rparr>;
           new = after_call (state b3) rt (outcome_of r) now (policy b3)
       in run_call (5 + n) primary_op
            (Finishing (key, q, cost, now) (finishing_actions r (state b3) new) (ending_of r))
            (b3\<lparr>state := new\<rparr>))"
  by (cases "primary_op (primary b) key q cost now")
    (auto simp: eval_nat_numeral Let_def simp del: finishing_actions.simps ending_of.simps)

text \<open>From the \<open>await\<close> of the primary to the end.\<close>

lemma run_primary_to_end:
  "run_call (7 + n) primary_op (Admitted rt (key, q, cost, now) []) b2 =
     map_exec (\<lambda>(r, b'). (Answered r, b'))
       (bind_exec (primary_op (primary b2) key q cost now) (\<lambda>(result, p').
          let b3 = b2\<lparr>primary := p'\<rparr>;
              old = state b3;
              new = after_call old rt (outcome_of result) now (policy b3);
              b4 = b3\<lparr>state := new\<rparr>
          in case result of
               Ok decision \<Rightarrow>
                 let b5 = (if old = HalfOpen \<and> is_closed new
                           then emit (b4\<lparr>fallback := memory_clear (fallback b4)\<rparr>) ClosedEvent
                           else b4)
                 in Done (Ok decision, b5)
             | Err error \<Rightarrow>
                 let b5 = emit b4 (PrimaryFailed error);
                     b6 = (if is_closed old \<and> is_open new
                           then emit (prune_fallback b5 now) (Opened error)
                           else prune_fallback_if_due b5 now)
                 in fallback_check b6 key q cost now))"
proof (cases "primary_op (primary b2) key q cost now")
  case (Done x)
  then obtain r p' where x: "primary_op (primary b2) key q cost now = Done (r, p')" by (cases x) simp
  show ?thesis
    unfolding run_from_primary x by (cases r) (auto simp: Let_def run_finishing_ok run_finishing_err
      simp del: finishing_actions.simps ending_of.simps)
qed (simp add: run_from_primary)

text \<open>The interleaved model refines to the whole call: a call whose steps are not interleaved with any other computes
  what \<open>breaker_check_and_update\<close> computes, panics included, and ten steps are enough.\<close>

lemma run_call_refines:
  "run_call 10 primary_op (Start (key, q, cost, now)) b =
     map_exec (\<lambda>(r, b'). (Answered r, b')) (breaker_check_and_update primary_op b key q cost now)"
proof (cases "admit b now")
  case (Pair rt b1)
  show ?thesis
  proof (cases rt)
    case None
    then show ?thesis using Pair
      by (cases "fallback_check b1 key q cost now")
        (auto simp: breaker_check_and_update_def eval_nat_numeral)
  next
    case (Some r)
    let ?b2 = "if r = Probe then prune_fallback b1 now else b1"
    let ?n = "if r = Probe then 0 else 2 :: nat"
    have start: "run_call 10 primary_op (Start (key, q, cost, now)) b
        = run_call (7 + ?n) primary_op (Admitted r (key, q, cost, now) []) ?b2"
      using Pair Some run_start_primary [of b now b1 9 primary_op key q cost]
        run_start_probe [of b now b1 7 primary_op key q cost]
      by (cases r) simp_all
    show ?thesis
      unfolding start run_primary_to_end by (simp add: breaker_check_and_update_def Pair Some)
  qed
qed

section \<open>Answers\<close>

text \<open>Whatever the interleaving, no call is answered with a storage error.\<close>

lemma memory_check_never_errors:
  assumes "memory_check_and_update m key q cost now = Done (r, m')"
  shows "is_ok r"
proof -
  have decided: "bind_exec g (\<lambda>r. Done (case r of Ok (tat, info) \<Rightarrow> (Ok (Ok info), f tat)
      | Err limited \<Rightarrow> (Ok (Err limited), m))) = Done (r, m') \<Longrightarrow> is_ok r" for g f
    by (cases g) (auto split: result.splits)
  show ?thesis
    using assms by (auto simp: memory_check_and_update_def Let_def bind_exec_Done_iff [of "emission_interval_nanos q"]
      bind_exec_Done_iff [of "burst_offset_nanos q"] dest!: decided split: option.splits)
qed

lemma fallback_check_never_errors:
  "fallback_check b key q cost now = Done (r, b') \<Longrightarrow> is_ok r"
  by (auto simp: fallback_check_def map_exec_Done_iff dest: memory_check_never_errors)

definition answers_ok :: "(nat \<Rightarrow> call) \<Rightarrow> bool" where
  "answers_ok cs \<longleftrightarrow> (\<forall>i r. cs i = Answered r \<longrightarrow> is_ok r)"

lemma call_step_answer:
  "call_step primary_op c b = Done (Answered r, b') \<Longrightarrow> c = Answered r \<or> is_ok r"
  by (cases "(primary_op, c, b)" rule: call_step.cases)
    (auto simp: Let_def map_exec_Done_iff dest: fallback_check_never_errors
      split: prod.splits option.splits)

lemma sys_trace_answers:
  "sys_trace primary_op s0 h s \<Longrightarrow> answers_ok (calls s0) \<Longrightarrow> answers_ok (calls s)"
proof (induction rule: sys_trace.induct)
  case (trace_step h s t)
  from trace_step.hyps(2) show ?case
    using trace_step.IH [OF trace_step.prems]
    by cases (auto simp: answers_ok_def dest: call_step_answer)
qed

section \<open>Properties\<close>

text \<open>A concrete run for the witnesses: an open breaker, request 0 becomes the probe.\<close>

definition open_breaker :: "nat breaker" where
  "open_breaker = (breaker_new 0 memory_new)\<lparr>state := Open 10\<rparr>"

definition probe_started :: "nat breaker_sys" where
  "probe_started = \<lparr>brk = open_breaker\<lparr>state := HalfOpen\<rparr>,
     calls = (\<lambda>_. Start (demo_request 10))(0 := Admitted Probe (demo_request 10) [StorePruned, RetainActive])\<rparr>"

lemma open_breaker_idle: "breaker_idle open_breaker"
  using breaker_new_idle [of 0 memory_new] by (auto simp: open_breaker_def breaker_idle_def count_ok_def)

lemma probe_started_trace:
  "sys_trace primary_op (sys_init open_breaker (\<lambda>_. demo_request 10)) [(Open 10, HalfOpen)] probe_started"
proof -
  let ?s = "sys_init open_breaker (\<lambda>_. demo_request 10)"
  have "sys_step primary_op ?s probe_started"
    using sys_step.advance [of primary_op ?s 0]
    by (simp add: sys_init_def open_breaker_def admit_def demo_request_def probe_started_def comp_def)
  from trace_step [OF trace_init this] show ?thesis
    by (simp add: sys_init_def probe_started_def open_breaker_def)
qed

lemma probe_started_reachable: "sys_reachable primary_op probe_started"
  using probe_started_trace open_breaker_idle unfolding sys_reachable_def by blast

text \<open>A call run alone is an execution of the system.\<close>

lemma sys_trace_trans:
  "sys_trace primary_op t h2 u \<Longrightarrow> sys_trace primary_op s h1 t \<Longrightarrow> sys_trace primary_op s (h1 @ h2) u"
  by (induction rule: sys_trace.induct) (auto simp flip: append_assoc intro: trace_step)

lemma run_call_trace:
  "run_call k primary_op (calls s i) (brk s) = Done (c', b') \<Longrightarrow>
    \<exists>h. sys_trace primary_op s h \<lparr>brk = b', calls = (calls s)(i := c')\<rparr>"
proof (induction k arbitrary: s)
  case 0
  then have "s = \<lparr>brk = b', calls = (calls s)(i := c')\<rparr>" by (cases s) auto
  then show ?case using trace_init by metis
next
  case (Suc k)
  then obtain c1 b1 where step: "call_step primary_op (calls s i) (brk s) = Done (c1, b1)"
    and rest: "run_call k primary_op c1 b1 = Done (c', b')"
    by (auto simp: bind_exec_Done_iff)
  let ?t = "\<lparr>brk = b1, calls = (calls s)(i := c1)\<rparr>"
  obtain h where "sys_trace primary_op ?t h \<lparr>brk = b', calls = (calls s)(i := c')\<rparr>"
    using Suc.IH [of ?t, unfolded breaker_sys.simps fun_upd_same fun_upd_upd, OF rest] by blast
  with trace_step [OF trace_init sys_step.advance [OF step]] show ?case
    using sys_trace_trans by blast
qed

text \<open>C11: at most one probe. In every reachable state of any number of concurrent, cancellable calls,
  a half-open breaker has exactly one call in flight that is its probe, and a closed or open one has
  none: concurrent requests never send two trial calls to a failing primary, and the breaker is never
  half-open with nobody left to decide.\<close>

theorem single_probe_in_flight:
  assumes "sys_reachable primary_op s"
  shows "if state (brk s) = HalfOpen then \<exists>i. {j. probing (calls s j)} = {i}
    else {j. probing (calls s j)} = {}"
  using sys_reachable_inv [OF assms] unfolding sys_inv_def by (auto split: if_splits)

theorem single_probe_in_flight_witness:
  "sys_reachable failing_primary probe_started \<and> state (brk probe_started) = HalfOpen \<and>
    (\<exists>i. {j. probing (calls probe_started j)} = {i})"
  using single_probe_in_flight [OF probe_started_reachable [of failing_primary]] probe_started_reachable
  by (simp add: probe_started_def)

text \<open>C12: who may change the breaker's state. In a reachable state, a step of any call, or the drop of
  any call, changes the state only in these ways: an ordinary call's result resets or raises the
  count of a closed breaker or opens it; a request that arrives at or after the probe time turns an
  open breaker half-open and becomes its probe; the probe's success closes it with no failure counted,
  its failure reopens it, and its drop reopens it with the probe time already passed. In
  particular a late result of an ordinary call never moves an open or half-open breaker.\<close>

theorem breaker_state_changes:
  assumes "sys_reachable primary_op s" "sys_step primary_op s t" "state (brk t) \<noteq> state (brk s)"
  shows "allowed_change (calls s) (calls t) (state (brk s)) (state (brk t))"
  using sys_reachable_inv [OF assms(1)] assms(2,3) by (rule step_change)

theorem breaker_state_changes_witness:
  "\<exists>t. sys_step failing_primary probe_started t \<and>
    allowed_change (calls probe_started) (calls t) HalfOpen (Open 10)"
proof -
  let ?t = "\<lparr>brk = drop_call (calls probe_started 0) (brk probe_started),
    calls = (calls probe_started)(0 := Dropped)\<rparr>"
  have step: "sys_step failing_primary probe_started ?t" by (rule sys_step.cancel)
  have "state (brk ?t) = Open 10" "state (brk probe_started) = HalfOpen"
    by (simp_all add: probe_started_def drop_call_def drop_guard_def demo_request_def)
  then show ?thesis
    using step breaker_state_changes [OF probe_started_reachable [of failing_primary] step] by auto
qed

text \<open>C13: the half-open state never sticks. In every reachable half-open state there is a call that
  holds the probe such that, if that call keeps running, it leaves the half-open state after finitely
  many steps of its own (whenever the primary returns), and if it is dropped the breaker is open
  with the probe's own time as its probe time, so that the next request at that time or later
  probes again.\<close>

theorem half_open_is_released:
  assumes "sys_reachable primary_op s" "state (brk s) = HalfOpen"
    and "\<forall>p key q cost now. returns (primary_op p key q cost now)"
  shows "\<exists>i req. probing (calls s i) \<and> request_of (calls s i) = Some req \<and>
    (\<exists>k c' b'. run_call k primary_op (calls s i) (brk s) = Done (c', b') \<and> state b' \<noteq> HalfOpen) \<and>
    state (drop_call (calls s i) (brk s)) = Open (request_now req) \<and>
    (\<forall>now \<ge> request_now req. fst (admit (drop_call (calls s i) (brk s)) now) = Some Probe)"
proof -
  obtain i where i: "probing (calls s i)"
    using sys_reachable_inv [OF assms(1)] assms(2) by (auto simp: sys_inv_def)
  then obtain req where req: "request_of (calls s i) = Some req"
    by (cases "calls s i") auto
  have "drop_call (calls s i) (brk s) = (brk s)\<lparr>state := Open (request_now req)\<rparr>"
    using i req assms(2) by (simp add: drop_call_def drop_guard_def)
  then show ?thesis
    using i req probe_resolves [OF i assms(2,3)]
    by (intro exI [of _ i] exI [of _ req]) (simp add: admit_def)
qed

theorem half_open_is_released_witness:
  "\<exists>i req. probing (calls probe_started i) \<and> request_of (calls probe_started i) = Some req \<and>
    (\<exists>k c' b'. run_call k failing_primary (calls probe_started i) (brk probe_started) = Done (c', b') \<and>
       state b' \<noteq> HalfOpen)"
proof -
  have "state (brk probe_started) = HalfOpen" by (simp add: probe_started_def)
  moreover have "\<forall>p key q cost now. returns (failing_primary p key q cost now)"
    by (simp add: failing_primary_def)
  ultimately show ?thesis
    using half_open_is_released [OF probe_started_reachable [of failing_primary]] by blast
qed

text \<open>C23: one report per outage. Along every execution that starts with a closed breaker, the changes
  on which \<open>Opened\<close> is reported and those on which \<open>Closed\<close> is reported strictly alternate: at every
  moment there has been one opening more than closings when the breaker is not closed, and as many
  when it is.\<close>

theorem opened_and_closed_alternate:
  assumes "breaker_idle b" "is_closed (state b)" "sys_trace primary_op (sys_init b reqs) h s"
  shows "length (filter is_opening h)
    = length (filter is_closing h) + (if is_closed (state (brk s)) then 0 else 1)"
  using changes_balanced [OF assms(3) sys_inv_init [OF assms(1)]] assms(2) by (simp add: sys_init_def)

theorem opened_and_closed_alternate_witness:
  "\<exists>b reqs h s. sys_trace failing_primary (sys_init b reqs) h s \<and> is_closed (state b) \<and>
    is_open (state (brk s)) \<and> length (filter is_opening h) = length (filter is_closing h) + 1"
proof -
  let ?b = "(breaker_new (0 :: nat) memory_new)\<lparr>policy := \<lparr>failure_threshold = 1, open_for = 5\<rparr>\<rparr>"
  let ?s = "sys_init ?b (\<lambda>_. demo_request 0)"
  have idle: "breaker_idle ?b" "is_closed (state ?b)"
    by (simp_all add: breaker_idle_def breaker_new_def policy_ok_def count_ok_def)
  have "\<exists>c' b'. run_call (Suc (Suc (Suc 0))) failing_primary (calls ?s 0) (brk ?s) = Done (c', b') \<and> is_open (state b')"
    by (simp add: sys_init_def admit_def breaker_new_def demo_request_def
        failing_primary_def Let_def saturating_add_def)
  then obtain c' b' where run: "run_call (Suc (Suc (Suc 0))) failing_primary (calls ?s 0) (brk ?s) = Done (c', b')"
    and opened: "is_open (state b')" by blast
  obtain h where h: "sys_trace failing_primary ?s h \<lparr>brk = b', calls = (calls ?s)(0 := c')\<rparr>"
    using run_call_trace [where primary_op = failing_primary and s = ?s and i = 0, OF run] by blast
  show ?thesis
    using h idle opened opened_and_closed_alternate [OF idle h] by (cases "state b'") fastforce+
qed

text \<open>C22: with concurrent and cancelled calls too, every call that is answered is answered with a
  decision: the primary's errors never reach a caller.\<close>

theorem concurrent_answers_are_decisions:
  assumes "sys_reachable primary_op s" "calls s i = Answered r"
  shows "is_ok r"
proof -
  obtain b reqs h where "sys_trace primary_op (sys_init b reqs) h s"
    using assms(1) by (auto simp: sys_reachable_def)
  moreover have "answers_ok (calls (sys_init b reqs))" by (simp add: answers_ok_def sys_init_def)
  ultimately show ?thesis using sys_trace_answers assms(2) unfolding answers_ok_def by blast
qed

theorem concurrent_answers_are_decisions_witness:
  "\<exists>s r. sys_reachable failing_primary s \<and> calls s 0 = Answered r \<and> is_ok r"
proof -
  let ?s = "sys_init open_breaker (\<lambda>_. demo_request 0)"
  obtain d b' where fb: "fallback_check open_breaker demo_key three_per_minute 1 0 = Done (Ok d, b')"
    using fallback_check_idle [OF three_per_minute_limited open_breaker_idle] by metis
  have "run_call (Suc (Suc 0)) failing_primary (calls ?s 0) (brk ?s) = Done (Answered (Ok d), b')"
    using fb by (simp add: sys_init_def admit_def demo_request_def open_breaker_def
        breaker_new_def)
  then obtain h where "sys_trace failing_primary ?s h \<lparr>brk = b', calls = (calls ?s)(0 := Answered (Ok d))\<rparr>"
    using run_call_trace [where primary_op = failing_primary and s = ?s and i = 0] by blast
  then have reach: "sys_reachable failing_primary \<lparr>brk = b', calls = (calls ?s)(0 := Answered (Ok d))\<rparr>"
    using open_breaker_idle unfolding sys_reachable_def by blast
  then show ?thesis
    using concurrent_answers_are_decisions [OF reach, of 0 "Ok d"] by fastforce
qed

end
