(* ===== verification/Breaker_Memory.thy ===== *)
theory Breaker_Memory
  imports Circuit_Breaker
begin

text \<open>
  \<open>src/storage/breaker.rs\<close>: how much memory the fallback of a \<open>CircuitBreaker\<close> holds. The breaker prunes expired
  entries when it opens, at each probe, and at a failure when the last pruning is \<open>open_for\<close> old. The invariant
  below follows \<open>last_pruned\<close> through a run of calls with any primary storage.
\<close>

section \<open>What the fallback holds\<close>

type_synonym breaker_request = "storage_key \<times> quota \<times> u32 \<times> nanos"

text \<open>Every entry belongs to a request of \<open>R\<close>, whose burst it does not outlive, and had not expired at the last pruning.\<close>

definition fallback_holds :: "breaker_request set \<Rightarrow> memory_storage \<Rightarrow> nanos \<Rightarrow> bool" where
  "fallback_holds R m pruned \<longleftrightarrow>
     (\<forall>e tat. mem_state m e = Some tat \<longrightarrow> pruned \<le> tat \<and>
       (\<exists>key q cost t. (key, q, cost, t) \<in> R \<and> entry_of key = e \<and> unat tat \<le> unat t + bo_nat q))"

lemma fallback_holds_empty: "fallback_holds R memory_new pruned"
  by (simp add: fallback_holds_def memory_new_def)

lemma fallback_holds_clear: "fallback_holds R (memory_clear m) pruned"
  by (simp add: fallback_holds_def memory_clear_def)

lemma fallback_holds_mono: "fallback_holds R m pruned \<Longrightarrow> R \<subseteq> R' \<Longrightarrow> fallback_holds R' m pruned"
  unfolding fallback_holds_def by (meson subsetD)

lemma fallback_holds_retain:
  "fallback_holds R m pruned \<Longrightarrow> fallback_holds R (memory_retain_active m now) now"
  by (auto simp: fallback_holds_def retain_active_lookup split: option.splits if_splits)

lemma fallback_holds_finite: "fallback_holds R m pruned \<Longrightarrow> finite R \<Longrightarrow> finite (dom (mem_state m))"
proof -
  assume "fallback_holds R m pruned" "finite R"
  moreover from this(1) have "dom (mem_state m) \<subseteq> (\<lambda>(key, _). entry_of key) ` R"
    by (force simp: fallback_holds_def)
  ultimately show ?thesis by (meson finite_imageI finite_subset)
qed

text \<open>One answer of the fallback.\<close>

lemma fallback_holds_check:
  assumes "limited_quota q" "fallback_holds R (fallback b) pruned" "pruned \<le> now"
  obtains d fb where "fallback_check b key q cost now = Done (Ok d, b\<lparr>fallback := fb\<rparr>)"
    and "fallback_holds (insert (key, q, cost, now) R) fb pruned"
  using assms(1)
proof (cases rule: memory_check_cases [where m = "fallback b" and key = key and now = now and cost = cost])
  case (Allowed new_tat info)
  have "unat new_tat \<le> unat now + bo_nat q" "unat now \<le> unat new_tat"
    using check_gcra_OkD(1,2) [OF limited_ei_word_nonzero [OF assms(1)] Allowed(1)] unat_u64_bound [of now]
    by (auto simp: unat_bo_nat sat_next_def gcra_next_def)
  then have new: "unat new_tat \<le> unat now + bo_nat q" "now \<le> new_tat" by (simp_all only: word_le_nat_alt)
  have "pruned \<le> new_tat" using assms(3) new(2) by (rule order_trans)
  let ?m = "(fallback b)\<lparr>mem_state := (mem_state (fallback b))(entry_of key \<mapsto> new_tat)\<rparr>"
  have "fallback_holds (insert (key, q, cost, now) R) ?m pruned"
    unfolding fallback_holds_def
  proof (intro allI impI)
    fix e tat assume e: "mem_state ?m e = Some tat"
    show "pruned \<le> tat \<and> (\<exists>k q' c t. (k, q', c, t) \<in> insert (key, q, cost, now) R \<and> entry_of k = e \<and> unat tat \<le> unat t + bo_nat q')"
    proof (cases "e = entry_of key")
      case True
      then have "tat = new_tat" using e by simp
      then show ?thesis using True new(1) \<open>pruned \<le> new_tat\<close>
        by (intro conjI exI [of _ key] exI [of _ q] exI [of _ cost] exI [of _ now]) simp_all
    next
      case False
      then have "mem_state (fallback b) e = Some tat" using e by simp
      then obtain k q' c t where "(k, q', c, t) \<in> R" "entry_of k = e" "unat tat \<le> unat t + bo_nat q'" "pruned \<le> tat"
        using assms(2) unfolding fallback_holds_def by metis
      then show ?thesis
        by (intro conjI exI [of _ k] exI [of _ q'] exI [of _ c] exI [of _ t] insertI2)
    qed
  qed
  moreover have "fallback_check b key q cost now = Done (Ok (Ok info), b\<lparr>fallback := ?m\<rparr>)"
    using Allowed(2) by (simp add: fallback_check_def)
  ultimately show thesis by (intro that)
next
  case (Denied limited)
  then have "fallback_check b key q cost now = Done (Ok (Err limited), b\<lparr>fallback := fallback b\<rparr>)"
    by (simp add: fallback_check_def)
  then show thesis using fallback_holds_mono [OF assms(2) subset_insertI] by (rule that)
qed

section \<open>The invariant of a run\<close>

text \<open>Between calls; an open breaker's probe time is at most one \<open>open_for\<close> after the last pruning.\<close>

definition breaker_fits :: "breaker_request set \<Rightarrow> nanos \<Rightarrow> 'p breaker \<Rightarrow> bool" where
  "breaker_fits R now b \<longleftrightarrow> breaker_idle b \<and> fallback_holds R (fallback b) (last_pruned b) \<and> last_pruned b \<le> now \<and>
     (\<forall>u. state b = Open u \<longrightarrow> unat u \<le> unat (last_pruned b) + unat (open_for (policy b)))"

text \<open>The fallback was pruned at most one \<open>open_for\<close> before \<open>now\<close>.\<close>

definition pruned_lately :: "nanos \<Rightarrow> 'p breaker \<Rightarrow> bool" where
  "pruned_lately now b \<longleftrightarrow> unat now \<le> unat (last_pruned b) + unat (open_for (policy b))"

lemma prune_if_due_effect:
  assumes "fallback_holds R (fallback b) (last_pruned b)" "last_pruned b \<le> now"
  defines "x \<equiv> prune_fallback_if_due b now"
  shows "fallback_holds R (fallback x) (last_pruned x)" "last_pruned x \<le> now" "pruned_lately now x"
    "last_pruned b \<le> last_pruned x"
proof -
  have "unat (open_for (policy b)) \<le> unat now - unat (last_pruned b) \<longleftrightarrow> open_for (policy b) \<le> saturating_sub now (last_pruned b)"
    by (simp add: word_le_nat_alt unat_saturating_sub)
  then show "fallback_holds R (fallback x) (last_pruned x)" "last_pruned x \<le> now" "pruned_lately now x"
    "last_pruned b \<le> last_pruned x"
    using assms(1,2) fallback_holds_retain [OF assms(1)]
    by (auto simp: x_def prune_fallback_if_due_def prune_exchange_def pruned_lately_def Let_def)
qed

lemma pruned_now:
  fixes now :: nanos
  assumes "fallback_holds R (fallback b) pruned"
  defines "x \<equiv> prune_fallback b now"
  shows "fallback_holds R (fallback x) (last_pruned x)" "last_pruned x = now" "pruned_lately now x"
  using fallback_holds_retain [OF assms(1)] by (simp_all add: x_def prune_fallback_def pruned_lately_def)

lemma emit_pruned [simp]: "pruned_lately now (emit b ev) = pruned_lately now b"
  by (simp add: pruned_lately_def)

text \<open>A call that ends with an answer of the fallback.\<close>

lemma fallback_answer_fits:
  assumes "fallback_check x key q cost now = Done (Ok d, b')" "breaker_idle b'" "limited_quota q"
    and "fallback_holds R (fallback x) (last_pruned x)" "last_pruned x \<le> now" "pruned_lately now x"
    and "\<And>u. state x = Open u \<Longrightarrow> unat u \<le> unat (last_pruned x) + unat (open_for (policy x))"
  shows "breaker_fits (insert (key, q, cost, now) R) now b' \<and> pruned_lately now b'"
proof -
  obtain d1 fb where "fallback_check x key q cost now = Done (Ok d1, x\<lparr>fallback := fb\<rparr>)"
    "fallback_holds (insert (key, q, cost, now) R) fb (last_pruned x)"
    by (rule fallback_holds_check [OF assms(3-5)])
  then show ?thesis using assms(1,2,5-7) by (auto simp: breaker_fits_def pruned_lately_def)
qed

lemma breaker_call_fits:
  assumes "breaker_fits R t0 b" "t0 \<le> now" "limited_quota q"
    and "primary_op (primary b) key q cost now = Done (r, p')"
  obtains d b' where "breaker_check_and_update primary_op b key q cost now = Done (Ok d, b')"
    and "breaker_fits (insert (key, q, cost, now) R) now b'" "policy b' = policy b"
    and "dom (mem_state (fallback b')) \<subseteq> dom (mem_state (fallback b)) \<or> pruned_lately now b'"
proof -
  have idle: "breaker_idle b" and holds: "fallback_holds R (fallback b) (last_pruned b)" and lp: "last_pruned b \<le> now"
    and probe: "\<And>u. state b = Open u \<Longrightarrow> unat u \<le> unat (last_pruned b) + unat (open_for (policy b))"
    using assms(1,2) by (auto simp: breaker_fits_def)
  have nh: "state b \<noteq> HalfOpen" using idle by (simp add: breaker_idle_def)
  obtain d b' where call: "breaker_check_and_update primary_op b key q cost now = Done (Ok d, b')"
    and b': "breaker_idle b'" "policy b' = policy b"
    using breaker_call_idle [where primary_op = primary_op, OF idle assms(3,4)] by blast
  note holds' = fallback_holds_mono [OF holds subset_insertI]
  note eqs = breaker_call_eqs [where primary_op = primary_op and b = b and key = key and q = q
      and cost = cost and now = now]
  have "breaker_fits (insert (key, q, cost, now) R) now b' \<and>
    (dom (mem_state (fallback b')) \<subseteq> dom (mem_state (fallback b)) \<or> pruned_lately now b')"
  proof (rule breaker_call_cases [where primary_op = primary_op, OF nh assms(4)])
    fix n e assume "state b = Closed n" "r = Ok e"
    then show ?thesis using eqs(1) assms(4) call b' holds' lp by (auto simp: breaker_fits_def)
  next
    fix n e assume c: "state b = Closed n" "r = Err e"
    define st where "st = after_call (Closed n) Primary Failure now (policy b)"
    define b1 where "b1 = emit (b\<lparr>primary := p', state := st\<rparr>) (PrimaryFailed e)"
    define x where "x = (if is_open (state b1) then emit (prune_fallback b1 now) (Opened e) else prune_fallback_if_due b1 now)"
    have b1: "fallback_holds R (fallback b1) (last_pruned b1)" "last_pruned b1 \<le> now" "policy b1 = policy b" "state b1 = st"
      using holds lp by (simp_all add: b1_def)
    have x: "fallback_check x key q cost now = Done (Ok d, b')"
      using eqs(2) [OF c(1)] assms(4) c(2) call by (simp add: b1_def x_def st_def Let_def)
    have "fallback_holds R (fallback x) (last_pruned x)" "last_pruned x \<le> now" "pruned_lately now x"
      using pruned_now [OF b1(1), of now] prune_if_due_effect [OF b1(1,2)] by (simp_all add: x_def)
    moreover have "unat u \<le> unat (last_pruned x) + unat (open_for (policy x))" if "state x = Open u" for u
    proof -
      have "st = Open u" using that b1(4) by (simp add: x_def split: if_splits)
      then have "u = saturating_add now (open_for (policy b))" by (auto simp: st_def Let_def split: if_splits)
      moreover have "last_pruned x = now" "policy x = policy b"
        using \<open>st = Open u\<close> b1(3,4) pruned_now [OF b1(1), of now] by (simp_all add: x_def)
      ultimately show ?thesis by (simp add: unat_saturating_add)
    qed
    ultimately show ?thesis using fallback_answer_fits [OF x b'(1) assms(3)] by blast
  next
    fix u assume c: "state b = Open u" "now < u"
    have "unat now < unat u" using c(2) by (simp add: word_less_nat_alt)
    then have "pruned_lately now b" using probe [OF c(1)] by (simp add: pruned_lately_def)
    then show ?thesis using fallback_answer_fits [OF _ b'(1) assms(3) holds lp _ probe] call eqs(3) [OF c] by simp
  next
    fix u e assume "state b = Open u" "u \<le> now" "r = Ok e"
    then show ?thesis
      using eqs(4) assms(4) call b' fallback_holds_clear by (auto simp: breaker_fits_def memory_clear_def prune_fallback_def)
  next
    fix u e assume c: "state b = Open u" "u \<le> now" "r = Err e"
    define b1 where "b1 = emit ((prune_fallback b now)\<lparr>primary := p',
        state := Open (saturating_add now (open_for (policy b)))\<rparr>) (PrimaryFailed e)"
    define x where "x = prune_fallback_if_due b1 now"
    have b1: "fallback_holds R (fallback b1) (last_pruned b1)" "last_pruned b1 = now"
      using pruned_now [OF holds, of now] by (simp_all add: b1_def)
    have x: "fallback_check x key q cost now = Done (Ok d, b')"
      using eqs(5) [OF c(1,2)] assms(4) c(3) call by (simp add: b1_def x_def)
    have eff: "fallback_holds R (fallback x) (last_pruned x)" "last_pruned x = now" "pruned_lately now x"
      using prune_if_due_effect [OF b1(1), of now] b1(2) by (simp_all add: x_def)
    have "unat u \<le> unat (last_pruned x) + unat (open_for (policy x))" if "state x = Open u" for u
      using that eff(2) by (auto simp: x_def b1_def unat_saturating_add)
    then show ?thesis using fallback_answer_fits [OF x b'(1) assms(3) eff(1) _ eff(3)] eff(2) by simp
  qed
  then show thesis using that call b'(2) by blast
qed

lemma breaker_fits_later: "breaker_fits R now b \<Longrightarrow> now \<le> now' \<Longrightarrow> breaker_fits R now' b"
  by (auto simp: breaker_fits_def)

lemma breaker_run_fits:
  assumes "primary_returns primary_op" "breaker_fits R t0 b" "\<forall>(key, q, cost, t) \<in> set rs. limited_quota q"
    and "sorted (t0 # map (\<lambda>(_, _, _, t). t) rs)" "\<forall>(key, q, cost, t) \<in> set rs. t \<le> t1" "t0 \<le> t1"
  shows "\<exists>outs b'. storage_calls (breaker_check_and_update primary_op) b rs = Done (outs, b') \<and>
    breaker_fits (R \<union> set rs) t1 b' \<and> policy b' = policy b"
  using assms(2-6)
proof (induction rs arbitrary: b R t0)
  case Nil
  then show ?case by (auto intro: breaker_fits_later)
next
  case (Cons r rs)
  obtain key q cost now where r: "r = (key, q, cost, now)" by (cases r)
  have lq: "limited_quota q" and le: "t0 \<le> now" "now \<le> t1" using Cons.prems(2,3,4) r by auto
  obtain res p' where "primary_op (primary b) key q cost now = Done (res, p')"
    using assms(1) lq by (fastforce simp: primary_returns_def returns_iff)
  from breaker_call_fits [where primary_op = primary_op, OF Cons.prems(1) le(1) lq this]
  obtain d b1 where b1: "breaker_check_and_update primary_op b key q cost now = Done (Ok d, b1)"
    "breaker_fits (insert (key, q, cost, now) R) now b1" "policy b1 = policy b" by metis
  obtain outs b' where "storage_calls (breaker_check_and_update primary_op) b1 rs = Done (outs, b')"
    "breaker_fits (insert (key, q, cost, now) R \<union> set rs) t1 b'" "policy b' = policy b1"
    using Cons.IH [OF b1(2)] Cons.prems(2-4) le r by auto
  then show ?case using b1 by (simp add: r)
qed

section \<open>The bound\<close>

text \<open>The users and tiers with a request whose burst, plus \<open>span\<close>, reaches \<open>now\<close>.\<close>

definition recent_keys :: "breaker_request list \<Rightarrow> nanos \<Rightarrow> nat \<Rightarrow> storage_key set" where
  "recent_keys rs now span =
     fst ` {r \<in> set rs. case r of (key, q, cost, t) \<Rightarrow> unat now \<le> unat t + bo_nat q + span}"

lemma fallback_holds_recent:
  assumes "fallback_holds (set rs) m pruned" "unat now \<le> unat pruned + span"
  shows "memory_len m \<le> card (recent_keys rs now span)"
proof -
  have "e \<in> entry_of ` recent_keys rs now span" if "mem_state m e = Some tat" for e tat
  proof -
    obtain key q cost t where k: "pruned \<le> tat" "(key, q, cost, t) \<in> set rs" "entry_of key = e"
      "unat tat \<le> unat t + bo_nat q"
      using assms(1) \<open>mem_state m e = Some tat\<close> unfolding fallback_holds_def by metis
    have "unat pruned \<le> unat tat" using k(1) by (simp only: word_le_nat_alt)
    then have "unat now \<le> unat t + bo_nat q + span" using assms(2) k(4) by linarith
    then have "key \<in> recent_keys rs now span" using k(2) by (force simp: recent_keys_def)
    then show ?thesis using k(3) by blast
  qed
  then have "dom (mem_state m) \<subseteq> entry_of ` recent_keys rs now span" by auto
  moreover have fin: "finite (recent_keys rs now span)" by (simp add: recent_keys_def)
  ultimately have "memory_len m \<le> card (entry_of ` recent_keys rs now span)"
    unfolding memory_len_def by (intro card_mono finite_imageI)
  then show ?thesis using card_image_le [OF fin, of entry_of] by linarith
qed

text \<open>C17: the fallback of a circuit breaker does not grow with the users that have come and gone. Take any sequence of
  requests in time order on a breaker with an empty fallback, and any primary storage that returns, failing now and
  then or for long. Every call is answered, and it leaves the fallback no larger than it was, or with at most
  one entry per user and tier that made a request in the last \<open>open_for\<close> plus one burst.\<close>

theorem fallback_memory_bounded:
  assumes "primary_returns primary_op" "breaker_idle b0" "state b0 = Closed n" "fallback b0 = memory_new" "last_pruned b0 = 0"
    and "\<forall>(key, q, cost, t) \<in> set (rs @ [(key, q, cost, now)]). limited_quota q"
    and "sorted (map (\<lambda>(_, _, _, t). t) (rs @ [(key, q, cost, now)]))"
  shows "\<exists>outs b d b'. storage_calls (breaker_check_and_update primary_op) b0 rs = Done (outs, b) \<and>
    breaker_check_and_update primary_op b key q cost now = Done (Ok d, b') \<and>
    memory_len (fallback b') \<le>
      max (memory_len (fallback b)) (card (recent_keys (rs @ [(key, q, cost, now)]) now (unat (open_for (policy b0)))))"
proof -
  have "breaker_fits {} 0 b0" using assms(2-5) by (simp add: breaker_fits_def fallback_holds_empty)
  moreover have "\<forall>(key, q, cost, t) \<in> set rs. t \<le> now" using assms(7) by (fastforce simp: sorted_append)
  ultimately obtain outs b where run: "storage_calls (breaker_check_and_update primary_op) b0 rs = Done (outs, b)"
    "breaker_fits (set rs) now b" "policy b = policy b0"
    using breaker_run_fits [OF assms(1), of "{}" 0 b0 rs now] assms(6,7) by (auto simp: sorted_append)
  have lq: "limited_quota q" using assms(6) by simp
  obtain res p' where "primary_op (primary b) key q cost now = Done (res, p')"
    using assms(1) lq by (fastforce simp: primary_returns_def returns_iff)
  from breaker_call_fits [where primary_op = primary_op, OF run(2) order_refl lq this]
  obtain d b' where b': "breaker_check_and_update primary_op b key q cost now = Done (Ok d, b')"
    "breaker_fits (insert (key, q, cost, now) (set rs)) now b'" "policy b' = policy b"
    "dom (mem_state (fallback b')) \<subseteq> dom (mem_state (fallback b)) \<or> pruned_lately now b'" by metis
  have "finite (dom (mem_state (fallback b)))"
    using run(2) fallback_holds_finite by (fastforce simp: breaker_fits_def)
  then have "memory_len (fallback b') \<le> memory_len (fallback b)" if "dom (mem_state (fallback b')) \<subseteq> dom (mem_state (fallback b))"
    unfolding memory_len_def using that by (rule card_mono)
  moreover have "memory_len (fallback b') \<le> card (recent_keys (rs @ [(key, q, cost, now)]) now (unat (open_for (policy b0))))"
    if "pruned_lately now b'"
    using fallback_holds_recent [of "rs @ [(key, q, cost, now)]" "fallback b'" "last_pruned b'"] that b'(2,3) run(3)
    by (simp add: breaker_fits_def pruned_lately_def)
  ultimately show ?thesis using run(1) b'(1,4) by fastforce
qed

text \<open>A user who made one request during an outage, and another one more than three minutes later.\<close>

definition gone_request :: breaker_request where
  "gone_request = (storage_key_new (lit ''alice'') (lit ''free''), three_per_minute, 1, 0)"

theorem fallback_memory_bounded_witness:
  "\<exists>outs b d b'. storage_calls (breaker_check_and_update failing_primary) (breaker_new 0 memory_new) [gone_request] = Done (outs, b) \<and>
    breaker_check_and_update failing_primary b demo_key three_per_minute 1 200000000000 = Done (Ok d, b') \<and>
    memory_len (fallback b') \<le> max (memory_len (fallback b)) 1"
proof -
  have open_for: "unat (open_for (policy (breaker_new (0 :: nat) memory_new))) = 5000000000"
    by (simp add: breaker_new_def duration_nanos_def DEFAULT_OPEN_FOR_def unat_max_word)
  have "recent_keys [gone_request, (demo_key, three_per_minute, 1, 200000000000)] 200000000000 5000000000 \<subseteq> {demo_key}"
    by (auto simp: recent_keys_def gone_request_def three_per_minute_nat)
  from card_mono [OF _ this]
  have "card (recent_keys [gone_request, (demo_key, three_per_minute, 1, 200000000000)] 200000000000 5000000000) \<le> 1" by simp
  note one_user = this
  obtain outs b d b' where run:
      "storage_calls (breaker_check_and_update failing_primary) (breaker_new 0 memory_new) [gone_request] = Done (outs, b)"
      "breaker_check_and_update failing_primary b demo_key three_per_minute 1 200000000000 = Done (Ok d, b')"
      "memory_len (fallback b') \<le> max (memory_len (fallback b))
        (card (recent_keys ([gone_request] @ [(demo_key, three_per_minute, 1, 200000000000)]) 200000000000
          (unat (open_for (policy (breaker_new (0 :: nat) memory_new))))))"
  proof -
    have parts: "state (breaker_new (0 :: nat) memory_new) = Closed 0" "fallback (breaker_new (0 :: nat) memory_new) = memory_new"
      "last_pruned (breaker_new (0 :: nat) memory_new) = 0" by (simp_all add: breaker_new_def)
    have reqs: "\<forall>(key, q, cost, t) \<in> set ([gone_request] @ [(demo_key, three_per_minute, 1, 200000000000)]). limited_quota q"
      "sorted (map (\<lambda>(_, _, _, t). t) ([gone_request] @ [(demo_key, three_per_minute, 1, 200000000000)]))"
      by (simp_all add: gone_request_def three_per_minute_limited)
    show thesis
      using fallback_memory_bounded [OF failing_primary_returns breaker_new_idle parts reqs] that by blast
  qed
  have "memory_len (fallback b') \<le> max (memory_len (fallback b)) 1"
    using run(3) one_user unfolding open_for append_Cons append_Nil by linarith
  with run(1,2) show ?thesis by (intro exI conjI)
qed

end
