(* ===== verification/Breaker_Outage.thy ===== *)
theory Breaker_Outage
  imports Circuit_Breaker
begin

text \<open>
  The circuit breaker during an outage of its primary storage: while the primary fails, the breaker
  with its fallback is a store of its own, the interpretation \<open>outage\<close> of \<open>gcra_store\<close>. Whatever
  state changes, probes and prunings happen on the way, the local limits hold as those of
  \<open>MemoryStorage\<close> do.
\<close>

section \<open>A call while the primary fails\<close>

lemma retain_active_idem [simp]:
  "memory_retain_active (memory_retain_active m now) now = memory_retain_active m now"
  by (simp add: memory_retain_active_def fun_eq_iff split: option.split)

lemma prune_if_due_fallback:
  "fallback (prune_fallback_if_due b now) = fallback b \<or>
   fallback (prune_fallback_if_due b now) = memory_retain_active (fallback b) now"
  by (simp add: prune_fallback_if_due_def prune_exchange_def Let_def)

text \<open>The call is a check of the fallback, which may have been pruned first.\<close>

lemma outage_call:
  assumes "always_fails primary_op" "state b \<noteq> HalfOpen"
  obtains b1 where "breaker_check_and_update primary_op b key q cost now = fallback_check b1 key q cost now"
    "fallback b1 = fallback b \<or> fallback b1 = memory_retain_active (fallback b) now"
proof -
  obtain e p' where pr: "primary_op (primary b) key q cost now = Done (Err e, p')"
    using assms(1) unfolding always_fails_def by blast
  note eqs = breaker_call_eqs [where primary_op = primary_op and b = b and key = key and q = q
      and cost = cost and now = now]
  show thesis
  proof (rule breaker_call_cases [where primary_op = primary_op, OF assms(2) pr])
    fix n e' assume c: "state b = Closed n" "Err e = Err e'"
    let ?b = "emit (b\<lparr>primary := p', state := after_call (Closed n) Primary Failure now (policy b)\<rparr>) (PrimaryFailed e)"
    let ?b1 = "if is_open (state ?b) then emit (prune_fallback ?b now) (Opened e) else prune_fallback_if_due ?b now"
    have "fallback ?b1 = fallback b \<or> fallback ?b1 = memory_retain_active (fallback b) now"
      using prune_if_due_fallback [of ?b now] by (simp add: prune_fallback_def)
    then show thesis using that [of ?b1] eqs(2) [OF c(1) pr] by (simp only: Let_def)
  next
    fix u assume "state b = Open u" "now < u"
    then show thesis using that [of b] eqs(3) by simp
  next
    fix u e' assume c: "state b = Open u" "u \<le> now" "Err e = Err e'"
    let ?b = "emit ((prune_fallback b now)
        \<lparr>primary := p', state := Open (saturating_add now (open_for (policy b)))\<rparr>) (PrimaryFailed e)"
    have "fallback (prune_fallback_if_due ?b now) = memory_retain_active (fallback b) now"
      using prune_if_due_fallback [of ?b now] by (simp add: prune_fallback_def)
    then show thesis using that [of "prune_fallback_if_due ?b now"] eqs(5) [OF c(1,2) pr] by simp
  qed simp_all
qed

section \<open>The breaker as a store\<close>

definition outage_step ::
  "'p storage_op \<Rightarrow> (storage_key \<Rightarrow> quota) \<Rightarrow> 'p breaker \<Rightarrow> storage_key \<Rightarrow> nat \<Rightarrow> nat \<Rightarrow> bool \<times> 'p breaker" where
  "outage_step primary_op Q b key c t =
     (case breaker_check_and_update primary_op b key (Q key) (of_nat c) (of_nat t) of
        Done (Ok (Ok _), b') \<Rightarrow> (True, b')
      | Done (_, b') \<Rightarrow> (False, b')
      | Panic _ \<Rightarrow> (False, b))"

definition outage_tat :: "'p breaker \<Rightarrow> storage_key \<Rightarrow> nat" where
  "outage_tat b key = mem_tat (fallback b) key"

definition outage_valid :: "'p storage_op \<Rightarrow> (storage_key \<Rightarrow> quota) \<Rightarrow> storage_key \<Rightarrow> nat \<Rightarrow> nat \<Rightarrow> bool" where
  "outage_valid primary_op Q key c t \<longleftrightarrow> always_fails primary_op \<and> mem_valid Q key c t"

text \<open>A step of the breaker is a step of its fallback, at the same levels.\<close>

lemma outage_step_memory:
  assumes "outage_valid primary_op Q key c t" "breaker_idle b"
  obtains m b' where "outage_step primary_op Q b key c t = (fst (mem_step Q m key c t), b')"
    "fallback b' = snd (mem_step Q m key c t)" "breaker_idle b'"
    "\<And>k. max (mem_tat m k) t = max (outage_tat b k) t"
proof -
  have fails: "always_fails primary_op" and v: "mem_valid Q key c t"
    using assms(1) by (simp_all add: outage_valid_def)
  have lq: "limited_quota (Q key)" using v by (simp add: mem_valid_def)
  have idle: "state b \<noteq> HalfOpen" using assms(2) by (simp add: breaker_idle_def)
  obtain b1 where b1: "breaker_check_and_update primary_op b key (Q key) (of_nat c) (of_nat t)
      = fallback_check b1 key (Q key) (of_nat c) (of_nat t)"
    "fallback b1 = fallback b \<or> fallback b1 = memory_retain_active (fallback b) (of_nat t)"
    using outage_call [OF fails idle, of key "Q key" "of_nat c" "of_nat t"] by blast
  obtain e p' where pr: "primary_op (primary b) key (Q key) (of_nat c) (of_nat t) = Done (Err e, p')"
    using fails unfolding always_fails_def by blast
  obtain d fb where fb: "fallback_check b1 key (Q key) (of_nat c) (of_nat t) = Done (Ok d, b1\<lparr>fallback := fb\<rparr>)"
    "memory_check_and_update (fallback b1) key (Q key) (of_nat c) (of_nat t) = Done (Ok d, fb)"
    using fallback_check_total [OF lq] by metis
  have "breaker_idle (b1\<lparr>fallback := fb\<rparr>)"
    using breaker_call_idle [where primary_op = primary_op, OF assms(2) lq pr] b1(1) fb(1) by auto
  moreover have "max (mem_tat (fallback b1) k) t = max (outage_tat b k) t" for k
    using b1(2) mem_tick_level [of "fallback b" t k] by (auto simp: outage_tat_def mem_tick_def gc_tick_def)
  ultimately show thesis
    using that [of "fallback b1" "b1\<lparr>fallback := fb\<rparr>"] b1(1) fb
    by (auto simp: outage_step_def mem_step_def split: result.split)
qed

interpretation outage: gcra_store "outage_step primary_op Q" "\<lambda>b _. b" outage_tat
  "\<lambda>k. ei_nat (Q k)" "\<lambda>k. bo_nat (Q k)" "outage_valid primary_op Q" breaker_idle
  for primary_op :: "'p storage_op" and Q
proof -
  have level: "max x t = max y t \<Longrightarrow> gcra_conforms e bo x t c = gcra_conforms e bo y t c \<and>
      gcra_next e x t c = gcra_next e y t c \<and> (x \<le> t + bo \<longleftrightarrow> y \<le> t + bo)" for x y t e bo c :: nat
    by (auto simp: gcra_conforms_def gcra_next_def)
  have v: "outage_valid primary_op Q k c t \<Longrightarrow> mem_valid Q k c t" for k c t
    by (simp add: outage_valid_def)
  show "gcra_store (outage_step primary_op Q) (\<lambda>b _. b) outage_tat (\<lambda>k. ei_nat (Q k)) (\<lambda>k. bo_nat (Q k))
      (outage_valid primary_op Q) breaker_idle"
  proof (unfold_locales, goal_cases)
    case (1 b key c t)
    from 1(2,1) show ?case
    proof (cases rule: outage_step_memory)
      case step: (1 m b')
      then show ?thesis
        using mem.decides [OF TrueI v [OF 1(2)], of m] level [OF step(4) [of key]] 1(3) by simp
    qed
  next
    case (2 b key c t)
    from 2(2,1) show ?case
    proof (cases rule: outage_step_memory)
      case step: (1 m b')
      then show ?thesis
        using mem.advances [OF TrueI v [OF 2(2)], of m] level [OF step(4) [of key]] 2(3,4)
        by (simp add: outage_tat_def)
    qed
  next
    case (3 b key c t)
    from 3(2,1) show ?case
    proof (cases rule: outage_step_memory)
      case step: (1 m b')
      then show ?thesis
        using mem.keeps [OF TrueI v [OF 3(2)], of m] level [OF step(4) [of key]] 3(3,4)
        by (simp add: outage_tat_def)
    qed
  next
    case (4 b key c t k)
    from 4(2,1) show ?case
    proof (cases rule: outage_step_memory)
      case step: (1 m b')
      then show ?thesis
        using mem.isolates [OF TrueI v [OF 4(2)] 4(3), of m] by (simp add: outage_tat_def)
    qed
  next
    case (6 b key c t)
    from 6(2,1) show ?case by (cases rule: outage_step_memory) simp
  qed simp_all
qed

section \<open>Properties\<close>

text \<open>An outage never removes the limit of an instance. Take a new breaker whose primary fails every call
  and any sequence of requests at non-decreasing times, through the failures that are only counted, the
  opening, the open periods, the failed probes and the prunings in between. For every key and every
  segment of its consecutive requests, the emission interval times the admitted cost is at most the
  time the segment spans plus one burst.\<close>

theorem outage_rate_guarantee:
  fixes primary_op :: "'p storage_op"
  assumes "always_fails primary_op" "sorted (map event_time es)"
    and "\<forall>k c t. Request k c t \<in> set es \<longrightarrow> mem_valid Q k c t"
    and "store_run (outage_step primary_op Q) (\<lambda>b _. b) (breaker_new p memory_new) es = trace"
    and "0 < n" "i + n \<le> length (requests_of key trace)"
  shows "ei_nat (Q key) * admitted_cost (take n (drop i (requests_of key trace)))
      (take n (drop i (decisions_of key trace)))
    \<le> snd (requests_of key trace ! (i + n - 1)) - snd (requests_of key trace ! i) + bo_nat (Q key)"
proof -
  have "outage.proper TYPE('p) primary_op Q es"
    using assms(1-3) by (simp add: outage.proper_def outage_valid_def)
  moreover have "outage_tat (breaker_new p memory_new) key = 0"
    by (simp add: outage_tat_def breaker_new_def)
  ultimately show ?thesis
    using outage.window_bound [of primary_op Q es "breaker_new p memory_new" key n i]
      breaker_new_idle [of p memory_new] assms(4-6) by simp
qed

text \<open>Three failures open the breaker, and the fourth request is served by the fallback alone.\<close>

definition outage_events :: "storage_key store_event list" where
  "outage_events = [Request demo_key 1 5, Request demo_key 1 5, Request demo_key 1 6, Request demo_key 1 7]"

lemma outage_events_ok:
  "sorted (map event_time outage_events)"
  "\<forall>k c t. Request k c t \<in> set outage_events \<longrightarrow> mem_valid (\<lambda>_. three_per_minute) k c t"
  by (auto simp: outage_events_def mem_valid_def three_per_minute_limited three_per_minute_nat)

lemma outage_decisions:
  "decisions_of demo_key (store_run (outage_step failing_primary (\<lambda>_. three_per_minute)) (\<lambda>b _. b)
     (breaker_new 0 memory_new) outage_events) = [True, True, True, False]"
proof -
  have "outage.proper TYPE(nat) failing_primary (\<lambda>_. three_per_minute) outage_events"
    using outage_events_ok failing_primary_fails by (simp add: outage.proper_def outage_valid_def)
  then show ?thesis
    using outage.run_refines [of failing_primary "\<lambda>_. three_per_minute" outage_events
        "breaker_new 0 memory_new" demo_key] breaker_new_idle [of 0 memory_new]
    by (simp add: requests_of_run three_per_minute_nat outage_tat_def breaker_new_def)
      (simp add: outage_events_def gcra_conforms_def gcra_next_def)
qed

theorem outage_rate_guarantee_witness:
  "decisions_of demo_key (store_run (outage_step failing_primary (\<lambda>_. three_per_minute)) (\<lambda>b _. b)
     (breaker_new 0 memory_new) outage_events) = [True, True, True, False] \<and>
   20000000000 * admitted_cost (event_requests demo_key outage_events) [True, True, True, False]
     \<le> 7 - 5 + 60000000000"
  using outage_rate_guarantee [where n = 4 and i = 0 and p = 0 and key = demo_key,
      OF failing_primary_fails outage_events_ok refl]
  unfolding requests_of_run outage_decisions three_per_minute_nat by (simp add: outage_events_def)

end
