(* ===== verification/Breaker_Recovery.thy ===== *)
theory Breaker_Recovery
  imports Breaker_Outage
begin

text \<open>
  The circuit breaker (\<open>storage/breaker.rs\<close>) while its primary fails and comes back any number of times.
  A call is answered by the primary, by the fallback, or it is the probe that closes the breaker and
  discards the local counts. So an outage may allow one more burst per recovery, and no more:
  the requests the fallback allows in a span of time fit into the span and one burst for each
  recovery in it, plus one.
\<close>

section \<open>Who answers a call\<close>

datatype answer_source = ByPrimary | ByFallback | ByClosingProbe

definition answered_by ::
  "'p storage_op \<Rightarrow> 'p breaker \<Rightarrow> storage_key \<Rightarrow> quota \<Rightarrow> u32 \<Rightarrow> nanos \<Rightarrow> answer_source" where
  "answered_by primary_op b key q cost now =
     (case admit b now of
        (None, _) \<Rightarrow> ByFallback
      | (Some route, b1) \<Rightarrow>
          (case primary_op (primary b1) key q cost now of
             Done (Ok _, _) \<Rightarrow> if route = Probe then ByClosingProbe else ByPrimary
           | _ \<Rightarrow> ByFallback))"

text \<open>One call from an idle breaker, by who answers it.\<close>

lemma call_by_source:
  assumes "breaker_idle b" "limited_quota q" "primary_returns primary_op"
  obtains (Primary) r b' where "answered_by primary_op b key q cost now = ByPrimary"
      "breaker_check_and_update primary_op b key q cost now = Done (r, b')" "breaker_idle b'" "fallback b' = fallback b"
  | (Recovered) r b' where "answered_by primary_op b key q cost now = ByClosingProbe"
      "breaker_check_and_update primary_op b key q cost now = Done (r, b')" "breaker_idle b'"
      "mem_state (fallback b') = Map.empty"
  | (Local) d b' m where "answered_by primary_op b key q cost now = ByFallback"
      "breaker_check_and_update primary_op b key q cost now = Done (Ok d, b')" "breaker_idle b'"
      "m = fallback b \<or> m = memory_retain_active (fallback b) now"
      "memory_check_and_update m key q cost now = Done (Ok d, fallback b')"
proof -
  have idle: "state b \<noteq> HalfOpen" using assms(1) by (simp add: breaker_idle_def)
  obtain r p' where pr: "primary_op (primary b) key q cost now = Done (r, p')"
    using assms(2,3) by (fastforce simp: primary_returns_def returns_iff)
  obtain d b' where call: "breaker_check_and_update primary_op b key q cost now = Done (Ok d, b')" "breaker_idle b'"
    using breaker_call_idle [where primary_op = primary_op, OF assms(1,2) pr] by blast
  have by_fallback: thesis
    if src: "answered_by primary_op b key q cost now = ByFallback"
      and eq: "breaker_check_and_update primary_op b key q cost now = fallback_check x key q cost now"
      and fb: "fallback x = fallback b \<or> fallback x = memory_retain_active (fallback b) now" for x
  proof -
    obtain d2 fb where "fallback_check x key q cost now = Done (Ok d2, x\<lparr>fallback := fb\<rparr>)"
      "memory_check_and_update (fallback x) key q cost now = Done (Ok d2, fb)"
      using fallback_check_total [OF assms(2)] by metis
    then show thesis using Local [OF src _ _ fb] call eq by auto
  qed
  note eqs = breaker_call_eqs [where primary_op = primary_op and b = b and key = key and q = q
      and cost = cost and now = now]
  show thesis
  proof (rule breaker_call_cases [where primary_op = primary_op, OF idle pr])
    fix n d assume c: "state b = Closed n" "r = Ok d"
    then have "answered_by primary_op b key q cost now = ByPrimary"
      using pr by (simp add: answered_by_def admit_def)
    then show thesis using Primary call eqs(1) [OF c(1)] pr c(2) by auto
  next
    fix n e assume c: "state b = Closed n" "r = Err e"
    let ?b = "emit (b\<lparr>primary := p', state := after_call (Closed n) Primary Failure now (policy b)\<rparr>) (PrimaryFailed e)"
    let ?x = "if is_open (state ?b) then emit (prune_fallback ?b now) (Opened e) else prune_fallback_if_due ?b now"
    have "answered_by primary_op b key q cost now = ByFallback"
      using c pr by (simp add: answered_by_def admit_def)
    moreover have "fallback ?x = fallback b \<or> fallback ?x = memory_retain_active (fallback b) now"
      using prune_if_due_fallback [of ?b now] by (simp add: prune_fallback_def)
    ultimately show thesis using by_fallback [of ?x] eqs(2) [OF c(1), of e p'] pr c(2) by (simp only: Let_def)
  next
    fix u assume c: "state b = Open u" "now < u"
    then have "answered_by primary_op b key q cost now = ByFallback"
      by (simp add: answered_by_def admit_def flip: not_le)
    then show thesis using by_fallback [of b] eqs(3) [OF c] by simp
  next
    fix u d assume c: "state b = Open u" "u \<le> now" "r = Ok d"
    then have "answered_by primary_op b key q cost now = ByClosingProbe"
      using pr by (simp add: answered_by_def admit_def)
    then show thesis using Recovered call eqs(4) [OF c(1,2)] pr c(3) by (auto simp: memory_clear_def)
  next
    fix u e assume c: "state b = Open u" "u \<le> now" "r = Err e"
    let ?b = "emit ((prune_fallback b now)
        \<lparr>primary := p', state := Open (saturating_add now (open_for (policy b)))\<rparr>) (PrimaryFailed e)"
    have "answered_by primary_op b key q cost now = ByFallback"
      using c pr by (simp add: answered_by_def admit_def)
    moreover have "fallback (prune_fallback_if_due ?b now) = memory_retain_active (fallback b) now"
      using prune_if_due_fallback [of ?b now] by (simp add: prune_fallback_def)
    ultimately show thesis using by_fallback [of "prune_fallback_if_due ?b now"] eqs(5) [OF c(1,2), of e p'] pr c(3) by simp
  qed
qed

section \<open>Runs with recoveries\<close>

type_synonym flap_entry = "storage_key \<times> cell_request \<times> answer_source \<times> storage_outcome"

fun flap_run ::
  "'p storage_op \<Rightarrow> (storage_key \<Rightarrow> quota) \<Rightarrow> 'p breaker \<Rightarrow> (storage_key \<times> cell_request) list \<Rightarrow> flap_entry list exec" where
  "flap_run primary_op Q b [] = Done []"
| "flap_run primary_op Q b ((key, c, t) # rs) =
     bind_exec (breaker_check_and_update primary_op b key (Q key) (of_nat c) (of_nat t)) (\<lambda>(out, b').
     map_exec (\<lambda>outs. (key, (c, t), answered_by primary_op b key (Q key) (of_nat c) (of_nat t), out) # outs)
       (flap_run primary_op Q b' rs))"

text \<open>The cost the fallback allowed for a key in a span of time, and the recoveries in the span.\<close>

definition locally_allowed :: "storage_key \<Rightarrow> nat \<Rightarrow> nat \<Rightarrow> flap_entry list \<Rightarrow> nat" where
  "locally_allowed key lo hi outs =
     (\<Sum>(k, (c, t), src, out) \<leftarrow> outs.
        if k = key \<and> src = ByFallback \<and> reported_allowed out \<and> lo \<le> t \<and> t \<le> hi then c else 0)"

definition recoveries :: "nat \<Rightarrow> nat \<Rightarrow> flap_entry list \<Rightarrow> nat" where
  "recoveries lo hi outs =
     (\<Sum>(k, (c, t), src, out) \<leftarrow> outs. if src = ByClosingProbe \<and> lo \<le> t \<and> t \<le> hi then 1 else 0)"

lemma flap_sums [simp]:
  "locally_allowed key lo hi [] = 0" "recoveries lo hi [] = 0"
  "locally_allowed key lo hi ((k, (c, t), src, out) # outs) =
     (if k = key \<and> src = ByFallback \<and> reported_allowed out \<and> lo \<le> t \<and> t \<le> hi then c else 0)
       + locally_allowed key lo hi outs"
  "recoveries lo hi ((k, (c, t), src, out) # outs) =
     (if src = ByClosingProbe \<and> lo \<le> t \<and> t \<le> hi then 1 else 0) + recoveries lo hi outs"
  by (simp_all add: locally_allowed_def recoveries_def)

definition valid_requests :: "(storage_key \<Rightarrow> quota) \<Rightarrow> (storage_key \<times> cell_request) list \<Rightarrow> bool" where
  "valid_requests Q rs \<longleftrightarrow> sorted (map (\<lambda>(k, c, t). t) rs) \<and> list_all (\<lambda>(k, c, t). mem_valid Q k c t) rs"

section \<open>The level of a key in the fallback\<close>

text \<open>The fallback's arrival time for a key, over one call.\<close>

lemma call_level:
  fixes K :: storage_key
  assumes "breaker_idle b" "mem_valid Q key c t" "primary_returns primary_op"
    and "mem_tat (fallback b) K \<le> t + bo_nat (Q K)"
  defines "src \<equiv> answered_by primary_op b key (Q key) (of_nat c) (of_nat t)"
  obtains out b' where
    "breaker_check_and_update primary_op b key (Q key) (of_nat c) (of_nat t) = Done (out, b')" "breaker_idle b'"
    "mem_tat (fallback b') K \<le> t + bo_nat (Q K)"
    "src = ByClosingProbe \<or> max (mem_tat (fallback b') K) t = max (mem_tat (fallback b) K) t +
       ei_nat (Q K) * (if key = K \<and> src = ByFallback \<and> reported_allowed out then c else 0)"
proof -
  let ?L = "mem_tat (fallback b) K" and ?e = "ei_nat (Q K)" and ?bo = "bo_nat (Q K)"
  have lq: "limited_quota (Q key)" using assms(2) by (simp add: mem_valid_def)
  from assms(1) lq assms(3) show thesis
  proof (cases rule: call_by_source [where key = key and cost = "of_nat c" and now = "of_nat t"])
    case (Primary r b')
    then show thesis using that assms(4) by (simp add: src_def)
  next
    case (Recovered r b')
    then show thesis using that by (simp add: src_def mem_tat_def)
  next
    case (Local d b' m)
    have step: "mem_step Q m key c t = (reported_allowed (Ok d), fallback b')"
      using Local(5) by (cases d) (simp_all add: mem_step_def)
    have same: "max (mem_tat m K) t = max ?L t"
      using Local(4) mem_tick_level [of "fallback b" t K] by (auto simp: mem_tick_def gc_tick_def)
    then have le: "mem_tat m K \<le> t + ?bo" using assms(4) by linarith
    have src: "src = ByFallback" using Local(1) by (simp add: src_def)
    have "max (mem_tat (fallback b') K) t = max ?L t + ?e * (if key = K \<and> reported_allowed (Ok d) then c else 0)
        \<and> mem_tat (fallback b') K \<le> t + ?bo"
    proof (cases "key = K \<and> reported_allowed (Ok d)")
      case True
      then have v: "mem_valid Q K c t" using assms(2) by simp
      have "gcra_conforms ?e ?bo (mem_tat m K) t c" "max (mem_tat (fallback b') K) t = gcra_next ?e (mem_tat m K) t c"
        using mem.decides [OF TrueI v le] mem.advances [OF TrueI v le] step True by simp_all
      then show ?thesis using True same by (auto simp: gcra_conforms_def gcra_next_def)
    next
      case False
      then have "max (mem_tat (fallback b') K) t = max (mem_tat m K) t"
        using mem.keeps [OF TrueI, of Q K c t m] mem.isolates [OF TrueI assms(2), of K m] assms(2) le step
        by (cases "key = K") auto
      then show ?thesis using False same assms(4) by auto
    qed
    then show thesis using that Local(2,3) src by simp
  qed
qed

section \<open>The bound\<close>

lemma valid_requests_Cons:
  "valid_requests Q ((key, c, t) # rs) \<longleftrightarrow>
     mem_valid Q key c t \<and> valid_requests Q rs \<and> list_all (\<lambda>(k, c', t'). t \<le> t') rs"
  by (auto simp: valid_requests_def list_all_iff)

lemma flap_run_after:
  assumes "flap_run primary_op Q b rs = Done outs" "list_all (\<lambda>(k, c, t). hi < t) rs"
  shows "locally_allowed key lo hi outs = 0 \<and> recoveries lo hi outs = 0"
  using assms
  by (induction primary_op Q b rs arbitrary: outs rule: flap_run.induct) (auto simp: bind_exec_Done_iff map_exec_Done_iff)

lemma flap_run_returns:
  assumes "primary_returns primary_op" "breaker_idle b" "valid_requests Q rs"
  shows "\<exists>outs. flap_run primary_op Q b rs = Done outs \<and> length outs = length rs"
  using assms(2,3)
proof (induction rs arbitrary: b)
  case (Cons r rs)
  obtain key c t where r: "r = (key, c, t)" by (cases r)
  then have v: "mem_valid Q key c t" "valid_requests Q rs" using Cons.prems(2) by (simp_all add: valid_requests_Cons)
  then have lq: "limited_quota (Q key)" by (simp add: mem_valid_def)
  obtain out b' where call: "breaker_check_and_update primary_op b key (Q key) (of_nat c) (of_nat t) = Done (out, b')"
    "breaker_idle b'"
    by (rule call_by_source [OF Cons.prems(1) lq assms(1), where key = key and cost = "of_nat c" and now = "of_nat t"])
      blast+
  then show ?case using Cons.IH [OF call(2) v(2)] by (auto simp: r)
qed simp

text \<open>The level and what was allowed, from the start of the span on.\<close>

lemma flap_run_potential:
  assumes "primary_returns primary_op" "breaker_idle b" "valid_requests Q rs" "list_all (\<lambda>(k, c, t). x \<le> t) rs"
    and "mem_tat (fallback b) K \<le> x + bo_nat (Q K)" "lo \<le> x" "x \<le> hi"
  shows "\<exists>outs. flap_run primary_op Q b rs = Done outs \<and>
    max (mem_tat (fallback b) K) x + ei_nat (Q K) * locally_allowed K lo hi outs
      \<le> hi + Suc (recoveries lo hi outs) * bo_nat (Q K)"
  using assms(2-)
proof (induction rs arbitrary: b x)
  case Nil
  then show ?case by simp
next
  case (Cons r rs)
  obtain key c t where r: "r = (key, c, t)" by (cases r)
  have v: "mem_valid Q key c t" "valid_requests Q rs" "list_all (\<lambda>(k, c', t'). t \<le> t') rs" and xt: "x \<le> t"
    using Cons.prems(2,3) by (simp_all add: r valid_requests_Cons)
  let ?L = "mem_tat (fallback b) K" and ?e = "ei_nat (Q K)" and ?bo = "bo_nat (Q K)"
  let ?src = "answered_by primary_op b key (Q key) (of_nat c) (of_nat t)"
  have L: "?L \<le> t + ?bo" using Cons.prems(4) xt by linarith
  obtain out b' where call: "breaker_check_and_update primary_op b key (Q key) (of_nat c) (of_nat t) = Done (out, b')"
    "breaker_idle b'" and le: "mem_tat (fallback b') K \<le> t + ?bo"
    and lev: "?src = ByClosingProbe \<or> max (mem_tat (fallback b') K) t =
      max ?L t + ?e * (if key = K \<and> ?src = ByFallback \<and> reported_allowed out then c else 0)"
    using call_level [OF Cons.prems(1) v(1) assms(1) L] by metis
  show ?case
  proof (cases "t \<le> hi")
    case True
    obtain outs where outs: "flap_run primary_op Q b' rs = Done outs"
      "max (mem_tat (fallback b') K) t + ?e * locally_allowed K lo hi outs \<le> hi + Suc (recoveries lo hi outs) * ?bo"
      using Cons.IH [OF call(2) v(2,3) le _ True] Cons.prems(5) xt by auto
    have run: "flap_run primary_op Q b (r # rs) = Done ((key, (c, t), ?src, out) # outs)"
      using call(1) outs(1) by (simp add: r)
    have span: "lo \<le> t" using Cons.prems(5) xt by simp
    show ?thesis
    proof (cases "?src = ByClosingProbe")
      case True
      have "?L \<le> t + ?bo" "t \<le> max (mem_tat (fallback b') K) t" using L by simp_all
      then have "max ?L x + ?e * locally_allowed K lo hi outs \<le> hi + Suc (Suc (recoveries lo hi outs)) * ?bo"
        using outs(2) xt by simp
      then show ?thesis using run True span \<open>t \<le> hi\<close> by simp
    next
      case False
      then have "max ?L x + ?e * ((if key = K \<and> ?src = ByFallback \<and> reported_allowed out then c else 0)
          + locally_allowed K lo hi outs) \<le> hi + Suc (recoveries lo hi outs) * ?bo"
        using lev outs(2) xt by (simp add: distrib_left)
      then show ?thesis using run False span \<open>t \<le> hi\<close> by simp
    qed
  next
    case False
    have "list_all (\<lambda>(k, c, t). hi < t) (r # rs)"
      using v(3) False by (auto simp: r list_all_iff)
    moreover obtain outs where "flap_run primary_op Q b (r # rs) = Done outs"
      using flap_run_returns [OF assms(1) Cons.prems(1,2)] by blast
    ultimately show ?thesis
      using flap_run_after [of primary_op Q b "r # rs" _ hi K lo] Cons.prems(4,6) by fastforce
  qed
qed

lemma flap_run_span:
  assumes "primary_returns primary_op" "breaker_idle b" "valid_requests Q rs" "list_all (\<lambda>(k, c, t). x \<le> t) rs"
    and "mem_tat (fallback b) K \<le> x + bo_nat (Q K)" "lo \<le> hi"
  shows "\<exists>outs. flap_run primary_op Q b rs = Done outs \<and>
    ei_nat (Q K) * locally_allowed K lo hi outs \<le> hi - lo + Suc (recoveries lo hi outs) * bo_nat (Q K)"
  using assms(2-5)
proof (induction rs arbitrary: b x)
  case (Cons r rs)
  obtain key c t where r: "r = (key, c, t)" by (cases r)
  have v: "mem_valid Q key c t" "valid_requests Q rs" "list_all (\<lambda>(k, c', t'). t \<le> t') rs" and xt: "x \<le> t"
    using Cons.prems(2,3) by (simp_all add: r valid_requests_Cons)
  show ?case
  proof (cases "lo \<le> t")
    case True
    then have later: "list_all (\<lambda>(k, c, t). lo \<le> t) (r # rs)" using v(3) by (auto simp: r list_all_iff)
    have L: "mem_tat (fallback b) K \<le> max x lo + bo_nat (Q K)" using Cons.prems(4) by simp
    show ?thesis
    proof (cases "x \<le> lo")
      case True
      then show ?thesis
        using flap_run_potential [OF assms(1) Cons.prems(1,2) later, of K lo hi] L assms(6) by fastforce
    next
      case False
      show ?thesis
      proof (cases "x \<le> hi")
        case True
        then show ?thesis
          using flap_run_potential [OF assms(1) Cons.prems(1-4), of lo hi] False assms(6) by fastforce
      next
        case False
        have "list_all (\<lambda>(k, c, t). hi < t) (r # rs)" using Cons.prems(3) False by (auto simp: list_all_iff)
        then show ?thesis
          using flap_run_after [of primary_op Q b "r # rs" _ hi K lo] flap_run_returns [OF assms(1) Cons.prems(1,2)]
          by fastforce
      qed
    qed
  next
    case False
    have L: "mem_tat (fallback b) K \<le> t + bo_nat (Q K)" using Cons.prems(4) xt by linarith
    obtain out b' where call: "breaker_check_and_update primary_op b key (Q key) (of_nat c) (of_nat t) = Done (out, b')"
      "breaker_idle b'" "mem_tat (fallback b') K \<le> t + bo_nat (Q K)"
      using call_level [OF Cons.prems(1) v(1) assms(1) L] by metis
    then show ?thesis
      using Cons.IH [OF call(2) v(2,3) call(3)] False by (auto simp: r)
  qed
qed simp

section \<open>Properties\<close>

text \<open>C16: the local limit across outages and recoveries. Take a new breaker over any primary storage that
  returns, failing and recovering as it likes, and any valid requests at non-decreasing times. Every call is
  answered, and in any span of time the cost the fallback allowed for a key, times the emission
  interval, is at most the span plus one burst, plus one further burst for each recovery in the
  span (a successful probe, which discards the local counts).\<close>

theorem recovery_rate_guarantee:
  assumes "primary_returns primary_op" "valid_requests Q rs" "lo \<le> hi"
  shows "\<exists>outs. flap_run primary_op Q (breaker_new server memory_new) rs = Done outs \<and> length outs = length rs \<and>
    ei_nat (Q key) * locally_allowed key lo hi outs \<le> hi - lo + (recoveries lo hi outs + 1) * bo_nat (Q key)"
proof -
  have start: "list_all (\<lambda>(k, c, t). 0 \<le> t) rs" by (auto simp: list_all_iff)
  have "mem_tat (fallback (breaker_new server memory_new)) key \<le> 0 + bo_nat (Q key)"
    by (simp add: breaker_new_def)
  then show ?thesis
    using flap_run_span [OF assms(1) breaker_new_idle assms(2) start _ assms(3), of server memory_new key]
      flap_run_returns [OF assms(1) breaker_new_idle assms(2), of server memory_new]
    by auto
qed

text \<open>A primary that fails every call but one: three failures open the breaker, and the probe after the open
  period succeeds.\<close>

definition flapping_primary :: "nat storage_op" where
  "flapping_primary p key q cost now =
     Done (if p = 3 then Ok (Ok \<lparr>info_limit = 3, remaining = 2, info_reset_after = from_secs 20\<rparr>)
           else Err (StorageError (lit ''redis down'')), Suc p)"

definition flap_requests :: "(storage_key \<times> cell_request) list" where
  "flap_requests = [(demo_key, 1, 0), (demo_key, 1, 0), (demo_key, 1, 0), (demo_key, 1, 1),
     (demo_key, 1, 5000000000), (demo_key, 1, 5000000001)]"

theorem recovery_rate_guarantee_witness:
  "\<exists>outs. flap_run flapping_primary (\<lambda>_. three_per_minute) (breaker_new 0 memory_new) flap_requests = Done outs \<and>
    length outs = 6 \<and>
    20000000000 * locally_allowed demo_key 0 5000000001 outs
      \<le> 5000000001 + (recoveries 0 5000000001 outs + 1) * 60000000000"
proof -
  have "primary_returns flapping_primary" by (simp add: primary_returns_def flapping_primary_def)
  moreover have "valid_requests (\<lambda>_. three_per_minute) flap_requests"
    by (simp add: valid_requests_def flap_requests_def mem_valid_def three_per_minute_limited three_per_minute_nat)
  moreover have "length flap_requests = 6" by (simp add: flap_requests_def)
  ultimately show ?thesis
    using recovery_rate_guarantee [of flapping_primary "\<lambda>_. three_per_minute" flap_requests 0 5000000001 0 demo_key]
    by (simp add: three_per_minute_nat)
qed

end
