(* ===== verification/Json.thy ===== *)
theory Json
  imports Text_Format
begin

text \<open>
  What a client reads from a JSON body: a reader for the flat objects the responses are made of
  (string and natural-number values), after RFC 8259. A string value ends at the first unescaped
  quote; an unescaped control character below U+0020 is an error; escapes are decoded. The reader
  takes fuel, one unit per member; the length of the text is always enough.

  The lemmas give a decoding of the text that \<open>escape_json_string\<close> of \<open>src/response.rs\<close> writes:
  it is one string, decoded to the original, whatever follows its closing quote.
\<close>

section \<open>The escape\<close>

text \<open>\<open>char::is_control\<close>: the general category \<open>Cc\<close>.\<close>

definition is_control :: "nat \<Rightarrow> bool" where
  "is_control c \<longleftrightarrow> c < 32 \<or> 127 \<le> c \<and> c < 160"

definition escape_char :: "nat \<Rightarrow> rstring" where
  "escape_char ch =
     (if ch = 34 then [92, 34]
      else if ch = 92 then [92, 92]
      else if is_control ch then [92, 117] @ hex4 ch
      else [ch])"

definition escape_json_string :: "rstring \<Rightarrow> rstring" where
  "escape_json_string s = foldl (\<lambda>escaped ch. escaped @ escape_char ch) [] s"

section \<open>A reader\<close>

datatype json_value = JStr rstring | JNum nat

definition simple_escape :: "nat \<Rightarrow> nat option" where
  "simple_escape e =
     (if e = 34 \<or> e = 92 \<or> e = 47 then Some e
      else if e = 98 then Some 8 else if e = 102 then Some 12 else if e = 110 then Some 10
      else if e = 114 then Some 13 else if e = 116 then Some 9 else None)"

definition hex_number :: "nat \<Rightarrow> nat \<Rightarrow> nat \<Rightarrow> nat \<Rightarrow> nat option" where
  "hex_number a b c d =
     (case (hex_value a, hex_value b, hex_value c, hex_value d) of
        (Some a', Some b', Some c', Some d') \<Rightarrow> Some (((a' * 16 + b') * 16 + c') * 16 + d')
      | _ \<Rightarrow> None)"

text \<open>The rest of a string after its opening quote: the decoded text and what follows the closing
  quote.\<close>

fun read_string :: "rstring \<Rightarrow> (rstring \<times> rstring) option" where
  "read_string [] = None"
| "read_string (ch # cs) =
     (if ch = 34 then Some ([], cs)
      else if ch = 92 then
        (case cs of
           [] \<Rightarrow> None
         | e # r \<Rightarrow>
             if e = 117 then
               (case r of
                  a # b # c # d # r' \<Rightarrow>
                    (case hex_number a b c d of
                       None \<Rightarrow> None
                     | Some n \<Rightarrow> map_option (\<lambda>(s, rest). (n # s, rest)) (read_string r'))
                | _ \<Rightarrow> None)
             else (case simple_escape e of
                     None \<Rightarrow> None
                   | Some n \<Rightarrow> map_option (\<lambda>(s, rest). (n # s, rest)) (read_string r)))
      else if ch < 32 then None
      else map_option (\<lambda>(s, rest). (ch # s, rest)) (read_string cs))"

definition read_number :: "rstring \<Rightarrow> (nat \<times> rstring) option" where
  "read_number s =
     (if takeWhile is_digit s = [] then None
      else Some (parse_decimal (takeWhile is_digit s), dropWhile is_digit s))"

definition read_value :: "rstring \<Rightarrow> (json_value \<times> rstring) option" where
  "read_value s =
     (case s of
        [] \<Rightarrow> None
      | c # cs \<Rightarrow> if c = 34 then map_option (\<lambda>(t, r). (JStr t, r)) (read_string cs)
                  else map_option (\<lambda>(n, r). (JNum n, r)) (read_number s))"

text \<open>One member: a quoted name, a colon, a value.\<close>

definition read_member :: "rstring \<Rightarrow> ((rstring \<times> json_value) \<times> rstring) option" where
  "read_member s =
     (case s of
        [] \<Rightarrow> None
      | c # cs \<Rightarrow>
          if c \<noteq> 34 then None
          else (case read_string cs of
                  None \<Rightarrow> None
                | Some (name, r) \<Rightarrow>
                    (case r of
                       [] \<Rightarrow> None
                     | d # r' \<Rightarrow> if d = 58 then map_option (\<lambda>(v, r''). ((name, v), r'')) (read_value r')
                                 else None)))"

primrec read_members :: "nat \<Rightarrow> rstring \<Rightarrow> (rstring \<times> json_value) list option" where
  "read_members 0 s = None"
| "read_members (Suc n) s =
     (case read_member s of
        None \<Rightarrow> None
      | Some (m, r) \<Rightarrow>
          if r = [125] then Some [m]
          else (case r of
                  [] \<Rightarrow> None
                | c # r' \<Rightarrow> if c = 44 then map_option (\<lambda>ms. m # ms) (read_members n r') else None))"

definition read_object :: "rstring \<Rightarrow> (rstring \<times> json_value) list option" where
  "read_object s =
     (case s of [] \<Rightarrow> None | c # cs \<Rightarrow> if c = 123 then read_members (length s) cs else None)"

section \<open>Reading what was written\<close>

lemma escape_json_string_concat: "escape_json_string s = concat (map escape_char s)"
proof -
  have "foldl (\<lambda>escaped ch. escaped @ escape_char ch) acc s = acc @ concat (map escape_char s)" for acc
    by (induction s arbitrary: acc) auto
  then show ?thesis by (simp add: escape_json_string_def)
qed

lemma hex4_number: "ch < 65536 \<Longrightarrow>
    \<exists>a b c d. hex4 ch = [a, b, c, d] \<and> hex_number a b c d = Some ch"
proof -
  assume ch: "ch < 65536"
  have parts: "ch = 16 * (ch div 16) + ch mod 16" "ch div 16 = 16 * (ch div 256) + ch div 16 mod 16"
    "ch div 256 = 16 * (ch div 4096) + ch div 256 mod 16"
    using div_mult2_eq [of ch 16 16] div_mult2_eq [of ch 256 16] by simp_all
  have "((ch div 4096 * 16 + ch div 256 mod 16) * 16 + ch div 16 mod 16) * 16 + ch mod 16 = ch"
    using parts by (metis mult.commute)
  then show ?thesis using ch by (simp add: hex4_def hex_number_def)
qed

lemma read_escaped_char:
  "read_string (escape_char ch @ r) = map_option (\<lambda>(s, rest). (ch # s, rest)) (read_string r)"
proof -
  consider "ch = 34" | "ch = 92" | "ch \<noteq> 34" "ch \<noteq> 92" "is_control ch" | "ch \<noteq> 34" "ch \<noteq> 92" "\<not> is_control ch"
    by blast
  then show ?thesis
  proof cases
    case 3
    then obtain a b c d where "hex4 ch = [a, b, c, d]" "hex_number a b c d = Some ch"
      using hex4_number [of ch] by (auto simp: is_control_def)
    then show ?thesis using 3 by (simp add: escape_char_def)
  qed (auto simp: escape_char_def simple_escape_def is_control_def)
qed

lemma read_escaped: "read_string (escape_json_string s @ 34 # r) = Some (s, r)"
  unfolding escape_json_string_concat
  by (induction s) (simp_all add: read_escaped_char del: read_string.simps(2), simp)

text \<open>Text that needs no escape is its own escape.\<close>

definition plain :: "rstring \<Rightarrow> bool" where
  "plain s \<longleftrightarrow> (\<forall>c \<in> set s. c \<noteq> 34 \<and> c \<noteq> 92 \<and> \<not> is_control c)"

lemma escape_plain: "plain s \<Longrightarrow> escape_json_string s = s"
  unfolding escape_json_string_concat plain_def by (induction s) (auto simp: escape_char_def)

lemma read_plain: "plain s \<Longrightarrow> read_string (s @ 34 # r) = Some (s, r)"
  using read_escaped [of s r] by (simp add: escape_plain)

lemma read_number_decimal:
  assumes "r = [] \<or> \<not> is_digit (hd r)"
  shows "read_number (decimal n @ r) = Some (n, r)"
proof -
  have "takeWhile is_digit (decimal n @ r) = decimal n" "dropWhile is_digit (decimal n @ r) = r"
    using assms decimal_digits [of _ n] by (cases r; auto simp: takeWhile_append dropWhile_append)+
  then show ?thesis by (simp add: read_number_def)
qed

section \<open>Writing members\<close>

text \<open>A member as the format strings of the responses write it.\<close>

fun write_value :: "json_value \<Rightarrow> rstring" where
  "write_value (JStr s) = [34] @ escape_json_string s @ [34]"
| "write_value (JNum n) = decimal n"

definition write_member :: "rstring \<times> json_value \<Rightarrow> rstring" where
  "write_member m = [34] @ fst m @ [34, 58] @ write_value (snd m)"

fun write_members :: "(rstring \<times> json_value) list \<Rightarrow> rstring" where
  "write_members [] = []"
| "write_members [m] = write_member m"
| "write_members (m # ms) = write_member m @ [44] @ write_members ms"

definition write_object :: "(rstring \<times> json_value) list \<Rightarrow> rstring" where
  "write_object ms = [123] @ write_members ms @ [125]"

lemma read_write_value:
  assumes "r \<noteq> []" "\<not> is_digit (hd r)"
  shows "read_value (write_value v @ r) = Some (v, r)"
proof (cases v)
  case (JNum n)
  have "hd (decimal n @ r) \<noteq> 34"
    using decimal_digits [of "hd (decimal n)" n] by (auto simp: is_digit_def)
  then show ?thesis
    using JNum assms read_number_decimal [of r n]
    by (cases "decimal n @ r") (auto simp: read_value_def)
qed (simp add: read_value_def read_escaped)

lemma read_write_member:
  assumes "plain (fst m)" "r \<noteq> []" "\<not> is_digit (hd r)"
  shows "read_member (write_member m @ r) = Some (m, r)"
  using assms read_write_value [of r "snd m"]
  by (simp add: read_member_def write_member_def read_plain)

lemma read_write_members:
  assumes "ms \<noteq> []" "\<forall>m \<in> set ms. plain (fst m)" "length ms \<le> n"
  shows "read_members n (write_members ms @ [125]) = Some ms"
  using assms
proof (induction ms arbitrary: n rule: write_members.induct)
  case (2 m)
  then show ?case by (cases n) (simp_all add: read_write_member is_digit_def)
next
  case (3 m m' ms)
  then show ?case by (cases n) (simp_all add: read_write_member is_digit_def)
qed simp

lemma length_write_members: "length ms \<le> length (write_members ms)"
  by (induction ms rule: write_members.induct) (auto simp: write_member_def)

text \<open>An object written with plain names reads back as its members.\<close>

lemma read_write_object:
  assumes "ms \<noteq> []" "\<forall>m \<in> set ms. plain (fst m)"
  shows "read_object (write_object ms) = Some ms"
  using read_write_members [OF assms, of "length (write_object ms)"] length_write_members [of ms]
  by (simp add: read_object_def write_object_def)

end
