(* ===== verification/Clock.thy ===== *)
theory Clock
  imports Duration
begin

text \<open>
  \<open>src/clock.rs\<close>. \<open>SystemClock\<close> reads the nanoseconds since its creation, truncated to \<open>u64\<close>.
  \<open>FakeClock\<close> is one shared atomic cell: \<open>now\<close> loads it, \<open>set\<close> stores it and \<open>advance\<close> adds to
  it in a compare-exchange loop.

  The loop runs concurrently with the other users of the cell, so it is a step relation: a
  call of \<open>advance\<close> loads the cell, then tries the exchange until it succeeds. The exchange is the weak one,
  which may also fail when the cell holds the expected value. The state records what callers
  see, the invocations and the responses; linearizability is stated on these alone.
\<close>

section \<open>SystemClock\<close>

text \<open>The epoch and the instant of the reading, in nanoseconds of the monotonic timer.\<close>

definition system_clock_now :: "nat \<Rightarrow> nat \<Rightarrow> nanos" where
  "system_clock_now epoch instant = of_nat (instant - epoch)"

lemma system_clock_monotonic:
  assumes "i \<le> j" "j - epoch \<le> u64_max"
  shows "system_clock_now epoch i \<le> system_clock_now epoch j"
proof -
  have "i - epoch \<le> j - epoch" using assms(1) by (rule diff_le_mono)
  then show ?thesis
    using assms(2) unfolding system_clock_now_def word_le_nat_alt
    by (simp add: unat_of_nat_u64 del: of_nat_diff)
qed

section \<open>FakeClock: the sequential operations\<close>

definition fake_clock_new :: nanos where
  "fake_clock_new = 0"

definition fake_clock_default :: nanos where
  "fake_clock_default = fake_clock_new"

text \<open>The argument of \<open>advance\<close> as \<open>u64\<close> nanoseconds, saturating.\<close>

definition advance_delta :: "duration \<Rightarrow> nanos" where
  "advance_delta d = of_nat (min (as_nanos d) (unat (- 1 :: u64)))"

definition fake_clock_advance :: "nanos \<Rightarrow> duration \<Rightarrow> nanos" where
  "fake_clock_advance cell d = saturating_add cell (advance_delta d)"

definition fake_clock_set :: "nanos \<Rightarrow> nanos \<Rightarrow> nanos" where
  "fake_clock_set cell n = n"

definition fake_clock_now :: "nanos \<Rightarrow> nanos" where
  "fake_clock_now cell = cell"

lemma unat_advance_delta: "unat (advance_delta d) = min (as_nanos d) u64_max"
  by (simp add: advance_delta_def unat_max_word unat_of_nat_u64)

lemma unat_fake_clock_advance:
  "unat (fake_clock_advance cell d) = min (unat cell + as_nanos d) u64_max"
  by (simp add: fake_clock_advance_def unat_saturating_add unat_advance_delta min_add_min)

section \<open>FakeClock: concurrent use\<close>

datatype clock_op = AdvanceBy duration | SetTo nanos | ReadNow

text \<open>Where a call is: before its first access to the cell, in the loop of \<open>advance\<close> with the value it
  expects, about to return (with the value a \<open>now\<close> has read), returned.\<close>

datatype clock_pc =
    Ready clock_op
  | Exchange duration nanos
  | Returning clock_op "nanos option"
  | Returned clock_op "nanos option"

datatype clock_event = Invoke nat clock_op | Respond nat "nanos option"

text \<open>Calls are numbered. The log has the newest event first.\<close>

record clock_sys =
  cell :: nanos
  clock_calls :: "nat \<Rightarrow> clock_pc option"
  clock_log :: "clock_event list"

definition clock_init :: clock_sys where
  "clock_init = \<lparr>cell = fake_clock_new, clock_calls = (\<lambda>_. None), clock_log = []\<rparr>"

inductive clock_step :: "clock_sys \<Rightarrow> clock_sys \<Rightarrow> bool" where
  invoke: "clock_calls s i = None \<Longrightarrow>
    clock_step s (s\<lparr>clock_calls := (clock_calls s)(i := Some (Ready op)), clock_log := Invoke i op # clock_log s\<rparr>)"
| load: "clock_calls s i = Some (Ready (AdvanceBy d)) \<Longrightarrow>
    clock_step s (s\<lparr>clock_calls := (clock_calls s)(i := Some (Exchange d (cell s)))\<rparr>)"
| exchange_ok: "clock_calls s i = Some (Exchange d current) \<Longrightarrow> cell s = current \<Longrightarrow>
    clock_step s (s\<lparr>cell := saturating_add current (advance_delta d),
                    clock_calls := (clock_calls s)(i := Some (Returning (AdvanceBy d) None))\<rparr>)"
| exchange_fail: "clock_calls s i = Some (Exchange d current) \<Longrightarrow>
    clock_step s (s\<lparr>clock_calls := (clock_calls s)(i := Some (Exchange d (cell s)))\<rparr>)"
| store: "clock_calls s i = Some (Ready (SetTo n)) \<Longrightarrow>
    clock_step s (s\<lparr>cell := fake_clock_set (cell s) n,
                    clock_calls := (clock_calls s)(i := Some (Returning (SetTo n) None))\<rparr>)"
| read: "clock_calls s i = Some (Ready ReadNow) \<Longrightarrow>
    clock_step s (s\<lparr>clock_calls := (clock_calls s)(i := Some (Returning ReadNow (Some (fake_clock_now (cell s)))))\<rparr>)"
| respond: "clock_calls s i = Some (Returning op v) \<Longrightarrow>
    clock_step s (s\<lparr>clock_calls := (clock_calls s)(i := Some (Returned op v)), clock_log := Respond i v # clock_log s\<rparr>)"

inductive clock_reachable :: "clock_sys \<Rightarrow> bool" where
  start: "clock_reachable clock_init"
| step: "clock_reachable s \<Longrightarrow> clock_step s t \<Longrightarrow> clock_reachable t"

section \<open>FakeClock: what callers may see\<close>

text \<open>The sequential clock: what an operation does to the cell, and what it returns.\<close>

fun apply_op :: "clock_op \<Rightarrow> nanos \<Rightarrow> nanos" where
  "apply_op (AdvanceBy d) c = fake_clock_advance c d"
| "apply_op (SetTo n) c = fake_clock_set c n"
| "apply_op ReadNow c = c"

fun op_result :: "clock_op \<Rightarrow> nanos \<Rightarrow> nanos option" where
  "op_result ReadNow c = Some (fake_clock_now c)"
| "op_result _ c = None"

text \<open>Operations one at a time, each with its call and what it returned, lead from one value of the cell to another.\<close>

fun runs_sequentially :: "(nat \<times> clock_op \<times> nanos option) list \<Rightarrow> nanos \<Rightarrow> nanos \<Rightarrow> bool" where
  "runs_sequentially [] c c' = (c' = c)"
| "runs_sequentially ((i, op, v) # ops) c c' = (v = op_result op c \<and> runs_sequentially ops (apply_op op c) c')"

lemma runs_sequentially_snoc:
  "runs_sequentially ops c c' \<Longrightarrow> runs_sequentially (ops @ [(i, op, op_result op c')]) c (apply_op op c')"
  by (induction ops c c' rule: runs_sequentially.induct) auto

text \<open>In the log, call \<open>i\<close> returned before call \<open>j\<close> was made.\<close>

fun returned_before :: "clock_event list \<Rightarrow> nat \<Rightarrow> nat \<Rightarrow> bool" where
  "returned_before [] i j = False"
| "returned_before (Invoke k op # log) i j = (k = j \<and> (\<exists>v. Respond i v \<in> set log) \<or> returned_before log i j)"
| "returned_before (Respond k v # log) i j = returned_before log i j"

lemma returned_before_Respond: "returned_before log i j \<Longrightarrow> \<exists>v. Respond i v \<in> set log"
  by (induction log i j rule: returned_before.induct) auto

text \<open>
  An order of operations explains a log and the value of the cell: no call is in it twice; it has
  only calls that were made, with their operations, and every call that returned, with its result;
  a call that returned before another was made comes before it; and run one at a time on a new clock the
  operations give these results and this value.
\<close>

definition explains :: "(nat \<times> clock_op \<times> nanos option) list \<Rightarrow> clock_event list \<Rightarrow> nanos \<Rightarrow> bool" where
  "explains ops log c \<longleftrightarrow>
     distinct (map fst ops) \<and>
     (\<forall>(i, op, v) \<in> set ops. Invoke i op \<in> set log) \<and>
     (\<forall>i v. Respond i v \<in> set log \<longrightarrow> (\<exists>op. (i, op, v) \<in> set ops)) \<and>
     (\<forall>i j. returned_before log i j \<and> j \<in> fst ` set ops \<longrightarrow> i \<in> set (takeWhile (\<lambda>k. k \<noteq> j) (map fst ops))) \<and>
     runs_sequentially ops fake_clock_new c"

section \<open>The invariant\<close>

text \<open>An order that explains the log has exactly the calls that have taken effect, and the logged invocations are the calls.\<close>

fun effect_of :: "clock_pc option \<Rightarrow> (clock_op \<times> nanos option) option" where
  "effect_of (Some (Returning op v)) = Some (op, v)"
| "effect_of (Some (Returned op v)) = Some (op, v)"
| "effect_of _ = None"

fun op_of :: "clock_pc \<Rightarrow> clock_op" where
  "op_of (Ready op) = op"
| "op_of (Exchange d current) = AdvanceBy d"
| "op_of (Returning op v) = op"
| "op_of (Returned op v) = op"

definition ordered_by :: "(nat \<times> clock_op \<times> nanos option) list \<Rightarrow> clock_sys \<Rightarrow> bool" where
  "ordered_by ops s \<longleftrightarrow> explains ops (clock_log s) (cell s) \<and>
     (\<forall>i op v. (i, op, v) \<in> set ops \<longleftrightarrow> effect_of (clock_calls s i) = Some (op, v)) \<and>
     (\<forall>i op. Invoke i op \<in> set (clock_log s) \<longleftrightarrow> map_option op_of (clock_calls s i) = Some op)"

lemma ordered_by_call: "ordered_by ops s \<Longrightarrow> i \<in> fst ` set ops \<longleftrightarrow> effect_of (clock_calls s i) \<noteq> None"
proof -
  assume "ordered_by ops s"
  then have "(\<exists>op v. (i, op, v) \<in> set ops) \<longleftrightarrow> (\<exists>op v. effect_of (clock_calls s i) = Some (op, v))"
    unfolding ordered_by_def by blast
  moreover have "i \<in> fst ` set ops \<longleftrightarrow> (\<exists>op v. (i, op, v) \<in> set ops)" by (force simp: image_iff)
  ultimately show ?thesis by (simp add: not_None_eq split_paired_Ex)
qed

lemma explains_snoc:
  assumes "explains ops log c" "j \<notin> fst ` set ops" "Invoke j op \<in> set log"
  shows "explains (ops @ [(j, op, op_result op c)]) log (apply_op op c)"
proof -
  have "i \<in> set (takeWhile (\<lambda>k. k \<noteq> l) (map fst ops @ [j]))"
    if before: "returned_before log i l" and l: "l = j \<or> l \<in> fst ` set ops" for i l
  proof (cases "l = j")
    case True
    obtain v where "Respond i v \<in> set log" using returned_before_Respond [OF before] by blast
    then have "i \<in> fst ` set ops" using assms(1) unfolding explains_def by force
    moreover have "takeWhile (\<lambda>k. k \<noteq> l) (map fst ops @ [j]) = map fst ops"
      using assms(2) True by (subst takeWhile_append2) auto
    ultimately show ?thesis by simp
  next
    case False
    then have "l \<in> set (map fst ops)" using l by simp
    then have "takeWhile (\<lambda>k. k \<noteq> l) (map fst ops @ [j]) = takeWhile (\<lambda>k. k \<noteq> l) (map fst ops)"
      by (rule takeWhile_append1) simp
    then show ?thesis using assms(1) before l False unfolding explains_def by auto
  qed
  moreover have "\<exists>op'. (i, op', v) \<in> set (ops @ [(j, op, op_result op c)])" if "Respond i v \<in> set log" for i v
    using assms(1) that unfolding explains_def by (metis Un_iff set_append)
  moreover have "runs_sequentially (ops @ [(j, op, op_result op c)]) fake_clock_new (apply_op op c)"
    using assms(1) by (intro runs_sequentially_snoc) (simp add: explains_def)
  moreover have "distinct (map fst (ops @ [(j, op, op_result op c)]))"
    "\<forall>(i, op', v) \<in> set (ops @ [(j, op, op_result op c)]). Invoke i op' \<in> set log"
    using assms by (auto simp: explains_def)
  ultimately show ?thesis unfolding explains_def by simp
qed

lemma explains_Invoke:
  assumes "explains ops log c" "j \<notin> fst ` set ops"
  shows "explains ops (Invoke j op # log) c"
proof -
  have "i \<in> set (takeWhile (\<lambda>k. k \<noteq> l) (map fst ops))"
    if "returned_before (Invoke j op # log) i l" "l \<in> fst ` set ops" for i l
    using that assms unfolding explains_def by (cases "l = j") simp_all
  then show ?thesis using assms(1) unfolding explains_def by auto
qed

lemma explains_Respond:
  "explains ops log c \<Longrightarrow> (i, op, v) \<in> set ops \<Longrightarrow> explains ops (Respond i v # log) c"
  unfolding explains_def by auto

text \<open>A call that takes effect is put at the end of the order; no other step changes the order.\<close>

lemma ordered_by_effect:
  assumes "ordered_by ops s" "clock_calls s i = Some pc" "effect_of (Some pc) = None" "op_of pc = op"
  shows "ordered_by (ops @ [(i, op, op_result op (cell s))])
    (s\<lparr>cell := apply_op op (cell s), clock_calls := (clock_calls s)(i := Some (Returning op (op_result op (cell s))))\<rparr>)"
proof -
  have new: "i \<notin> fst ` set ops" using ordered_by_call [OF assms(1)] assms(2,3) by simp
  have "Invoke i op \<in> set (clock_log s)" using assms(1,2,4) by (simp add: ordered_by_def)
  from explains_snoc [OF _ new this, of "cell s"] have "explains (ops @ [(i, op, op_result op (cell s))]) (clock_log s) (apply_op op (cell s))"
    using assms(1) by (simp add: ordered_by_def)
  moreover have "(i, op', v) \<notin> set ops" for op' v using new by (force simp: image_iff)
  ultimately show ?thesis using assms by (auto simp: ordered_by_def)
qed

lemma ordered_by_quiet:
  assumes "ordered_by ops s" "clock_calls s i = Some pc" "effect_of (Some pc') = effect_of (Some pc)" "op_of pc' = op_of pc"
  shows "ordered_by ops (s\<lparr>clock_calls := (clock_calls s)(i := Some pc')\<rparr>)"
  using assms by (auto simp: ordered_by_def)

lemma clock_step_ordered:
  assumes "clock_step s t" "ordered_by ops s"
  shows "\<exists>ops'. ordered_by ops' t"
  using assms(1)
proof cases
  case (invoke i op)
  have "i \<notin> fst ` set ops" using ordered_by_call [OF assms(2)] invoke(2) by simp
  then have "explains ops (clock_log t) (cell t)" using explains_Invoke assms(2) invoke(1) by (simp add: ordered_by_def)
  then have "ordered_by ops t" using assms(2) invoke by (auto simp: ordered_by_def)
  then show ?thesis ..
next
  case (load i d)
  then show ?thesis using ordered_by_quiet [OF assms(2) load(2), of "Exchange d (cell s)"] by auto
next
  case (exchange_ok i d current)
  then show ?thesis
    using ordered_by_effect [OF assms(2) exchange_ok(2), of "AdvanceBy d"] by (auto simp: fake_clock_advance_def)
next
  case (exchange_fail i d current)
  then show ?thesis using ordered_by_quiet [OF assms(2) exchange_fail(2), of "Exchange d (cell s)"] by auto
next
  case (store i n)
  then show ?thesis using ordered_by_effect [OF assms(2) store(2), of "SetTo n"] by auto
next
  case (read i)
  then show ?thesis using ordered_by_effect [OF assms(2) read(2), of ReadNow] by auto
next
  case (respond i op v)
  have "(i, op, v) \<in> set ops" using assms(2) respond(2) by (simp add: ordered_by_def)
  then have "explains ops (clock_log t) (cell t)" using explains_Respond assms(2) respond(1) by (auto simp: ordered_by_def)
  then have "ordered_by ops t" using assms(2) respond by (auto simp: ordered_by_def)
  then show ?thesis ..
qed

lemma clock_reachable_ordered: "clock_reachable s \<Longrightarrow> \<exists>ops. ordered_by ops s"
proof (induction rule: clock_reachable.induct)
  case start
  have "ordered_by [] clock_init" by (simp add: ordered_by_def explains_def clock_init_def)
  then show ?case ..
qed (blast dest: clock_step_ordered)

section \<open>A run\<close>

text \<open>A call of \<open>advance\<close> loads the cell; before its exchange another call sets the clock and returns, and a third
  begins to read it. The exchange fails once, then succeeds.\<close>

definition raced_clock :: clock_sys where
  "raced_clock =
     \<lparr>cell = 60000000005, clock_calls = [0 \<mapsto> Exchange (from_secs 60) 0, 1 \<mapsto> Returned (SetTo 5) None, 0 \<mapsto> Exchange (from_secs 60) 5, 2 \<mapsto> Ready ReadNow, 0 \<mapsto> Returned (AdvanceBy (from_secs 60)) None, 2 \<mapsto> Returned ReadNow (Some 60000000005)],
      clock_log = [Respond 2 (Some 60000000005), Respond 0 None, Invoke 2 ReadNow, Respond 1 None, Invoke 1 (SetTo 5), Invoke 0 (AdvanceBy (from_secs 60))]\<rparr>"

lemma sixty_later: "saturating_add 5 (advance_delta (from_secs 60)) = (60000000005 :: u64)"
  by (rule word_eq_unatI) (simp add: unat_saturating_add unat_advance_delta)

lemma raced_clock_reachable: "clock_reachable raced_clock"
proof -
  note eval = fake_clock_set_def fake_clock_now_def sixty_later
  have r0: "clock_reachable \<lparr>cell = 0, clock_calls = Map.empty, clock_log = []\<rparr>"
    using clock_reachable.start by (simp add: clock_init_def fake_clock_new_def)
  have r1: "clock_reachable \<lparr>cell = 0, clock_calls = [0 \<mapsto> Ready (AdvanceBy (from_secs 60))],
      clock_log = [Invoke 0 (AdvanceBy (from_secs 60))]\<rparr>"
    using clock_reachable.step [OF r0 clock_step.invoke [of _ 0 "AdvanceBy (from_secs 60)"]] by (simp add: eval)
  have r2: "clock_reachable \<lparr>cell = 0, clock_calls = [0 \<mapsto> Exchange (from_secs 60) 0],
      clock_log = [Invoke 0 (AdvanceBy (from_secs 60))]\<rparr>"
    using clock_reachable.step [OF r1 clock_step.load [of _ 0 "from_secs 60"]] by (simp add: eval)
  have r3: "clock_reachable \<lparr>cell = 0, clock_calls = [0 \<mapsto> Exchange (from_secs 60) 0, 1 \<mapsto> Ready (SetTo 5)],
      clock_log = [Invoke 1 (SetTo 5), Invoke 0 (AdvanceBy (from_secs 60))]\<rparr>"
    using clock_reachable.step [OF r2 clock_step.invoke [of _ 1 "SetTo 5"]] by (simp add: eval)
  have r4: "clock_reachable \<lparr>cell = 5, clock_calls = [0 \<mapsto> Exchange (from_secs 60) 0, 1 \<mapsto> Returning (SetTo 5) None],
      clock_log = [Invoke 1 (SetTo 5), Invoke 0 (AdvanceBy (from_secs 60))]\<rparr>"
    using clock_reachable.step [OF r3 clock_step.store [of _ 1 5]] by (simp add: eval)
  have r5: "clock_reachable \<lparr>cell = 5, clock_calls = [0 \<mapsto> Exchange (from_secs 60) 0, 1 \<mapsto> Returned (SetTo 5) None],
      clock_log = [Respond 1 None, Invoke 1 (SetTo 5), Invoke 0 (AdvanceBy (from_secs 60))]\<rparr>"
    using clock_reachable.step [OF r4 clock_step.respond [of _ 1 "SetTo 5" None]] by (simp add: eval)
  have r6: "clock_reachable \<lparr>cell = 5, clock_calls = [0 \<mapsto> Exchange (from_secs 60) 0, 1 \<mapsto> Returned (SetTo 5) None, 0 \<mapsto> Exchange (from_secs 60) 5],
      clock_log = [Respond 1 None, Invoke 1 (SetTo 5), Invoke 0 (AdvanceBy (from_secs 60))]\<rparr>"
    using clock_reachable.step [OF r5 clock_step.exchange_fail [of _ 0 "from_secs 60" 0]] by (simp add: eval)
  have r7: "clock_reachable \<lparr>cell = 5, clock_calls = [0 \<mapsto> Exchange (from_secs 60) 0, 1 \<mapsto> Returned (SetTo 5) None, 0 \<mapsto> Exchange (from_secs 60) 5, 2 \<mapsto> Ready ReadNow],
      clock_log = [Invoke 2 ReadNow, Respond 1 None, Invoke 1 (SetTo 5), Invoke 0 (AdvanceBy (from_secs 60))]\<rparr>"
    using clock_reachable.step [OF r6 clock_step.invoke [of _ 2 ReadNow]] by (simp add: eval)
  have r8: "clock_reachable \<lparr>cell = 60000000005, clock_calls = [0 \<mapsto> Exchange (from_secs 60) 0, 1 \<mapsto> Returned (SetTo 5) None, 0 \<mapsto> Exchange (from_secs 60) 5, 2 \<mapsto> Ready ReadNow, 0 \<mapsto> Returning (AdvanceBy (from_secs 60)) None],
      clock_log = [Invoke 2 ReadNow, Respond 1 None, Invoke 1 (SetTo 5), Invoke 0 (AdvanceBy (from_secs 60))]\<rparr>"
    using clock_reachable.step [OF r7 clock_step.exchange_ok [of _ 0 "from_secs 60" 5]] by (simp add: eval)
  have r9: "clock_reachable \<lparr>cell = 60000000005, clock_calls = [0 \<mapsto> Exchange (from_secs 60) 0, 1 \<mapsto> Returned (SetTo 5) None, 0 \<mapsto> Exchange (from_secs 60) 5, 2 \<mapsto> Ready ReadNow, 0 \<mapsto> Returned (AdvanceBy (from_secs 60)) None],
      clock_log = [Respond 0 None, Invoke 2 ReadNow, Respond 1 None, Invoke 1 (SetTo 5), Invoke 0 (AdvanceBy (from_secs 60))]\<rparr>"
    using clock_reachable.step [OF r8 clock_step.respond [of _ 0 "AdvanceBy (from_secs 60)" None]] by (simp add: eval)
  have r10: "clock_reachable \<lparr>cell = 60000000005, clock_calls = [0 \<mapsto> Exchange (from_secs 60) 0, 1 \<mapsto> Returned (SetTo 5) None, 0 \<mapsto> Exchange (from_secs 60) 5, 2 \<mapsto> Ready ReadNow, 0 \<mapsto> Returned (AdvanceBy (from_secs 60)) None, 2 \<mapsto> Returning ReadNow (Some 60000000005)],
      clock_log = [Respond 0 None, Invoke 2 ReadNow, Respond 1 None, Invoke 1 (SetTo 5), Invoke 0 (AdvanceBy (from_secs 60))]\<rparr>"
    using clock_reachable.step [OF r9 clock_step.read [of _ 2]] by (simp add: eval)
  have r11: "clock_reachable \<lparr>cell = 60000000005, clock_calls = [0 \<mapsto> Exchange (from_secs 60) 0, 1 \<mapsto> Returned (SetTo 5) None, 0 \<mapsto> Exchange (from_secs 60) 5, 2 \<mapsto> Ready ReadNow, 0 \<mapsto> Returned (AdvanceBy (from_secs 60)) None, 2 \<mapsto> Returned ReadNow (Some 60000000005)],
      clock_log = [Respond 2 (Some 60000000005), Respond 0 None, Invoke 2 ReadNow, Respond 1 None, Invoke 1 (SetTo 5), Invoke 0 (AdvanceBy (from_secs 60))]\<rparr>"
    using clock_reachable.step [OF r10 clock_step.respond [of _ 2 ReadNow "Some 60000000005"]] by (simp add: eval)
  then show ?thesis unfolding raced_clock_def .
qed

section \<open>Properties\<close>

text \<open>C38: \<open>FakeClock\<close> is linearizable. Take any execution of any number of concurrent calls of \<open>advance\<close>,
  \<open>set\<close> and \<open>now\<close>. There is an order of calls in which every call that returned is exactly once, with some of those still
  running and no others, each with the operation it was made with; a call that returned before another was
  made comes before it; and made one at a time in this order on a new clock, the calls return what they
  returned and leave the clock at the value it has. No concurrent \<open>advance\<close> is lost.\<close>

theorem fake_clock_linearizable:
  assumes "clock_reachable s"
  shows "\<exists>ops. distinct (map fst ops) \<and>
    (\<forall>(i, op, v) \<in> set ops. Invoke i op \<in> set (clock_log s)) \<and>
    (\<forall>i v. Respond i v \<in> set (clock_log s) \<longrightarrow> (\<exists>op. (i, op, v) \<in> set ops)) \<and>
    (\<forall>i j. returned_before (clock_log s) i j \<and> j \<in> fst ` set ops \<longrightarrow>
      i \<in> set (takeWhile (\<lambda>k. k \<noteq> j) (map fst ops))) \<and>
    runs_sequentially ops fake_clock_new (cell s)"
  using clock_reachable_ordered [OF assms] unfolding ordered_by_def explains_def by blast

text \<open>In the run above the read comes last: it was made after the \<open>set\<close> had returned.\<close>

theorem fake_clock_linearizable_witness:
  "\<exists>ops. runs_sequentially ops fake_clock_new 60000000005 \<and> (\<exists>op. (0, op, None) \<in> set ops) \<and>
    (\<exists>op. (2, op, Some 60000000005) \<in> set ops \<and> 1 \<in> set (takeWhile (\<lambda>k. k \<noteq> 2) (map fst ops)))"
proof -
  obtain ops where o: "\<forall>i v. Respond i v \<in> set (clock_log raced_clock) \<longrightarrow> (\<exists>op. (i, op, v) \<in> set ops)"
    "\<forall>i j. returned_before (clock_log raced_clock) i j \<and> j \<in> fst ` set ops \<longrightarrow>
      i \<in> set (takeWhile (\<lambda>k. k \<noteq> j) (map fst ops))"
    "runs_sequentially ops fake_clock_new (cell raced_clock)"
    using fake_clock_linearizable [OF raced_clock_reachable] by blast
  obtain op0 op2 where "(0, op0, None) \<in> set ops" and op2: "(2, op2, Some 60000000005) \<in> set ops"
    using o(1) by (force simp: raced_clock_def)
  moreover have "2 \<in> fst ` set ops" using op2 by force
  then have "1 \<in> set (takeWhile (\<lambda>k. k \<noteq> 2) (map fst ops))"
    using o(2) by (simp add: raced_clock_def)
  moreover have "runs_sequentially ops fake_clock_new 60000000005" using o(3) by (simp add: raced_clock_def)
  ultimately show ?thesis by blast
qed

end
