(* ===== verification/Rate_Tier.thy ===== *)
theory Rate_Tier
  imports Memory_Storage Clock Text_Format
begin

text \<open>
  \<open>src/tier.rs\<close>, with the policies \<open>src/on_missing.rs\<close> and \<open>src/on_unknown_tier.rs\<close> it stores: the
  builder, what \<open>build\<close> makes of it, the lazily started garbage collector, the getters and the
  programmatic \<open>check\<close>.

  The storage is either the built-in \<open>MemoryStorage\<close>, which the collector shares, or a custom one, whose state
  \<open>'c\<close> and operation are parameters; so is a custom clock (\<open>'k\<close>, read by a function argument) and
  whether a Tokio runtime is available where an operation runs.

  The builder's calls are a state machine of its own (\<open>builder_op\<close>): every configuration it can
  reach is accepted or refused by \<open>build\<close> as documented, and what it builds satisfies
  \<open>rate_tier_ok\<close>, from which the totality and the outcomes of \<open>check\<close> follow.
\<close>

section \<open>Policies\<close>

type_synonym status_code = "16 word"

definition FORBIDDEN :: status_code where
  "FORBIDDEN = 403"

datatype on_missing = MissingUseDefault | MissingAllow | MissingDeny status_code

definition on_missing_default :: on_missing where
  "on_missing_default = MissingUseDefault"

datatype on_unknown_tier = UnknownUseDefault | UnknownDeny status_code | UnknownAllow

definition on_unknown_tier_default :: on_unknown_tier where
  "on_unknown_tier_default = UnknownUseDefault"

section \<open>Errors of a check\<close>

datatype check_error =
    UnknownTier rstring
  | StorageFailed storage_error
  | CostExceedsLimit u32 u32

fun display_check_error :: "check_error \<Rightarrow> rstring" where
  "display_check_error (UnknownTier name) = lit ''unknown tier: '' @ name"
| "display_check_error (StorageFailed err) = display_storage_error err"
| "display_check_error (CostExceedsLimit cost limit) =
     lit ''request cost '' @ decimal (unat cost) @ lit '' exceeds the tier limit of '' @ decimal (unat limit)"

fun check_error_source :: "check_error \<Rightarrow> storage_error option" where
  "check_error_source (UnknownTier _) = None"
| "check_error_source (CostExceedsLimit _ _) = None"
| "check_error_source (StorageFailed err) = Some err"

definition check_error_from :: "storage_error \<Rightarrow> check_error" where
  "check_error_from err = StorageFailed err"

section \<open>State\<close>

datatype 'c backend = BuiltIn memory_storage | Custom 'c

datatype 'k clock_ref = SystemClock | CustomClock 'k

text \<open>\<open>LazyGc\<close>: its storage is the built-in one of the same limiter; \<open>gc_started\<close> says whether the
  handle has been set.\<close>

record lazy_gc =
  lazy_interval :: duration
  gc_started :: bool

record ('k, 'c) rate_tier =
  tiers :: "rstring \<rightharpoonup> quota"
  default_tier :: "rstring option"
  on_missing :: on_missing
  on_unknown_tier :: on_unknown_tier
  storage :: "'c backend"
  clock :: "'k clock_ref"
  gc :: "lazy_gc option"

record ('k, 'c) rate_tier_builder =
  b_tiers :: "rstring \<rightharpoonup> quota"
  b_default_tier :: "rstring option"
  b_on_missing :: on_missing
  b_on_unknown_tier :: on_unknown_tier
  b_clock :: "'k option"
  b_storage :: "'c option"
  gc_interval :: duration
  gc_enabled :: bool

section \<open>Builder\<close>

definition builder_default :: "('k, 'c) rate_tier_builder" where
  "builder_default =
     \<lparr>b_tiers = Map.empty, b_default_tier = None, b_on_missing = on_missing_default,
      b_on_unknown_tier = on_unknown_tier_default, b_clock = None, b_storage = None,
      gc_interval = from_secs 60, gc_enabled = True\<rparr>"

definition builder :: "('k, 'c) rate_tier_builder" where
  "builder = builder_default"

definition set_tier :: "rstring \<Rightarrow> quota \<Rightarrow> ('k, 'c) rate_tier_builder \<Rightarrow> ('k, 'c) rate_tier_builder" where
  "set_tier name quota b = b\<lparr>b_tiers := (b_tiers b)(name \<mapsto> quota)\<rparr>"

definition set_default_tier :: "rstring \<Rightarrow> ('k, 'c) rate_tier_builder \<Rightarrow> ('k, 'c) rate_tier_builder" where
  "set_default_tier name b = b\<lparr>b_default_tier := Some name\<rparr>"

definition set_on_missing :: "on_missing \<Rightarrow> ('k, 'c) rate_tier_builder \<Rightarrow> ('k, 'c) rate_tier_builder" where
  "set_on_missing p b = b\<lparr>b_on_missing := p\<rparr>"

definition set_on_unknown_tier ::
  "on_unknown_tier \<Rightarrow> ('k, 'c) rate_tier_builder \<Rightarrow> ('k, 'c) rate_tier_builder" where
  "set_on_unknown_tier p b = b\<lparr>b_on_unknown_tier := p\<rparr>"

definition set_clock :: "'k \<Rightarrow> ('k, 'c) rate_tier_builder \<Rightarrow> ('k, 'c) rate_tier_builder" where
  "set_clock c b = b\<lparr>b_clock := Some c\<rparr>"

definition set_storage :: "'c \<Rightarrow> ('k, 'c) rate_tier_builder \<Rightarrow> ('k, 'c) rate_tier_builder" where
  "set_storage st b = b\<lparr>b_storage := Some st, gc_enabled := False\<rparr>"

definition set_gc_interval ::
  "duration \<Rightarrow> ('k, 'c) rate_tier_builder \<Rightarrow> ('k, 'c) rate_tier_builder exec" where
  "set_gc_interval interval b =
     assert_exec (\<not> is_zero interval) ''gc interval must be non-zero''
       (Done (b\<lparr>gc_interval := interval, gc_enabled := True\<rparr>))"

definition disable_gc :: "('k, 'c) rate_tier_builder \<Rightarrow> ('k, 'c) rate_tier_builder" where
  "disable_gc b = b\<lparr>gc_enabled := False\<rparr>"

section \<open>Garbage collector start\<close>

definition ensure_started :: "bool \<Rightarrow> lazy_gc \<Rightarrow> lazy_gc exec" where
  "ensure_started in_runtime g =
     (if \<not> gc_started g \<and> in_runtime
      then map_exec (\<lambda>_. g\<lparr>gc_started := True\<rparr>) (gc_spawn (lazy_interval g))
      else Done g)"

definition start_gc :: "bool \<Rightarrow> ('k, 'c) rate_tier \<Rightarrow> ('k, 'c) rate_tier exec" where
  "start_gc in_runtime rt =
     (case gc rt of
        None \<Rightarrow> Done rt
      | Some g \<Rightarrow> map_exec (\<lambda>g'. rt\<lparr>gc := Some g'\<rparr>) (ensure_started in_runtime g))"

section \<open>Build\<close>

definition build :: "bool \<Rightarrow> ('k, 'c) rate_tier_builder \<Rightarrow> ('k, 'c) rate_tier exec" where
  "build in_runtime b =
     assert_exec (dom (b_tiers b) \<noteq> {}) ''at least one tier must be defined'' (
     assert_exec (case b_default_tier b of None \<Rightarrow> True | Some d \<Rightarrow> b_tiers b d \<noteq> None)
       ''default tier does not exist in defined tiers'' (
     let clk = (case b_clock b of Some c \<Rightarrow> CustomClock c | None \<Rightarrow> SystemClock);
         (st, g) = (case b_storage b of
            Some custom \<Rightarrow> (Custom custom, None)
          | None \<Rightarrow> (BuiltIn memory_new,
                     if gc_enabled b then Some \<lparr>lazy_interval = gc_interval b, gc_started = False\<rparr>
                     else None))
     in start_gc in_runtime
          \<lparr>tiers = b_tiers b, default_tier = b_default_tier b, on_missing = b_on_missing b,
           on_unknown_tier = b_on_unknown_tier b, storage = st, clock = clk, gc = g\<rparr>))"

section \<open>Getters and check\<close>

definition get_quota :: "('k, 'c) rate_tier \<Rightarrow> rstring \<Rightarrow> quota option" where
  "get_quota rt tier_name = tiers rt tier_name"

text \<open>\<open>RateTier::storage\<close> starts the collector before it returns the storage, which the caller then
  uses: \<open>use_storage\<close> is one \<open>check_and_update\<close> on the returned reference.\<close>

fun backend_op :: "'c storage_op \<Rightarrow> 'c backend storage_op" where
  "backend_op custom_op (BuiltIn m) key quota cost now =
     map_exec (\<lambda>(r, m'). (r, BuiltIn m')) (memory_check_and_update m key quota cost now)"
| "backend_op custom_op (Custom c) key quota cost now =
     map_exec (\<lambda>(r, c'). (r, Custom c')) (custom_op c key quota cost now)"

definition use_storage :: "'c storage_op \<Rightarrow> bool \<Rightarrow> ('k, 'c) rate_tier storage_op" where
  "use_storage custom_op in_runtime rt key quota cost now =
     bind_exec (start_gc in_runtime rt) (\<lambda>rt1.
     map_exec (\<lambda>(r, st). (r, rt1\<lparr>storage := st\<rparr>)) (backend_op custom_op (storage rt1) key quota cost now))"

definition check ::
  "'c storage_op \<Rightarrow> ('k clock_ref \<Rightarrow> nanos) \<Rightarrow> bool \<Rightarrow> ('k, 'c) rate_tier \<Rightarrow> rstring \<Rightarrow> rstring \<Rightarrow> u32
    \<Rightarrow> ((decision, check_error) result \<times> ('k, 'c) rate_tier) exec" where
  "check custom_op clock_now in_runtime rt user_id tier_name cost =
     (case tiers rt tier_name of
        None \<Rightarrow> Done (Err (UnknownTier tier_name), rt)
      | Some quota \<Rightarrow>
          if is_unlimited quota then
            Done (Ok (Ok \<lparr>info_limit = 0, remaining = 0, info_reset_after = zero_duration\<rparr>), rt)
          else if cost > max_burst quota then
            Done (Err (CostExceedsLimit cost (max_burst quota)), rt)
          else
            let now = clock_now (clock rt); key = storage_key_new user_id tier_name in
            map_exec (\<lambda>(r, rt'). (map_result id check_error_from r, rt'))
              (use_storage custom_op in_runtime rt key quota cost now))"

text \<open>The collector's task: once started, it collects at every tick.\<close>

definition background_tick :: "nanos \<Rightarrow> ('k, 'c) rate_tier \<Rightarrow> ('k, 'c) rate_tier" where
  "background_tick now rt =
     (case (gc rt, storage rt) of
        (Some g, BuiltIn m) \<Rightarrow> if gc_started g then rt\<lparr>storage := BuiltIn (gc_tick m now)\<rparr> else rt
      | _ \<Rightarrow> rt)"

section \<open>Calls of the builder\<close>

datatype ('k, 'c) builder_op =
    OpTier rstring quota
  | OpDefaultTier rstring
  | OpOnMissing on_missing
  | OpOnUnknownTier on_unknown_tier
  | OpClock 'k
  | OpStorage 'c
  | OpGcInterval duration
  | OpDisableGc

fun apply_builder_op ::
  "('k, 'c) builder_op \<Rightarrow> ('k, 'c) rate_tier_builder \<Rightarrow> ('k, 'c) rate_tier_builder exec" where
  "apply_builder_op (OpTier name quota) b = Done (set_tier name quota b)"
| "apply_builder_op (OpDefaultTier name) b = Done (set_default_tier name b)"
| "apply_builder_op (OpOnMissing p) b = Done (set_on_missing p b)"
| "apply_builder_op (OpOnUnknownTier p) b = Done (set_on_unknown_tier p b)"
| "apply_builder_op (OpClock c) b = Done (set_clock c b)"
| "apply_builder_op (OpStorage st) b = Done (set_storage st b)"
| "apply_builder_op (OpGcInterval d) b = set_gc_interval d b"
| "apply_builder_op OpDisableGc b = Done (disable_gc b)"

fun run_builder ::
  "('k, 'c) builder_op list \<Rightarrow> ('k, 'c) rate_tier_builder \<Rightarrow> ('k, 'c) rate_tier_builder exec" where
  "run_builder [] b = Done b"
| "run_builder (op # ops) b = bind_exec (apply_builder_op op b) (run_builder ops)"

lemmas builder_setters =
  set_tier_def set_default_tier_def set_on_missing_def set_on_unknown_tier_def set_clock_def
  set_storage_def set_gc_interval_def disable_gc_def

section \<open>Invariants\<close>

text \<open>The builder's interval is never zero, and its quotas are those of the quota constructors.\<close>

definition builder_ok :: "('k, 'c) rate_tier_builder \<Rightarrow> bool" where
  "builder_ok b \<longleftrightarrow> \<not> is_zero (gc_interval b) \<and> (\<forall>name q. b_tiers b name = Some q \<longrightarrow> quota_ok q)"

fun op_quota_ok :: "('k, 'c) builder_op \<Rightarrow> bool" where
  "op_quota_ok (OpTier _ q) = quota_ok q"
| "op_quota_ok _ = True"

text \<open>What \<open>build\<close> establishes and every later operation keeps.\<close>

definition rate_tier_ok :: "('k, 'c) rate_tier \<Rightarrow> bool" where
  "rate_tier_ok rt \<longleftrightarrow>
     dom (tiers rt) \<noteq> {} \<and> (\<forall>name q. tiers rt name = Some q \<longrightarrow> quota_ok q) \<and>
     (\<forall>d. default_tier rt = Some d \<longrightarrow> d \<in> dom (tiers rt)) \<and>
     (\<forall>g. gc rt = Some g \<longrightarrow> \<not> is_zero (lazy_interval g) \<and> (\<exists>m. storage rt = BuiltIn m))"

lemma builder_ok_default: "builder_ok builder"
  by (simp add: builder_ok_def builder_def builder_default_def is_zero_iff)

lemma apply_builder_op_ok:
  "apply_builder_op op b = Done b' \<Longrightarrow> builder_ok b \<Longrightarrow> op_quota_ok op \<Longrightarrow> builder_ok b'"
  by (cases op) (auto simp: builder_ok_def builder_setters assert_exec_def split: if_splits)

lemma run_builder_ok:
  "run_builder ops b = Done b' \<Longrightarrow> builder_ok b \<Longrightarrow> \<forall>op \<in> set ops. op_quota_ok op \<Longrightarrow> builder_ok b'"
  by (induction ops b rule: run_builder.induct)
    (auto simp: bind_exec_Done_iff dest: apply_builder_op_ok)

text \<open>A custom storage stays set, whatever is called after it.\<close>

lemma apply_builder_op_storage:
  "apply_builder_op op b = Done b' \<Longrightarrow> b_storage b \<noteq> None \<or> (\<exists>st. op = OpStorage st) \<Longrightarrow> b_storage b' \<noteq> None"
  by (cases op) (auto simp: builder_setters assert_exec_def split: if_splits)

lemma run_builder_storage:
  "run_builder ops b = Done b' \<Longrightarrow> b_storage b \<noteq> None \<or> (\<exists>st. OpStorage st \<in> set ops) \<Longrightarrow> b_storage b' \<noteq> None"
proof (induction ops arbitrary: b)
  case (Cons op ops)
  then obtain b1 where b1: "apply_builder_op op b = Done b1" "run_builder ops b1 = Done b'"
    by (auto simp: bind_exec_Done_iff)
  show ?case
    using Cons.IH [OF b1(2)] apply_builder_op_storage [OF b1(1)] Cons.prems(2) by fastforce
qed simp

lemma start_gc_ok:
  assumes "\<forall>g. gc rt = Some g \<longrightarrow> \<not> is_zero (lazy_interval g)"
  shows "start_gc in_runtime rt =
    Done (rt\<lparr>gc := map_option (\<lambda>g. g\<lparr>gc_started := gc_started g \<or> in_runtime\<rparr>) (gc rt)\<rparr>)"
  using assms
  by (cases "gc rt") (auto simp: start_gc_def ensure_started_def gc_spawn_def)

lemma use_storage_ok:
  assumes "rate_tier_ok rt"
  shows "use_storage custom_op in_runtime rt key q cost now =
    map_exec (\<lambda>(r, st). (r, rt\<lparr>gc := map_option (\<lambda>g. g\<lparr>gc_started := gc_started g \<or> in_runtime\<rparr>) (gc rt),
        storage := st\<rparr>))
      (backend_op custom_op (storage rt) key q cost now)"
  using assms by (simp add: use_storage_def start_gc_ok rate_tier_ok_def)

lemma tier_quota_ok: "rate_tier_ok rt \<Longrightarrow> tiers rt name = Some q \<Longrightarrow> quota_ok q"
  by (auto simp: rate_tier_ok_def)

section \<open>Checks on the built-in storage\<close>

text \<open>The limiter after a check that reached the built-in storage.\<close>

abbreviation after_use :: "bool \<Rightarrow> ('k, 'c) rate_tier \<Rightarrow> memory_storage \<Rightarrow> ('k, 'c) rate_tier" where
  "after_use in_runtime rt m \<equiv> rt\<lparr>gc := map_option (\<lambda>g. g\<lparr>gc_started := gc_started g \<or> in_runtime\<rparr>) (gc rt), storage := BuiltIn m\<rparr>"

lemma rate_tier_ok_after_use: "rate_tier_ok rt \<Longrightarrow> rate_tier_ok (after_use in_runtime rt m)"
  by (auto simp: rate_tier_ok_def)

lemma check_built_in:
  assumes "rate_tier_ok rt" "storage rt = BuiltIn m" "tiers rt tier_name = Some q"
    and "\<not> is_unlimited q" "cost \<le> max_burst q"
  obtains d m' where
    "memory_check_and_update m (storage_key_new user_id tier_name) q cost (clock_now (clock rt)) = Done (Ok d, m')"
    "check custom_op clock_now in_runtime rt user_id tier_name cost = Done (Ok d, after_use in_runtime rt m')"
proof -
  have "limited_quota q" using tier_quota_ok [OF assms(1,3)] assms(4) by (simp add: limited_quota_def)
  then obtain d m' where
    "memory_check_and_update m (storage_key_new user_id tier_name) q cost (clock_now (clock rt)) = Done (Ok d, m')"
    by (cases rule: memory_check_cases [where m = m and key = "storage_key_new user_id tier_name"
          and now = "clock_now (clock rt)" and cost = cost])
  then show thesis
    using assms that by (simp add: check_def Let_def use_storage_ok)
qed

section \<open>Runs of checks\<close>

text \<open>The quota a configuration gives each key.\<close>

definition tier_quota :: "(rstring \<rightharpoonup> quota) \<Rightarrow> storage_key \<Rightarrow> quota" where
  "tier_quota ts key = the (ts (key_tier key))"

text \<open>Checks at given clock readings, with the collector's ticks between them.\<close>

fun allowed_check :: "(decision, check_error) result \<Rightarrow> bool" where
  "allowed_check (Ok (Ok _)) = True"
| "allowed_check _ = False"

fun check_run ::
  "'c storage_op \<Rightarrow> bool \<Rightarrow> ('k, 'c) rate_tier \<Rightarrow> storage_key store_event list
    \<Rightarrow> (storage_key \<times> cell_request \<times> bool) list" where
  "check_run custom_op in_runtime rt [] = []"
| "check_run custom_op in_runtime rt (Request key c t # es) =
     (case check custom_op (\<lambda>_. of_nat t) in_runtime rt (key_user key) (key_tier key) (of_nat c) of
        Done (r, rt') \<Rightarrow> (key, (c, t), allowed_check r) # check_run custom_op in_runtime rt' es
      | Panic _ \<Rightarrow> (key, (c, t), False) # check_run custom_op in_runtime rt es)"
| "check_run custom_op in_runtime rt (Maintain t # es) =
     check_run custom_op in_runtime (background_tick (of_nat t) rt) es"

lemma storage_key_eta: "storage_key_new (key_user k) (key_tier k) = k"
  by (simp add: storage_key_new_def)

lemma mem_step_over_burst:
  assumes "mem_valid Q key c t" "unat (max_burst (Q key)) < c"
  shows "mem_step Q m key c t = (False, m)"
  using assms(1)
proof (cases rule: mem_step_cases [where m = m])
  case Allowed
  have "ei_nat (Q key) * unat (max_burst (Q key)) < ei_nat (Q key) * c"
    using assms ei_nat_pos [of "Q key"] by (simp add: mem_valid_def)
  then have "bo_nat (Q key) < ei_nat (Q key) * c" unfolding bo_nat_def by linarith
  then show ?thesis
    using Allowed(2) by (simp add: gcra_conforms_def gcra_next_def)
qed

text \<open>One check is one step of the built-in store; it leaves the configuration as it was.\<close>

lemma check_is_mem_step:
  assumes "rate_tier_ok rt" "storage rt = BuiltIn m" "tiers rt (key_tier key) \<noteq> None"
    and "mem_valid (tier_quota (tiers rt)) key c t"
  obtains r rt' where
    "check custom_op (\<lambda>_. of_nat t) in_runtime rt (key_user key) (key_tier key) (of_nat c) = Done (r, rt')"
    "rate_tier_ok rt'" "tiers rt' = tiers rt"
    "storage rt' = BuiltIn (snd (mem_step (tier_quota (tiers rt)) m key c t))"
    "allowed_check r = fst (mem_step (tier_quota (tiers rt)) m key c t)"
proof -
  obtain q where q: "tiers rt (key_tier key) = Some q" using assms(3) by auto
  then have Q: "tier_quota (tiers rt) key = q" by (simp add: tier_quota_def)
  have nu: "\<not> is_unlimited q" and c: "unat (of_nat c :: u32) = c"
    using assms(4) Q by (auto simp: mem_valid_def limited_quota_def intro: unat_of_nat_u32)
  show thesis
  proof (cases "of_nat c \<le> max_burst q")
    case True
    obtain d m' where
      mem: "memory_check_and_update m (storage_key_new (key_user key) (key_tier key)) q (of_nat c) (of_nat t)
        = Done (Ok d, m')" and
      chk: "check custom_op (\<lambda>_. of_nat t) in_runtime rt (key_user key) (key_tier key) (of_nat c)
        = Done (Ok d, after_use in_runtime rt m')"
      by (rule check_built_in [OF assms(1,2) q nu True, where clock_now = "\<lambda>_. of_nat t"])
    have "mem_step (tier_quota (tiers rt)) m key c t = (allowed_check (Ok d), m')"
      using mem Q by (cases d) (simp_all add: mem_step_def storage_key_eta)
    then show ?thesis using rate_tier_ok_after_use [OF assms(1)] by (intro that [OF chk]) simp_all
  next
    case False
    then have chk: "check custom_op (\<lambda>_. of_nat t) in_runtime rt (key_user key) (key_tier key) (of_nat c)
        = Done (Err (CostExceedsLimit (of_nat c) (max_burst q)), rt)"
      using q nu by (simp add: check_def not_le)
    have "mem_step (tier_quota (tiers rt)) m key c t = (False, m)"
      using False c Q by (intro mem_step_over_burst assms(4)) (simp add: word_le_nat_alt)
    then show ?thesis using assms(1,2) by (intro that [OF chk]) simp_all
  qed
qed

lemma check_run_refines:
  assumes "rate_tier_ok rt" "storage rt = BuiltIn m"
    and "\<forall>k c t. Request k c t \<in> set es \<longrightarrow> tiers rt (key_tier k) \<noteq> None \<and> mem_valid (tier_quota (tiers rt)) k c t"
    and "sorted (map event_time es)"
  shows "\<exists>es'. set es' \<subseteq> set es \<and> sorted (map event_time es') \<and>
    check_run custom_op in_runtime rt es = store_run (mem_step (tier_quota (tiers rt))) mem_tick m es'"
  using assms
proof (induction es arbitrary: rt m)
  case (Cons e es)
  have prems: "\<forall>k c t. Request k c t \<in> set es \<longrightarrow> tiers rt (key_tier k) \<noteq> None \<and>
      mem_valid (tier_quota (tiers rt)) k c t" "sorted (map event_time es)"
    using Cons.prems(3,4) by auto
  show ?case
  proof (cases e)
    case (Request key c t)
    have "tiers rt (key_tier key) \<noteq> None" "mem_valid (tier_quota (tiers rt)) key c t"
      using Cons.prems(3) Request by auto
    then obtain r rt' where chk:
      "check custom_op (\<lambda>_. of_nat t) in_runtime rt (key_user key) (key_tier key) (of_nat c) = Done (r, rt')"
      "rate_tier_ok rt'" "tiers rt' = tiers rt"
      "storage rt' = BuiltIn (snd (mem_step (tier_quota (tiers rt)) m key c t))"
      "allowed_check r = fst (mem_step (tier_quota (tiers rt)) m key c t)"
      using check_is_mem_step [OF Cons.prems(1,2)] by metis
    obtain es' where es': "set es' \<subseteq> set es" "sorted (map event_time es')"
      "check_run custom_op in_runtime rt' es
        = store_run (mem_step (tier_quota (tiers rt))) mem_tick
            (snd (mem_step (tier_quota (tiers rt)) m key c t)) es'"
      using Cons.IH [OF chk(2,4), unfolded chk(3), OF prems] by blast
    then show ?thesis
      using Request chk Cons.prems(4)
      by (intro exI [of _ "Request key c t # es'"]) (auto split: prod.splits)
  next
    case (Maintain t)
    show ?thesis
    proof (cases "background_tick (of_nat t) rt = rt")
      case True
      then show ?thesis using Cons.IH [OF Cons.prems(1,2) prems] Maintain by auto
    next
      case False
      then have bt: "background_tick (of_nat t) rt = rt\<lparr>storage := BuiltIn (mem_tick m t)\<rparr>"
        using Cons.prems(2)
        by (auto simp: background_tick_def mem_tick_def split: option.splits if_splits)
      have ok: "rate_tier_ok (rt\<lparr>storage := BuiltIn (mem_tick m t)\<rparr>)"
        using Cons.prems(1) by (auto simp: rate_tier_ok_def)
      have same: "tiers (rt\<lparr>storage := BuiltIn (mem_tick m t)\<rparr>) = tiers rt" by simp
      obtain es' where "set es' \<subseteq> set es" "sorted (map event_time es')"
        "check_run custom_op in_runtime (rt\<lparr>storage := BuiltIn (mem_tick m t)\<rparr>) es
          = store_run (mem_step (tier_quota (tiers rt))) mem_tick (mem_tick m t) es'"
        using Cons.IH [of "rt\<lparr>storage := BuiltIn (mem_tick m t)\<rparr>" "mem_tick m t",
            unfolded same, OF ok _ prems] by auto
      then show ?thesis
        using Maintain bt Cons.prems(4) by (intro exI [of _ "Maintain t # es'"]) auto
    qed
  qed
qed simp

section \<open>Properties\<close>

text \<open>A configuration for the witnesses.\<close>

definition demo_ops :: "(unit, unit) builder_op list" where
  "demo_ops = [OpTier (lit ''free'') three_per_minute, OpTier (lit ''enterprise'') unlimited,
     OpDefaultTier (lit ''free'')]"

definition demo_builder :: "(unit, unit) rate_tier_builder" where
  "demo_builder = builder\<lparr>b_tiers := [lit ''free'' \<mapsto> three_per_minute, lit ''enterprise'' \<mapsto> unlimited],
     b_default_tier := Some (lit ''free'')\<rparr>"

definition demo_rate_tier :: "(unit, unit) rate_tier" where
  "demo_rate_tier = \<lparr>tiers = [lit ''free'' \<mapsto> three_per_minute, lit ''enterprise'' \<mapsto> unlimited],
     default_tier = Some (lit ''free''), on_missing = MissingUseDefault,
     on_unknown_tier = UnknownUseDefault, storage = BuiltIn memory_new, clock = SystemClock,
     gc = Some \<lparr>lazy_interval = from_secs 60, gc_started = False\<rparr>\<rparr>"

definition demo_custom :: "unit storage_op" where
  "demo_custom c key q cost now = Done (Err (StorageError (lit ''down'')), c)"

lemma unlimited_ok: "quota_ok unlimited"
  by (simp add: quota_ok_def unlimited_def is_unlimited_def)

lemma three_per_minute_ok: "quota_ok three_per_minute"
  using three_per_minute_limited by (simp add: limited_quota_def)

lemma demo_run: "run_builder demo_ops builder = Done demo_builder"
  by (simp add: demo_ops_def demo_builder_def set_tier_def set_default_tier_def builder_def builder_default_def)

lemma lit_eq_iff: "lit a = lit b \<longleftrightarrow> a = b"
  by (auto simp: lit_def inj_map_eq_map [OF inj_of_char])

lemma demo_rate_tier_ok: "rate_tier_ok demo_rate_tier"
  by (auto simp: rate_tier_ok_def demo_rate_tier_def is_zero_iff three_per_minute_ok unlimited_ok
      split: if_splits)

text \<open>C34: what \<open>build\<close> accepts. After any sequence of builder calls that returned, with quotas made by
  the quota constructors, \<open>build\<close> panics exactly when no tier is defined or the default tier is not
  one of them. Otherwise it returns a limiter with the configured tiers, default and policies whose
  default tier exists, whose storage is the custom one or an empty built-in one, and which has a
  collector exactly when the storage is built in and collection is enabled; the collector has a
  non-zero interval and is already running exactly when a runtime was available.\<close>

theorem build_outcome:
  assumes "run_builder ops builder = Done b" "\<forall>op \<in> set ops. op_quota_ok op"
  shows "if dom (b_tiers b) = {} \<or> (\<exists>d. b_default_tier b = Some d \<and> d \<notin> dom (b_tiers b))
    then \<not> returns (build in_runtime b)
    else \<exists>rt. build in_runtime b = Done rt \<and> rate_tier_ok rt \<and>
      tiers rt = b_tiers b \<and> default_tier rt = b_default_tier b \<and>
      on_missing rt = b_on_missing b \<and> on_unknown_tier rt = b_on_unknown_tier b \<and>
      storage rt = (case b_storage b of None \<Rightarrow> BuiltIn memory_new | Some st \<Rightarrow> Custom st) \<and>
      gc rt = (if b_storage b = None \<and> gc_enabled b
               then Some \<lparr>lazy_interval = gc_interval b, gc_started = in_runtime\<rparr> else None)"
proof -
  have ok: "builder_ok b" by (rule run_builder_ok [OF assms(1) builder_ok_default assms(2)])
  show ?thesis
  proof (cases "dom (b_tiers b) = {} \<or> (\<exists>d. b_default_tier b = Some d \<and> d \<notin> dom (b_tiers b))")
    case True
    then show ?thesis by (auto simp: build_def assert_exec_def split: option.splits)
  next
    case False
    then show ?thesis
      using ok by (auto simp: build_def assert_exec_def start_gc_ok rate_tier_ok_def builder_ok_def
          split: option.splits)
  qed
qed

theorem build_outcome_witness:
  "\<exists>rt. build False demo_builder = Done rt \<and> rate_tier_ok rt \<and> default_tier rt = Some (lit ''free'')"
  using build_outcome [OF demo_run, of False]
  by (auto simp: demo_ops_def three_per_minute_ok unlimited_ok demo_builder_def)

text \<open>A custom storage is never collected: once \<open>storage\<close> has been called, no order of
  \<open>gc_interval\<close>, \<open>disable_gc\<close> and other calls makes \<open>build\<close> attach a collector.\<close>

theorem custom_storage_never_collected:
  assumes "run_builder ops builder = Done b" "OpStorage st \<in> set ops" "build in_runtime b = Done rt"
  shows "gc rt = None \<and> (\<exists>st'. storage rt = Custom st')"
proof -
  obtain st' where "b_storage b = Some st'"
    using run_builder_storage [OF assms(1)] assms(2) by blast
  then show ?thesis
    using assms(3) by (auto simp: build_def assert_exec_def start_gc_def split: if_splits)
qed

theorem custom_storage_never_collected_witness:
  "\<exists>rt :: (unit, unit) rate_tier. build True (builder\<lparr>b_tiers := [lit ''free'' \<mapsto> three_per_minute],
      b_storage := Some (), gc_interval := from_secs 5, gc_enabled := True\<rparr>) = Done rt \<and> gc rt = None"
proof -
  let ?b = "builder\<lparr>b_tiers := [lit ''free'' \<mapsto> three_per_minute],
      b_storage := Some (), gc_interval := from_secs 5, gc_enabled := True\<rparr> :: (unit, unit) rate_tier_builder"
  have run: "run_builder [OpTier (lit ''free'') three_per_minute, OpStorage (), OpGcInterval (from_secs 5)]
      builder = Done ?b"
    by (simp add: set_tier_def set_storage_def set_gc_interval_def builder_def builder_default_def
        is_zero_iff)
  obtain rt where rt: "build True ?b = Done rt"
    by (simp add: build_def builder_def builder_default_def start_gc_def)
  show ?thesis
    using custom_storage_never_collected [OF run _ rt] rt by simp
qed

text \<open>The outcome of \<open>check\<close> on the built-in storage, for every built limiter, user, tier and cost.
  It always returns, and never with a storage error. An unknown tier, an unlimited tier and a cost
  above the tier's burst are answered without touching the limiter at all; every other request is
  decided by the storage under the key of that user and tier, and only the storage and the
  collector's start change.\<close>

theorem check_outcome_built_in:
  assumes "rate_tier_ok rt" "storage rt = BuiltIn m"
  shows "case tiers rt tier_name of
      None \<Rightarrow> check custom_op clock_now in_runtime rt user_id tier_name cost
        = Done (Err (UnknownTier tier_name), rt)
    | Some q \<Rightarrow>
        if is_unlimited q then \<exists>info. check custom_op clock_now in_runtime rt user_id tier_name cost
          = Done (Ok (Ok info), rt)
        else if max_burst q < cost then check custom_op clock_now in_runtime rt user_id tier_name cost
          = Done (Err (CostExceedsLimit cost (max_burst q)), rt)
        else \<exists>d m' rt'. memory_check_and_update m (storage_key_new user_id tier_name) q cost
            (clock_now (clock rt)) = Done (Ok d, m') \<and>
          check custom_op clock_now in_runtime rt user_id tier_name cost = Done (Ok d, rt') \<and>
          storage rt' = BuiltIn m' \<and> tiers rt' = tiers rt \<and> rate_tier_ok rt'"
proof (cases "tiers rt tier_name")
  case None
  then show ?thesis by (simp add: check_def)
next
  case (Some q)
  show ?thesis
  proof (cases "is_unlimited q \<or> max_burst q < cost")
    case True
    then show ?thesis using Some by (auto simp: check_def)
  next
    case False
    then have "\<not> is_unlimited q" "cost \<le> max_burst q" by auto
    then obtain d m' where
      "memory_check_and_update m (storage_key_new user_id tier_name) q cost (clock_now (clock rt)) = Done (Ok d, m')"
      "check custom_op clock_now in_runtime rt user_id tier_name cost = Done (Ok d, after_use in_runtime rt m')"
      by (rule check_built_in [OF assms Some])
    then show ?thesis using Some False rate_tier_ok_after_use [OF assms(1)] by simp
  qed
qed

theorem check_outcome_built_in_witness:
  "check demo_custom (\<lambda>_. 0) False demo_rate_tier (lit ''u1'') (lit ''free'') 4
    = Done (Err (CostExceedsLimit 4 3), demo_rate_tier)"
  using check_outcome_built_in [OF demo_rate_tier_ok, where m = memory_new and tier_name = "lit ''free''"
      and custom_op = demo_custom and clock_now = "\<lambda>_. 0" and in_runtime = False
      and user_id = "lit ''u1''" and cost = 4]
  by (simp add: demo_rate_tier_def lit_eq_iff three_per_minute_def is_unlimited_def)

text \<open>C1: the rate guarantee of \<open>RateTier::check\<close>. On a built limiter with a new built-in storage, take
  any sequence of checks by any users on limited tiers with any costs, at non-decreasing clock
  readings, with the collector's ticks at any points. For every user and tier and every segment of
  their consecutive checks, the emission interval times the cost allowed in the segment is at most
  the time it spans plus one burst.\<close>

theorem check_rate_guarantee:
  assumes "rate_tier_ok rt" "storage rt = BuiltIn memory_new" "sorted (map event_time es)"
    and "\<forall>k c t. Request k c t \<in> set es \<longrightarrow>
      tiers rt (key_tier k) \<noteq> None \<and> mem_valid (tier_quota (tiers rt)) k c t"
    and "check_run custom_op in_runtime rt es = trace" "0 < n" "i + n \<le> length (requests_of key trace)"
  shows "ei_nat (tier_quota (tiers rt) key) * admitted_cost (take n (drop i (requests_of key trace)))
      (take n (drop i (decisions_of key trace)))
    \<le> snd (requests_of key trace ! (i + n - 1)) - snd (requests_of key trace ! i)
      + bo_nat (tier_quota (tiers rt) key)"
proof -
  obtain es' where "set es' \<subseteq> set es" "sorted (map event_time es')"
    and tr: "trace = store_run (mem_step (tier_quota (tiers rt))) mem_tick memory_new es'"
    using check_run_refines [OF assms(1,2,4,3)] assms(5) by metis
  then have "mem.proper (tier_quota (tiers rt)) es'" using assms(4) by (auto simp: mem_proper_iff)
  then show ?thesis
    using mem.window_bound [of "tier_quota (tiers rt)" es' memory_new key n i] assms(6,7)
    by (simp add: tr)
qed

theorem check_rate_guarantee_witness:
  "20000000000 * admitted_cost [(1, 5), (2, 5), (1, 7)] (decisions_of demo_key
      (check_run demo_custom False demo_rate_tier demo_events))
    \<le> 7 - 5 + 60000000000"
proof -
  have key: "key_tier demo_key = lit ''free''" by (simp add: demo_key_def storage_key_new_def)
  have ts: "tiers demo_rate_tier (lit ''free'') = Some three_per_minute"
    by (simp add: demo_rate_tier_def lit_eq_iff)
  have q: "tier_quota (tiers demo_rate_tier) demo_key = three_per_minute"
    by (simp add: tier_quota_def key ts)
  have st: "storage demo_rate_tier = BuiltIn memory_new" by (simp add: demo_rate_tier_def)
  have valid: "\<forall>k c t. Request k c t \<in> set demo_events \<longrightarrow> tiers demo_rate_tier (key_tier k) \<noteq> None \<and>
      mem_valid (tier_quota (tiers demo_rate_tier)) k c t"
    by (auto simp: demo_events_def mem_valid_def q key ts three_per_minute_limited three_per_minute_nat)
  have reqs: "requests_of demo_key (check_run demo_custom False demo_rate_tier demo_events) = [(1, 5), (2, 5), (1, 7)]"
    and len: "length (decisions_of demo_key (check_run demo_custom False demo_rate_tier demo_events)) = 3"
    by (simp_all add: demo_events_def split: exec.split)
  show ?thesis
    using check_rate_guarantee [OF demo_rate_tier_ok st demo_valid(1) valid refl,
        where n = 3 and i = 0 and key = demo_key and custom_op = demo_custom and in_runtime = False]
    by (simp add: q three_per_minute_nat reqs len)
qed

end
