(* ===== verification/Response.thy ===== *)
theory Response
  imports Gcra Json Rate_Tier
begin

text \<open>
  \<open>src/response.rs\<close>: the headers injected into an allowed response and the responses the middleware
  answers itself. The \<open>http\<close> crate is a parameter (\<open>http_lib\<close>): its header map \<open>'h\<close> with append (the
  response builder's \<open>header\<close>), insert and lookup, and the reason phrases. What is relied on is
  \<open>http_lib_ok\<close>: header names ignore the case of ASCII letters, append keeps earlier values, insert
  replaces them, and reason phrases need no JSON escape.
\<close>

section \<open>The http crate\<close>

record 'h http_lib =
  hm_empty :: 'h
  hm_append :: "rstring \<Rightarrow> rstring \<Rightarrow> 'h \<Rightarrow> 'h"
  hm_insert :: "rstring \<Rightarrow> rstring \<Rightarrow> 'h \<Rightarrow> 'h"
  hm_get_all :: "'h \<Rightarrow> rstring \<Rightarrow> rstring list"
  reason_phrase :: "status_code \<Rightarrow> rstring option"

definition ascii_lower :: "rstring \<Rightarrow> rstring" where
  "ascii_lower s = map (\<lambda>c. if 65 \<le> c \<and> c \<le> 90 then c + 32 else c) s"

definition http_lib_ok :: "'h http_lib \<Rightarrow> bool" where
  "http_lib_ok L \<longleftrightarrow>
     (\<forall>n. hm_get_all L (hm_empty L) n = []) \<and>
     (\<forall>n v h m. hm_get_all L (hm_append L n v h) m =
        (if ascii_lower m = ascii_lower n then hm_get_all L h m @ [v] else hm_get_all L h m)) \<and>
     (\<forall>n v h m. hm_get_all L (hm_insert L n v h) m =
        (if ascii_lower m = ascii_lower n then [v] else hm_get_all L h m)) \<and>
     (\<forall>st r. reason_phrase L st = Some r \<longrightarrow> plain r)"

record ('h, 'b) response =
  status :: status_code
  headers :: 'h
  body :: 'b

text \<open>\<open>Response::map\<close>, used to turn the text body into the service's body type.\<close>

definition map_response :: "('b \<Rightarrow> 'd) \<Rightarrow> ('h, 'b) response \<Rightarrow> ('h, 'd) response" where
  "map_response f r = \<lparr>status = status r, headers = headers r, body = f (body r)\<rparr>"

definition TOO_MANY_REQUESTS :: status_code where "TOO_MANY_REQUESTS = 429"
definition SERVICE_UNAVAILABLE :: status_code where "SERVICE_UNAVAILABLE = 503"
definition BAD_REQUEST :: status_code where "BAD_REQUEST = 400"

text \<open>\<open>Response::builder\<close> with a status, the headers in order, and a body.\<close>

definition build_response :: "'h http_lib \<Rightarrow> status_code \<Rightarrow> (rstring \<times> rstring) list \<Rightarrow> 'b \<Rightarrow> ('h, 'b) response" where
  "build_response L st hs b =
     \<lparr>status = st, headers = foldl (\<lambda>h (n, v). hm_append L n v h) (hm_empty L) hs, body = b\<rparr>"

abbreviation json_header :: "rstring \<times> rstring" where
  "json_header \<equiv> (lit ''Content-Type'', lit ''application/json'')"

section \<open>Operations\<close>

text \<open>\<open>HeaderValue::from\<close> an unsigned integer is its decimal text.\<close>

definition reset_header_value :: "duration \<Rightarrow> system_time \<Rightarrow> rstring" where
  "reset_header_value reset_after now =
     (let secs = (case system_time_checked_add now reset_after of
          Some reset \<Rightarrow> (case duration_since_epoch reset of None \<Rightarrow> 0 | Some d \<Rightarrow> ceil_secs d)
        | None \<Rightarrow> - 1)
      in decimal (unat secs))"

definition inject_headers ::
  "'h http_lib \<Rightarrow> ('h, 'b) response \<Rightarrow> rate_limit_info \<Rightarrow> system_time \<Rightarrow> ('h, 'b) response" where
  "inject_headers L resp info now =
     resp\<lparr>headers :=
       hm_insert L (lit ''X-RateLimit-Reset'') (reset_header_value (info_reset_after info) now) (
       hm_insert L (lit ''X-RateLimit-Remaining'') (decimal (unat (remaining info))) (
       hm_insert L (lit ''X-RateLimit-Limit'') (decimal (unat (info_limit info))) (headers resp)))\<rparr>"

definition rate_limited_response ::
  "'h http_lib \<Rightarrow> rate_limited \<Rightarrow> rstring \<Rightarrow> system_time \<Rightarrow> ('h, rstring) response" where
  "rate_limited_response L limited tier now =
     (let secs = retry_after_secs limited;
          escaped_tier = escape_json_string tier;
          b = lit ''{\"error\":\"rate limit exceeded\",\"tier\":\"'' @ escaped_tier
            @ lit ''\",\"retry_after\":'' @ decimal (unat secs) @ lit ''}''
      in build_response L TOO_MANY_REQUESTS
           [json_header,
            (lit ''Retry-After'', decimal (unat secs)),
            (lit ''X-RateLimit-Limit'', decimal (unat (lim_limit limited))),
            (lit ''X-RateLimit-Remaining'', decimal 0),
            (lit ''X-RateLimit-Reset'', reset_header_value (lim_reset_after limited) now)] b)"

definition cost_exceeds_limit_response ::
  "'h http_lib \<Rightarrow> rstring \<Rightarrow> u32 \<Rightarrow> u32 \<Rightarrow> ('h, rstring) response" where
  "cost_exceeds_limit_response L tier cost limit =
     build_response L FORBIDDEN [json_header]
       (lit ''{\"error\":\"request cost exceeds tier limit\",\"tier\":\"'' @ escape_json_string tier
        @ lit ''\",\"cost\":'' @ decimal (unat cost) @ lit '',\"limit\":'' @ decimal (unat limit)
        @ lit ''}'')"

definition canonical_reason :: "'h http_lib \<Rightarrow> status_code \<Rightarrow> rstring" where
  "canonical_reason L st = (case reason_phrase L st of Some r \<Rightarrow> r | None \<Rightarrow> lit ''request denied'')"

definition deny_response :: "'h http_lib \<Rightarrow> status_code \<Rightarrow> ('h, rstring) response" where
  "deny_response L st =
     build_response L st [json_header] (lit ''{\"error\":\"'' @ canonical_reason L st @ lit ''\"}'')"

definition storage_error_response :: "'h http_lib \<Rightarrow> ('h, rstring) response" where
  "storage_error_response L =
     build_response L SERVICE_UNAVAILABLE [json_header] (lit ''{\"error\":\"service unavailable\"}'')"

definition bad_request_response :: "'h http_lib \<Rightarrow> ('h, rstring) response" where
  "bad_request_response L =
     build_response L BAD_REQUEST [json_header] (lit ''{\"error\":\"failed to read request body\"}'')"

section \<open>Bodies and headers\<close>

lemma plain_texts [simp]:
  "plain (lit ''error'')" "plain (lit ''tier'')" "plain (lit ''retry_after'')" "plain (lit ''cost'')"
  "plain (lit ''limit'')" "plain (lit ''rate limit exceeded'')"
  "plain (lit ''request cost exceeds tier limit'')" "plain (lit ''request denied'')"
  by (simp_all add: plain_def lit_def is_control_def)

lemma rate_limited_body:
  "body (rate_limited_response L limited tier now) =
     write_object [(lit ''error'', JStr (lit ''rate limit exceeded'')), (lit ''tier'', JStr tier),
       (lit ''retry_after'', JNum (unat (retry_after_secs limited)))]"
  by (simp add: rate_limited_response_def build_response_def write_object_def write_member_def
      escape_plain Let_def) (simp add: lit_def)

lemma cost_exceeds_limit_body:
  "body (cost_exceeds_limit_response L tier cost limit) =
     write_object [(lit ''error'', JStr (lit ''request cost exceeds tier limit'')), (lit ''tier'', JStr tier),
       (lit ''cost'', JNum (unat cost)), (lit ''limit'', JNum (unat limit))]"
  by (simp add: cost_exceeds_limit_response_def build_response_def write_object_def write_member_def
      escape_plain) (simp add: lit_def)

lemma deny_body:
  assumes "http_lib_ok L"
  shows "body (deny_response L st) = write_object [(lit ''error'', JStr (canonical_reason L st))]"
proof -
  have "plain (canonical_reason L st)"
    using assms by (auto simp: canonical_reason_def http_lib_ok_def split: option.split)
  then show ?thesis
    by (simp add: deny_response_def build_response_def write_object_def write_member_def escape_plain)
      (simp add: lit_def)
qed

text \<open>The headers of a built response are the listed ones, in order.\<close>

lemma build_response_headers:
  assumes "http_lib_ok L"
  shows "hm_get_all L (headers (build_response L st hs b)) m =
    map snd (filter (\<lambda>(n, v). ascii_lower m = ascii_lower n) hs)"
proof -
  have "hm_get_all L (foldl (\<lambda>h (n, v). hm_append L n v h) h hs) m =
      hm_get_all L h m @ map snd (filter (\<lambda>(n, v). ascii_lower m = ascii_lower n) hs)" for h
    using assms by (induction hs arbitrary: h) (auto simp: http_lib_ok_def)
  then show ?thesis using assms by (simp add: build_response_def http_lib_ok_def)
qed

text \<open>The header names in lower case, as both sides of a comparison.\<close>

lemma header_names [simp]:
  "ascii_lower (lit ''Content-Type'') = lit ''content-type''"
  "ascii_lower (lit ''Retry-After'') = lit ''retry-after''"
  "ascii_lower (lit ''X-RateLimit-Limit'') = lit ''x-ratelimit-limit''"
  "ascii_lower (lit ''X-RateLimit-Remaining'') = lit ''x-ratelimit-remaining''"
  "ascii_lower (lit ''X-RateLimit-Reset'') = lit ''x-ratelimit-reset''"
  "ascii_lower (lit ''content-type'') = lit ''content-type''"
  "ascii_lower (lit ''retry-after'') = lit ''retry-after''"
  "ascii_lower (lit ''x-ratelimit-limit'') = lit ''x-ratelimit-limit''"
  "ascii_lower (lit ''x-ratelimit-remaining'') = lit ''x-ratelimit-remaining''"
  "ascii_lower (lit ''x-ratelimit-reset'') = lit ''x-ratelimit-reset''"
  by (simp_all add: ascii_lower_def lit_def)

lemma reset_seconds:
  assumes "0 \<le> now + int (as_nanos d)" "now + int (as_nanos d) < 2 ^ 63 * int nanos_per_sec"
  obtains n where "reset_header_value d now = decimal n"
    "now + int (as_nanos d) \<le> int (n * nanos_per_sec)"
    "int (n * nanos_per_sec) < now + int (as_nanos d) + int nanos_per_sec"
proof -
  define r where "r = duration_of_nanos (nat (now + int (as_nanos d)))"
  have le: "nat (now + int (as_nanos d)) \<le> duration_max_nanos"
    using assms by simp
  have r: "duration_ok r" "as_nanos r = nat (now + int (as_nanos d))"
    using duration_of_nanos_nanos [OF le] by (simp_all add: r_def)
  have "unat (as_secs r) < 2 ^ 63"
    using r assms by (simp add: as_nanos_secs less_mult_imp_div_less)
  then have c: "unat (ceil_secs r) = unat (as_secs r) + (if subsec_nanos r > 0 then 1 else 0)"
    by (simp add: ceil_secs_def unat_saturating_add)
  have "reset_header_value d now = decimal (unat (ceil_secs r))"
    using assms by (simp add: reset_header_value_def system_time_checked_add_def duration_since_epoch_def
        r_def Let_def)
  moreover have "as_nanos r \<le> unat (ceil_secs r) * nanos_per_sec"
    "unat (ceil_secs r) * nanos_per_sec < as_nanos r + nanos_per_sec"
    using c r(1) by (auto simp: as_nanos_def duration_ok_def word_less_nat_alt)
  moreover have "int (as_nanos r) = now + int (as_nanos d)" using r(2) assms(1) by simp
  ultimately show thesis using that by (metis of_nat_le_iff of_nat_less_iff of_nat_add)
qed

section \<open>Properties\<close>

text \<open>A header map for the witnesses: the list of names and values in order.\<close>

definition list_http :: "(rstring \<times> rstring) list http_lib" where
  "list_http =
     \<lparr>hm_empty = [],
      hm_append = (\<lambda>n v h. h @ [(n, v)]),
      hm_insert = (\<lambda>n v h. filter (\<lambda>(m, _). ascii_lower m \<noteq> ascii_lower n) h @ [(n, v)]),
      hm_get_all = (\<lambda>h m. map snd (filter (\<lambda>(n, _). ascii_lower m = ascii_lower n) h)),
      reason_phrase = (\<lambda>st. if st = FORBIDDEN then Some (lit ''Forbidden'') else None)\<rparr>"

lemma list_http_ok: "http_lib_ok list_http"
proof -
  have "plain (lit ''Forbidden'')" by (simp add: plain_def lit_def is_control_def)
  moreover have "[x \<leftarrow> h. ascii_lower m = ascii_lower (fst x) \<and> ascii_lower (fst x) \<noteq> ascii_lower n]
      = (if ascii_lower m = ascii_lower n then [] else [x \<leftarrow> h. ascii_lower m = ascii_lower (fst x)])"
    for m n and h :: "(rstring \<times> rstring) list"
    by (induction h) auto
  ultimately show ?thesis
    by (simp add: http_lib_ok_def list_http_def split_def conj_commute)
qed

text \<open>C36: the JSON bodies cannot be broken by a tier name. Whatever characters the tier name has
  (quotes, backslashes, control characters), a JSON reader finds in the body of the 429 response and
  of the 403 cost response exactly the intended members, with the tier name decoded to itself.\<close>

theorem json_bodies_read_back:
  "read_object (body (rate_limited_response L limited tier now)) =
      Some [(lit ''error'', JStr (lit ''rate limit exceeded'')), (lit ''tier'', JStr tier),
        (lit ''retry_after'', JNum (unat (retry_after_secs limited)))] \<and>
   read_object (body (cost_exceeds_limit_response L tier cost limit)) =
      Some [(lit ''error'', JStr (lit ''request cost exceeds tier limit'')), (lit ''tier'', JStr tier),
        (lit ''cost'', JNum (unat cost)), (lit ''limit'', JNum (unat limit))]"
  unfolding rate_limited_body cost_exceeds_limit_body by (simp add: read_write_object)

text \<open>The 429 response is complete and consistent: status 429, a JSON content type, a
  \<open>Retry-After\<close> header equal to the \<open>retry_after\<close> of the body, the tier's limit, no request remaining,
  and the reset time, each exactly once.\<close>

theorem rate_limited_response_consistent:
  assumes "http_lib_ok L" "rate_limited_response L limited tier now = resp"
  shows "status resp = 429 \<and>
    hm_get_all L (headers resp) (lit ''content-type'') = [lit ''application/json''] \<and>
    hm_get_all L (headers resp) (lit ''retry-after'') = [decimal (unat (retry_after_secs limited))] \<and>
    (\<exists>ms. read_object (body resp) = Some ms \<and>
       (lit ''retry_after'', JNum (unat (retry_after_secs limited))) \<in> set ms) \<and>
    hm_get_all L (headers resp) (lit ''x-ratelimit-limit'') = [decimal (unat (lim_limit limited))] \<and>
    hm_get_all L (headers resp) (lit ''x-ratelimit-remaining'') = [decimal 0] \<and>
    hm_get_all L (headers resp) (lit ''x-ratelimit-reset'') = [reset_header_value (lim_reset_after limited) now]"
proof -
  have hs: "hm_get_all L (headers resp) m = map snd (filter (\<lambda>(n, v). ascii_lower m = ascii_lower n)
      [json_header,
       (lit ''Retry-After'', decimal (unat (retry_after_secs limited))),
       (lit ''X-RateLimit-Limit'', decimal (unat (lim_limit limited))),
       (lit ''X-RateLimit-Remaining'', decimal 0),
       (lit ''X-RateLimit-Reset'', reset_header_value (lim_reset_after limited) now)])" for m
    unfolding assms(2) [symmetric] rate_limited_response_def Let_def
    by (rule build_response_headers [OF assms(1)])
  have "status resp = 429" using assms(2)
    by (auto simp: rate_limited_response_def build_response_def TOO_MANY_REQUESTS_def Let_def)
  moreover have "body resp = write_object [(lit ''error'', JStr (lit ''rate limit exceeded'')),
      (lit ''tier'', JStr tier), (lit ''retry_after'', JNum (unat (retry_after_secs limited)))]"
    using assms(2) rate_limited_body by metis
  ultimately show ?thesis
    unfolding hs by (simp add: read_write_object lit_eq_iff)
qed

theorem rate_limited_response_consistent_witness:
  "status (rate_limited_response list_http \<lparr>lim_limit = 3, retry_after = from_secs 20,
      lim_reset_after = from_secs 60\<rparr> (lit ''free'') 0) = 429"
  using rate_limited_response_consistent [OF list_http_ok refl] by blast

text \<open>\<open>X-RateLimit-Reset\<close> is the first whole Unix second at or after the moment the quota is full
  again, for every wall-clock time and duration whose sum is representable and not before the epoch.\<close>

theorem reset_header_rounds_up:
  assumes "0 \<le> now + int (as_nanos d)" "now + int (as_nanos d) < 2 ^ 63 * int nanos_per_sec"
  shows "\<exists>n. reset_header_value d now = decimal n \<and>
    now + int (as_nanos d) \<le> int (n * nanos_per_sec) \<and>
    int (n * nanos_per_sec) < now + int (as_nanos d) + int nanos_per_sec"
  by (rule reset_seconds [OF assms]) blast

theorem reset_header_rounds_up_witness:
  "\<exists>n. reset_header_value (from_millis 1500) 1000000000 = decimal n \<and>
    (2500000000 :: int) \<le> int (n * nanos_per_sec) \<and> int (n * nanos_per_sec) < 3500000000"
  using reset_header_rounds_up [of 1000000000 "from_millis 1500"] by simp

text \<open>Injecting the rate limit headers sets exactly the three \<open>X-RateLimit-*\<close> headers, each with one
  value that replaces any the inner service set, and keeps the status, the body and every other
  header of the response.\<close>

theorem inject_headers_effect:
  assumes "http_lib_ok L" "inject_headers L resp info now = resp'"
  shows "status resp' = status resp \<and> body resp' = body resp \<and>
    hm_get_all L (headers resp') (lit ''X-RateLimit-Limit'') = [decimal (unat (info_limit info))] \<and>
    hm_get_all L (headers resp') (lit ''X-RateLimit-Remaining'') = [decimal (unat (remaining info))] \<and>
    hm_get_all L (headers resp') (lit ''X-RateLimit-Reset'') = [reset_header_value (info_reset_after info) now] \<and>
    (\<forall>m. ascii_lower m \<notin> {lit ''x-ratelimit-limit'', lit ''x-ratelimit-remaining'', lit ''x-ratelimit-reset''} \<longrightarrow>
      hm_get_all L (headers resp') m = hm_get_all L (headers resp) m)"
proof -
  have ins: "hm_get_all L (hm_insert L n v h) m =
      (if ascii_lower m = ascii_lower n then [v] else hm_get_all L h m)" for n v h m
    using assms(1) by (simp add: http_lib_ok_def)
  show ?thesis
    using assms(2) by (auto simp: inject_headers_def ins lit_eq_iff)
qed

theorem inject_headers_effect_witness:
  "hm_get_all list_http (headers (inject_headers list_http
      \<lparr>status = 200, headers = [(lit ''X-RateLimit-Limit'', lit ''9''), (lit ''ETag'', lit ''x'')], body = ()\<rparr>
      \<lparr>info_limit = 3, remaining = 2, info_reset_after = from_secs 20\<rparr> 0)) (lit ''X-RateLimit-Limit'') = [decimal 3]"
  using inject_headers_effect [OF list_http_ok refl, of
      "\<lparr>status = 200, headers = [(lit ''X-RateLimit-Limit'', lit ''9''), (lit ''ETag'', lit ''x'')], body = ()\<rparr>"
      "\<lparr>info_limit = 3, remaining = 2, info_reset_after = from_secs 20\<rparr>" 0]
  by simp

end
