(* ===== verification/Check.thy ===== *)
theory Check
  imports Response
begin

text \<open>
  \<open>src/check.rs\<close>, the decisions shared by the two middleware services, with the data they work on:
  \<open>src/identifier.rs\<close>, \<open>src/event.rs\<close>, \<open>src/on_storage_error.rs\<close>, \<open>src/cost.rs\<close> and the settings, the default
  identifier and the setters of \<open>src/layer.rs\<close>.

  User code is a parameter: identifiers, callbacks and the custom response builder are fields of
  the settings, functions that may read and change the world \<open>'w\<close> (everything outside the limiter).
  They are taken to return; a callback that panics unwinds through the middleware.
\<close>

section \<open>Identities, events and policies\<close>

record tier_identity =
  user_id :: rstring
  tier :: rstring

definition tier_identity_new :: "rstring \<Rightarrow> rstring \<Rightarrow> tier_identity" where
  "tier_identity_new u t = \<lparr>user_id = u, tier = t\<rparr>"

datatype limit_event =
    EventStorageError rstring rstring storage_error
  | EventUnknownTier rstring rstring
  | EventCostExceedsLimit rstring rstring u32 u32

datatype on_storage_error = StorageErrorAllow | StorageErrorDeny

definition on_storage_error_default :: on_storage_error where
  "on_storage_error_default = StorageErrorAllow"

section \<open>Requests\<close>

text \<open>The parts of a request: its headers, the \<open>TierCost\<close> extension and the rest (method, URI, other
  extensions). The body is separate.\<close>

record ('h, 'x) parts =
  req_headers :: 'h
  tier_cost_ext :: "u32 option"
  req_rest :: 'x

record ('h, 'x, 'i) request =
  req_parts :: "('h, 'x) parts"
  req_body :: 'i

section \<open>Settings\<close>

text \<open>An identifier has a method for the headers and one for headers and body.\<close>

type_synonym bytes = "u8 list"

record ('h, 'w) tier_identifier =
  identify :: "'h \<Rightarrow> 'w \<Rightarrow> tier_identity option \<times> 'w"
  identify_with_body :: "'h \<Rightarrow> bytes \<Rightarrow> 'w \<Rightarrow> tier_identity option \<times> 'w"

text \<open>The trait's default for \<open>identify_with_body\<close> is \<open>identify\<close>.\<close>

definition header_identifier :: "('h \<Rightarrow> 'w \<Rightarrow> tier_identity option \<times> 'w) \<Rightarrow> ('h, 'w) tier_identifier" where
  "header_identifier f = \<lparr>identify = f, identify_with_body = (\<lambda>h _. f h)\<rparr>"

definition noop_identifier :: "('h, 'w) tier_identifier" where
  "noop_identifier = header_identifier (\<lambda>_ w. (None, w))"

definition closure_identifier :: "('h \<Rightarrow> 'w \<Rightarrow> tier_identity option \<times> 'w) \<Rightarrow> ('h, 'w) tier_identifier" where
  "closure_identifier f = header_identifier f"

record ('h, 'x, 'w) settings =
  id_source :: "('h, 'w) tier_identifier"
  on_storage_error :: on_storage_error
  on_limited :: "(rstring \<Rightarrow> rstring \<Rightarrow> rate_limited \<Rightarrow> 'w \<Rightarrow> 'w) option"
  limited_response :: "(rstring \<Rightarrow> rstring \<Rightarrow> rate_limited \<Rightarrow> 'w \<Rightarrow> ('h, rstring) response \<times> 'w) option"
  on_event :: "(limit_event \<Rightarrow> 'w \<Rightarrow> 'w) option"
  cost_fn :: "(('h, 'x) parts \<Rightarrow> 'w \<Rightarrow> u32 \<times> 'w) option"

record ('h, 'x, 'w, 'k, 'c) tier_limit_layer =
  rate_tier :: "('k, 'c) rate_tier"
  settings :: "('h, 'x, 'w) settings"

definition layer_new :: "('k, 'c) rate_tier \<Rightarrow> ('h, 'x, 'w, 'k, 'c) tier_limit_layer" where
  "layer_new rt =
     \<lparr>rate_tier = rt,
      settings = \<lparr>id_source = noop_identifier, on_storage_error = on_storage_error_default,
        on_limited = None, limited_response = None, on_event = None, cost_fn = None\<rparr>\<rparr>"

definition layer_identifier ::
  "('h, 'w) tier_identifier \<Rightarrow> ('h, 'x, 'w, 'k, 'c) tier_limit_layer \<Rightarrow> ('h, 'x, 'w, 'k, 'c) tier_limit_layer" where
  "layer_identifier i l = l\<lparr>settings := (settings l)\<lparr>id_source := i\<rparr>\<rparr>"

definition layer_identifier_fn ::
  "('h \<Rightarrow> 'w \<Rightarrow> tier_identity option \<times> 'w) \<Rightarrow> ('h, 'x, 'w, 'k, 'c) tier_limit_layer \<Rightarrow> ('h, 'x, 'w, 'k, 'c) tier_limit_layer" where
  "layer_identifier_fn f l = l\<lparr>settings := (settings l)\<lparr>id_source := closure_identifier f\<rparr>\<rparr>"

definition layer_on_storage_error ::
  "on_storage_error \<Rightarrow> ('h, 'x, 'w, 'k, 'c) tier_limit_layer \<Rightarrow> ('h, 'x, 'w, 'k, 'c) tier_limit_layer" where
  "layer_on_storage_error p l = l\<lparr>settings := (settings l)\<lparr>on_storage_error := p\<rparr>\<rparr>"

definition layer_on_limited ::
  "(rstring \<Rightarrow> rstring \<Rightarrow> rate_limited \<Rightarrow> 'w \<Rightarrow> 'w) \<Rightarrow> ('h, 'x, 'w, 'k, 'c) tier_limit_layer \<Rightarrow> ('h, 'x, 'w, 'k, 'c) tier_limit_layer" where
  "layer_on_limited f l = l\<lparr>settings := (settings l)\<lparr>on_limited := Some f\<rparr>\<rparr>"

definition layer_rate_limited_response ::
  "(rstring \<Rightarrow> rstring \<Rightarrow> rate_limited \<Rightarrow> 'w \<Rightarrow> ('h, rstring) response \<times> 'w)
    \<Rightarrow> ('h, 'x, 'w, 'k, 'c) tier_limit_layer \<Rightarrow> ('h, 'x, 'w, 'k, 'c) tier_limit_layer" where
  "layer_rate_limited_response f l = l\<lparr>settings := (settings l)\<lparr>limited_response := Some f\<rparr>\<rparr>"

definition layer_cost_fn ::
  "(('h, 'x) parts \<Rightarrow> 'w \<Rightarrow> u32 \<times> 'w) \<Rightarrow> ('h, 'x, 'w, 'k, 'c) tier_limit_layer \<Rightarrow> ('h, 'x, 'w, 'k, 'c) tier_limit_layer" where
  "layer_cost_fn f l = l\<lparr>settings := (settings l)\<lparr>cost_fn := Some f\<rparr>\<rparr>"

definition layer_on_event ::
  "(limit_event \<Rightarrow> 'w \<Rightarrow> 'w) \<Rightarrow> ('h, 'x, 'w, 'k, 'c) tier_limit_layer \<Rightarrow> ('h, 'x, 'w, 'k, 'c) tier_limit_layer" where
  "layer_on_event f l = l\<lparr>settings := (settings l)\<lparr>on_event := Some f\<rparr>\<rparr>"

text \<open>Calling an optional callback.\<close>

definition notify :: "(limit_event \<Rightarrow> 'w \<Rightarrow> 'w) option \<Rightarrow> limit_event \<Rightarrow> 'w \<Rightarrow> 'w" where
  "notify cb ev w = (case cb of None \<Rightarrow> w | Some f \<Rightarrow> f ev w)"

section \<open>The decisions\<close>

datatype 'h check_outcome = Allow rate_limit_info | PassThrough | Deny "('h, rstring) response"

definition resolve_identity ::
  "'h http_lib \<Rightarrow> tier_identity option \<Rightarrow> ('k, 'c) rate_tier \<Rightarrow> (rstring \<times> rstring, 'h check_outcome) result" where
  "resolve_identity L ident rt =
     (case ident of
        Some i \<Rightarrow> Ok (user_id i, tier i)
      | None \<Rightarrow>
          (case on_missing rt of
             MissingAllow \<Rightarrow> Err PassThrough
           | MissingDeny st \<Rightarrow> Err (Deny (deny_response L st))
           | MissingUseDefault \<Rightarrow>
               (case default_tier rt of
                  Some d \<Rightarrow> Ok (lit ''__anonymous__'', d)
                | None \<Rightarrow> Err (Deny (deny_response L FORBIDDEN)))))"

definition resolve_quota ::
  "'h http_lib \<Rightarrow> ('k, 'c) rate_tier \<Rightarrow> rstring \<Rightarrow> rstring \<Rightarrow> ('h, 'x, 'w) settings \<Rightarrow> 'w
    \<Rightarrow> (rstring \<times> quota, 'h check_outcome) result \<times> 'w" where
  "resolve_quota L rt user tier_name st w =
     (let finish = (\<lambda>(name, quota). if is_unlimited quota then Err PassThrough else Ok (name, quota)) in
      case get_quota rt tier_name of
        Some quota \<Rightarrow> (finish (tier_name, quota), w)
      | None \<Rightarrow>
          let w1 = notify (on_event st) (EventUnknownTier user tier_name) w in
          (case on_unknown_tier rt of
             UnknownAllow \<Rightarrow> (Err PassThrough, w1)
           | UnknownDeny code \<Rightarrow> (Err (Deny (deny_response L code)), w1)
           | UnknownUseDefault \<Rightarrow>
               (case Option.bind (default_tier rt) (\<lambda>name. map_option (\<lambda>q. (name, q)) (get_quota rt name)) of
                  Some (name, quota) \<Rightarrow> (finish (name, quota), w1)
                | None \<Rightarrow> (Err (Deny (deny_response L FORBIDDEN)), w1))))"

definition request_cost :: "('h, 'x) parts \<Rightarrow> ('h, 'x, 'w) settings \<Rightarrow> 'w \<Rightarrow> u32 \<times> 'w" where
  "request_cost ps st w =
     (case tier_cost_ext ps of
        Some cost \<Rightarrow> (cost, w)
      | None \<Rightarrow> (case cost_fn st of None \<Rightarrow> (1, w) | Some f \<Rightarrow> f ps w))"

definition reject_cost_over_limit ::
  "'h http_lib \<Rightarrow> u32 \<Rightarrow> quota \<Rightarrow> rstring \<Rightarrow> rstring \<Rightarrow> ('h, 'x, 'w) settings \<Rightarrow> 'w
    \<Rightarrow> ('h, rstring) response option \<times> 'w" where
  "reject_cost_over_limit L cost quota user tier_name st w =
     (let limit = max_burst quota in
      if cost \<le> limit then (None, w)
      else (Some (cost_exceeds_limit_response L tier_name cost limit),
            notify (on_event st) (EventCostExceedsLimit user tier_name cost limit) w))"

definition process_result ::
  "'h http_lib \<Rightarrow> storage_outcome \<Rightarrow> rstring \<Rightarrow> rstring \<Rightarrow> ('h, 'x, 'w) settings \<Rightarrow> system_time \<Rightarrow> 'w
    \<Rightarrow> 'h check_outcome \<times> 'w" where
  "process_result L result user tier_name st now w =
     (case result of
        Ok (Ok info) \<Rightarrow> (Allow info, w)
      | Ok (Err limited) \<Rightarrow>
          let w1 = (case on_limited st of None \<Rightarrow> w | Some cb \<Rightarrow> cb user tier_name limited w);
              (resp, w2) = (case limited_response st of
                 Some respond \<Rightarrow> respond user tier_name limited w1
               | None \<Rightarrow> (rate_limited_response L limited tier_name now, w1))
          in (Deny resp, w2)
      | Err error \<Rightarrow>
          let w1 = notify (on_event st) (EventStorageError user tier_name error) w in
          (case on_storage_error st of
             StorageErrorAllow \<Rightarrow> (PassThrough, w1)
           | StorageErrorDeny \<Rightarrow> (Deny (storage_error_response L), w1)))"

section \<open>Facts about the decisions\<close>

text \<open>The \<open>unreachable!()\<close> arms: neither resolution ends in \<open>Allow\<close>.\<close>

lemma resolve_identity_not_Allow: "resolve_identity L ident rt \<noteq> Err (Allow info)"
  by (auto simp: resolve_identity_def split: option.split on_missing.split)

lemma resolve_quota_not_Allow: "fst (resolve_quota L rt user name st w) \<noteq> Err (Allow info)"
  by (auto simp: resolve_quota_def Let_def split: option.split on_unknown_tier.split)

text \<open>When resolving the identity or the quota lets the request through.\<close>

lemma resolve_identity_PassThrough:
  "resolve_identity L ident rt = Err PassThrough \<longleftrightarrow> ident = None \<and> on_missing rt = MissingAllow"
  by (auto simp: resolve_identity_def split: option.split on_missing.split)

lemma resolve_identity_default:
  assumes "resolve_identity L None rt = Ok (u, t)"
  shows "u = lit ''__anonymous__''" "default_tier rt = Some t" "on_missing rt = MissingUseDefault"
  using assms by (auto simp: resolve_identity_def split: option.splits on_missing.splits)

lemma resolve_quota_PassThrough:
  "fst (resolve_quota L rt user name st w) = Err PassThrough \<longleftrightarrow>
    (case tiers rt name of
       Some q \<Rightarrow> is_unlimited q
     | None \<Rightarrow> on_unknown_tier rt = UnknownAllow \<or>
         on_unknown_tier rt = UnknownUseDefault \<and>
           (\<exists>d q. default_tier rt = Some d \<and> tiers rt d = Some q \<and> is_unlimited q))"
  by (auto simp: resolve_quota_def get_quota_def Let_def Option.bind_eq_Some_conv
      split: option.splits on_unknown_tier.splits if_splits)

text \<open>A resolved quota is a limited one of a configured tier: the named tier, or the default tier for
  an unknown name.\<close>

lemma resolve_quota_Ok:
  assumes "resolve_quota L rt user name st w = (Ok (name', q), w')"
  shows "tiers rt name' = Some q" "\<not> is_unlimited q"
    and "name' = (if tiers rt name = None then the (default_tier rt) else name)"
    and "tiers rt name = None \<Longrightarrow> default_tier rt = Some name' \<and> on_unknown_tier rt = UnknownUseDefault"
  using assms
  by (auto simp: resolve_quota_def get_quota_def Let_def Option.bind_eq_Some_conv
      split: option.splits on_unknown_tier.splits if_splits)

end
