(* ===== verification/Lua_Number.thy ===== *)
theory Lua_Number
  imports Complex_Main "HOL-Library.Log_Nat" Prelude
begin

text \<open>
  The numbers of Lua 5.1, which \<open>src/storage/gcra.lua\<close> computes with: IEEE doubles. A finite
  double is the rational it denotes; infinities and NaN are constructors of their own. Every
  operation computes exactly and then rounds to 53 significant bits, ties to even, and overflows to
  an infinity at \<open>2 ^ 1024\<close>. Left out: signed zeros, and the coarser spacing below \<open>2 ^ -1022\<close>
  (the script's smallest non-zero quotient is above \<open>2 ^ -53\<close>).

  The laws: integers up to \<open>2 ^ 53\<close> are exact, the relative error of an operation is at most
  \<open>2 ^ -53\<close>, and therefore the floor and the ceiling of a rounded quotient of exact integers are
  those of the quotient itself.
\<close>

section \<open>Rounding to a double\<close>

datatype lua_number = Fin rat | PosInf | NegInf | NaN

text \<open>The binary exponent of a non-zero rational.\<close>

definition bit_exponent :: "rat \<Rightarrow> int" where
  "bit_exponent x =
     (let (p, q) = quotient_of \<bar>x\<bar>;
          k = int (floorlog 2 (nat p)) - int (floorlog 2 (nat q))
      in if 2 powi k \<le> \<bar>x\<bar> then k else k - 1)"

definition round_half_even :: "rat \<Rightarrow> int" where
  "round_half_even y =
     (let f = \<lfloor>y\<rfloor>; r = y - of_int f
      in if r < 1 / 2 then f else if 1 / 2 < r then f + 1 else if even f then f else f + 1)"

definition round_double :: "rat \<Rightarrow> rat" where
  "round_double x =
     (if x = 0 then 0
      else let u = 2 powi (bit_exponent x - 52) in of_int (round_half_even (x / u)) * u)"

definition to_double :: "rat \<Rightarrow> lua_number" where
  "to_double x =
     (let d = round_double x
      in if 2 ^ 1024 \<le> d then PosInf else if d \<le> - (2 ^ 1024) then NegInf else Fin d)"

section \<open>Arithmetic and comparisons\<close>

fun num_neg :: "lua_number \<Rightarrow> lua_number" where
  "num_neg (Fin a) = Fin (- a)"
| "num_neg PosInf = NegInf"
| "num_neg NegInf = PosInf"
| "num_neg NaN = NaN"

fun num_add :: "lua_number \<Rightarrow> lua_number \<Rightarrow> lua_number" where
  "num_add (Fin a) (Fin b) = to_double (a + b)"
| "num_add NaN _ = NaN"
| "num_add _ NaN = NaN"
| "num_add PosInf NegInf = NaN"
| "num_add NegInf PosInf = NaN"
| "num_add PosInf _ = PosInf"
| "num_add _ PosInf = PosInf"
| "num_add NegInf _ = NegInf"
| "num_add _ NegInf = NegInf"

definition num_sub :: "lua_number \<Rightarrow> lua_number \<Rightarrow> lua_number" where
  "num_sub a b = num_add a (num_neg b)"

fun num_sign :: "lua_number \<Rightarrow> rat" where
  "num_sign (Fin a) = sgn a"
| "num_sign PosInf = 1"
| "num_sign NegInf = - 1"
| "num_sign NaN = 0"

text \<open>An infinity with the sign of \<open>s\<close>; NaN for zero.\<close>

definition signed_inf :: "rat \<Rightarrow> lua_number" where
  "signed_inf s = (if 0 < s then PosInf else if s < 0 then NegInf else NaN)"

fun num_mul :: "lua_number \<Rightarrow> lua_number \<Rightarrow> lua_number" where
  "num_mul (Fin a) (Fin b) = to_double (a * b)"
| "num_mul NaN _ = NaN"
| "num_mul _ NaN = NaN"
| "num_mul a b = signed_inf (num_sign a * num_sign b)"

fun num_div :: "lua_number \<Rightarrow> lua_number \<Rightarrow> lua_number" where
  "num_div (Fin a) (Fin b) = (if b = 0 then signed_inf a else to_double (a / b))"
| "num_div (Fin a) NaN = NaN"
| "num_div (Fin a) _ = Fin 0"
| "num_div NaN _ = NaN"
| "num_div a (Fin b) = signed_inf (num_sign a * (if b < 0 then - 1 else 1))"
| "num_div _ _ = NaN"

fun num_eq :: "lua_number \<Rightarrow> lua_number \<Rightarrow> bool" where
  "num_eq NaN _ = False"
| "num_eq a b = (a = b)"

fun num_less :: "lua_number \<Rightarrow> lua_number \<Rightarrow> bool" where
  "num_less (Fin a) (Fin b) = (a < b)"
| "num_less NaN _ = False"
| "num_less _ NaN = False"
| "num_less NegInf b = (b \<noteq> NegInf)"
| "num_less _ PosInf = True"
| "num_less _ _ = False"

text \<open>\<open>math.floor\<close> and \<open>math.ceil\<close>: infinities and NaN are their own floor and ceiling.\<close>

fun num_floor :: "lua_number \<Rightarrow> lua_number" where
  "num_floor (Fin a) = Fin (of_int \<lfloor>a\<rfloor>)"
| "num_floor a = a"

fun num_ceil :: "lua_number \<Rightarrow> lua_number" where
  "num_ceil (Fin a) = Fin (of_int \<lceil>a\<rceil>)"
| "num_ceil a = a"

section \<open>Laws of rounding\<close>

lemma num_less_PosInf [simp]: "num_less (Fin a) PosInf" "\<not> num_less PosInf (Fin a)"
  and num_less_NegInf [simp]: "num_less NegInf (Fin a)" "\<not> num_less (Fin a) NegInf"
  and num_less_NaN [simp]: "\<not> num_less (Fin a) NaN"
  by simp_all

lemma bit_exponent_bounds:
  assumes "x \<noteq> 0"
  shows "2 powi bit_exponent x \<le> \<bar>x\<bar>" and "\<bar>x\<bar> < 2 powi (bit_exponent x + 1)"
proof -
  obtain p q where pq: "quotient_of \<bar>x\<bar> = (p, q)" by fastforce
  then have q: "0 < q" and x: "\<bar>x\<bar> = of_int p / of_int q"
    using quotient_of_denom_pos quotient_of_div by blast+
  with assms have p: "0 < p" by (metis of_int_0_less_iff zero_less_abs_iff zero_less_divide_iff order_less_asym)
  define a b where "a = floorlog 2 (nat p)" and "b = floorlog 2 (nat q)"
  have ab: "a \<noteq> 0" "b \<noteq> 0" using p q by (simp_all add: a_def b_def floorlog_eq_zero_iff)
  have rp: "of_nat (nat p) = (of_int p :: rat)" "of_nat (nat q) = (of_int q :: rat)" using p q by simp_all
  have P: "2 powi (int a - 1) \<le> (of_int p :: rat)" "of_int p < (2 powi int a :: rat)"
    and Q: "2 powi (int b - 1) \<le> (of_int q :: rat)" "of_int q < (2 powi int b :: rat)"
    using floorlog_bounds [of "nat p" 2] floorlog_bounds [of "nat q" 2] p q ab
      of_nat_mono [of "2 ^ (a - 1)" "nat p", where ?'a = rat] of_nat_mono [of "2 ^ (b - 1)" "nat q", where ?'a = rat]
      of_nat_less_iff [of "nat p" "2 ^ a", where ?'a = rat] of_nat_less_iff [of "nat q" "2 ^ b", where ?'a = rat]
    by (simp_all add: a_def b_def rp power_int_def nat_diff_distrib)
  have "\<bar>x\<bar> < 2 powi (int a - int b + 1)"
  proof -
    have "\<bar>x\<bar> < 2 powi int a / (of_int q)" using x P q by (simp add: divide_strict_right_mono)
    also have "\<dots> \<le> 2 powi int a / 2 powi (int b - 1)" using Q q by (intro divide_left_mono mult_pos_pos) auto
    also have "\<dots> = 2 powi (int a - int b + 1)" by (simp add: power_int_diff power_int_add)
    finally show ?thesis .
  qed
  moreover have "2 powi (int a - int b - 1) \<le> \<bar>x\<bar>"
  proof -
    have "2 powi (int a - int b - 1) = (2 powi (int a - 1) / 2 powi int b :: rat)"
      by (simp add: power_int_diff)
    also have "\<dots> \<le> of_int p / 2 powi int b" using P by (intro divide_right_mono) auto
    also have "\<dots> \<le> \<bar>x\<bar>" unfolding x using P Q p q by (intro divide_left_mono) auto
    finally show ?thesis .
  qed
  ultimately show "2 powi bit_exponent x \<le> \<bar>x\<bar>" "\<bar>x\<bar> < 2 powi (bit_exponent x + 1)"
    unfolding bit_exponent_def pq by (auto simp: Let_def a_def b_def)
qed

lemma round_half_even_int [simp]: "round_half_even (of_int n) = n"
  by (simp add: round_half_even_def)

lemma round_half_even_error: "\<bar>of_int (round_half_even y) - y\<bar> \<le> 1 / 2"
  using of_int_floor_le [of y] floor_correct [of y]
  by (auto simp: round_half_even_def Let_def abs_le_iff)

lemma round_half_even_ge: "of_int n \<le> y \<Longrightarrow> n \<le> round_half_even y"
  using le_floor_iff [of n y] by (auto simp: round_half_even_def Let_def)

lemma round_double_error: "\<bar>round_double x - x\<bar> \<le> \<bar>x\<bar> / 2 ^ 53"
proof (cases "x = 0")
  case False
  define u where "u = (2 powi (bit_exponent x - 52) :: rat)"
  have u: "0 < u" by (simp add: u_def)
  have "round_double x - x = (of_int (round_half_even (x / u)) - x / u) * u"
    using False u by (simp add: round_double_def Let_def u_def [symmetric] left_diff_distrib)
  then have "\<bar>round_double x - x\<bar> \<le> 1 / 2 * u"
    using round_half_even_error [of "x / u"] u by (simp add: abs_mult mult_right_mono)
  also have "\<dots> = 2 powi bit_exponent x / 2 ^ 53"
    by (simp add: u_def power_int_diff)
  also have "\<dots> \<le> \<bar>x\<bar> / 2 ^ 53"
    using bit_exponent_bounds(1) [OF False] by (intro divide_right_mono) auto
  finally show ?thesis .
qed (simp add: round_double_def)

lemma round_double_exact:
  assumes "x = of_int n * 2 powi (bit_exponent x - 52)"
  shows "round_double x = x"
proof (cases "x = 0")
  case False
  then have "x / 2 powi (bit_exponent x - 52) = of_int n" by (subst assms) simp
  then show ?thesis using False assms by (simp add: round_double_def Let_def)
qed (simp add: round_double_def)

lemma bit_exponent_le: "x \<noteq> 0 \<Longrightarrow> \<bar>x\<bar> < 2 powi (k + 1) \<Longrightarrow> bit_exponent x \<le> k"
proof (rule ccontr)
  assume x: "x \<noteq> 0" "\<bar>x\<bar> < 2 powi (k + 1)" "\<not> bit_exponent x \<le> k"
  then have "(2 powi (k + 1) :: rat) \<le> 2 powi bit_exponent x" by (intro power_int_increasing) auto
  then show False using x bit_exponent_bounds(1) [of x] by linarith
qed

lemma bit_exponent_ge: "x \<noteq> 0 \<Longrightarrow> 2 powi k \<le> \<bar>x\<bar> \<Longrightarrow> k \<le> bit_exponent x"
proof (rule ccontr)
  assume x: "x \<noteq> 0" "2 powi k \<le> \<bar>x\<bar>" "\<not> k \<le> bit_exponent x"
  then have "(2 powi (bit_exponent x + 1) :: rat) \<le> 2 powi k" by (intro power_int_increasing) auto
  then show False using x bit_exponent_bounds(2) [of x] by linarith
qed

lemma round_double_int [simp]:
  assumes "\<bar>n\<bar> \<le> 2 ^ 53"
  shows "round_double (of_int n) = of_int n"
proof (cases "n = 0")
  case False
  define e where "e = bit_exponent (of_int n)"
  have le: "\<bar>of_int n :: rat\<bar> \<le> 2 ^ 53"
    using assms of_int_le_iff [of "\<bar>n\<bar>" "2 ^ 53", where ?'a = rat] by simp
  show ?thesis
  proof (cases "\<bar>n\<bar> = 2 ^ 53")
    case True
    then have m: "\<bar>of_int n :: rat\<bar> = 2 ^ 53"
      using of_int_eq_iff [of "\<bar>n\<bar>" "2 ^ 53", where ?'a = rat] by simp
    have "e \<le> 53" "53 \<le> e"
      unfolding e_def using False m
      by (auto intro!: bit_exponent_le bit_exponent_ge simp: power_int_def)
    then have "e = 53" by simp
    moreover have "n = 2 ^ 53 \<or> n = - (2 ^ 53)" using True by linarith
    then have "n = (n div 2) * 2" by auto
    ultimately show ?thesis
      by (intro round_double_exact [of _ "n div 2"]) (simp add: e_def flip: of_int_mult [of _ 2, simplified])
  next
    case False': False
    then have "\<bar>of_int n :: rat\<bar> < 2 ^ 53"
      using assms of_int_less_iff [of "\<bar>n\<bar>" "2 ^ 53", where ?'a = rat] by simp
    then have e: "e \<le> 52"
      unfolding e_def using False by (intro bit_exponent_le) (simp_all add: power_int_def)
    have "(of_int n :: rat) = of_int (n * 2 ^ nat (52 - e)) * 2 powi (e - 52)"
      using e by (simp add: power_int_diff field_simps power_int_def flip: power_add)
    then show ?thesis by (intro round_double_exact [of _ "n * 2 ^ nat (52 - e)"]) (simp only: e_def)
  qed
qed (simp add: round_double_def)

lemma round_double_large:
  assumes "2 ^ 53 \<le> x"
  shows "2 ^ 53 \<le> round_double x"
proof -
  define e where "e = bit_exponent x"
  define u where "u = (2 powi (e - 52) :: rat)"
  have x: "x \<noteq> 0" "\<bar>x\<bar> = x" using assms by auto
  have u: "0 < u" by (simp add: u_def)
  have e: "53 \<le> e" unfolding e_def using assms x by (intro bit_exponent_ge) (simp_all add: power_int_def)
  have "2 powi e \<le> x" using bit_exponent_bounds(1) [of x] x by (simp add: e_def)
  moreover have eu: "2 powi e = 2 ^ 52 * u" by (simp add: u_def power_int_diff)
  ultimately have "2 ^ 52 \<le> x / u" using u by (simp add: field_simps)
  then have "2 ^ 52 \<le> round_half_even (x / u)" by (intro round_half_even_ge) simp
  then have "of_int (2 ^ 52) * u \<le> of_int (round_half_even (x / u)) * u"
    using u by (intro mult_right_mono) (simp_all only: of_int_le_iff)
  then have "2 powi e \<le> round_double x"
    using x by (simp add: round_double_def Let_def eu) (simp add: u_def e_def)
  moreover have "(2 ^ 53 :: rat) \<le> 2 powi e"
    using e power_int_increasing [of 53 e "2 :: rat"] by (simp add: power_int_def)
  ultimately show ?thesis by linarith
qed

lemma to_double_fin:
  assumes "\<bar>x\<bar> \<le> 2 ^ 200"
  shows "to_double x = Fin (round_double x)"
proof -
  have "\<bar>round_double x\<bar> \<le> 2 * 2 ^ 200"
  proof -
    have "\<bar>x\<bar> / 2 ^ 53 \<le> \<bar>x\<bar>" by simp
    then have "\<bar>round_double x\<bar> \<le> \<bar>x\<bar> + \<bar>x\<bar>" using round_double_error [of x] by linarith
    also have "\<dots> \<le> 2 ^ 200 + 2 ^ 200" by (intro add_mono assms)
    finally show ?thesis by simp
  qed
  moreover have "(2 * 2 ^ 200 :: rat) < 2 ^ 1024" by simp
  ultimately show ?thesis by (auto simp: to_double_def Let_def abs_le_iff)
qed

lemma to_double_int [simp]:
  assumes "\<bar>n\<bar> \<le> 2 ^ 53"
  shows "to_double (of_int n) = Fin (of_int n)"
proof -
  have "\<bar>of_int n :: rat\<bar> \<le> of_int (2 ^ 53)" using assms by (simp only: of_int_abs [symmetric] of_int_le_iff)
  then have "\<bar>of_int n :: rat\<bar> \<le> 2 ^ 200" by simp
  then show ?thesis using assms by (simp add: to_double_fin)
qed

lemma to_double_nat [simp]:
  assumes "n \<le> 2 ^ 53"
  shows "to_double (of_nat n) = Fin (of_nat n)"
  using to_double_int [of "int n"] assms by simp

lemma to_double_large:
  assumes "2 ^ 53 \<le> x"
  obtains "to_double x = PosInf" | d where "to_double x = Fin d" "2 ^ 53 \<le> d"
proof (cases "2 ^ 1024 \<le> round_double x")
  case True
  then show ?thesis by (intro that(1)) (simp only: to_double_def Let_def if_True)
next
  case False
  have "\<not> round_double x \<le> - (2 ^ 1024)" using round_double_large [OF assms] by simp
  then have "to_double x = Fin (round_double x)" using False by (simp only: to_double_def Let_def if_False)
  then show ?thesis using round_double_large [OF assms] by (intro that(2))
qed

text \<open>The floor and the ceiling of a quotient survive its rounding.\<close>

lemma round_quotient_strict:
  fixes a b :: nat
  assumes "a < 2 ^ 53" "0 < b" "\<not> b dvd a"
  shows "of_nat (a div b) < round_double (of_nat a / of_nat b)"
    and "round_double (of_nat a / of_nat b) < of_nat (a div b) + 1"
proof -
  define x where "x = (of_nat a / of_nat b :: rat)"
  have r: "0 < a mod b" "a mod b < b" using assms by (auto simp: dvd_eq_mod_eq_0)
  have x: "x = of_nat (a div b) + of_nat (a mod b) / of_nat b"
    using assms(2) unfolding x_def by (simp add: field_simps flip: of_nat_mult of_nat_add)
  have lo: "1 / of_nat b \<le> of_nat (a mod b) / (of_nat b :: rat)"
    using r by (intro divide_right_mono) auto
  have "of_nat (a mod b) + 1 \<le> (of_nat b :: rat)"
    using r(2) by (metis Suc_leI of_nat_Suc of_nat_le_iff add.commute)
  then have hi: "of_nat (a mod b) / of_nat b + 1 / of_nat b \<le> (1 :: rat)"
    using assms(2) by (simp add: field_simps)
  have "(of_nat a :: rat) < 2 ^ 53" using assms(1) by (metis of_nat_less_iff of_nat_numeral of_nat_power)
  then have "\<bar>x\<bar> / 2 ^ 53 < 1 / of_nat b" using assms(2) by (simp add: x_def field_simps)
  then have "\<bar>round_double x - x\<bar> < 1 / of_nat b" using round_double_error [of x] by linarith
  then show "of_nat (a div b) < round_double (of_nat a / of_nat b)"
    and "round_double (of_nat a / of_nat b) < of_nat (a div b) + 1"
    using x lo hi unfolding x_def [symmetric] abs_less_iff by linarith+
qed

lemma round_quotient_dvd:
  fixes a b :: nat
  assumes "a < 2 ^ 53" "0 < b" "b dvd a"
  shows "round_double (of_nat a / of_nat b) = of_nat (a div b)"
proof -
  have "(of_nat a / of_nat b :: rat) = of_int (int (a div b))"
    using assms by (simp add: of_nat_of_nat_div_aux real_of_nat_div)
  moreover have "\<bar>int (a div b)\<bar> \<le> 2 ^ 53"
    using order_trans [OF div_le_dividend [of a b] less_imp_le [OF assms(1)]] by simp
  ultimately show ?thesis using round_double_int by (metis of_int_of_nat_eq)
qed

lemma quotient_bound:
  fixes a b :: nat
  assumes "a < 2 ^ 53" "0 < b"
  shows "\<bar>of_nat a / of_nat b :: rat\<bar> \<le> 2 ^ 200"
proof -
  have "(of_nat a :: rat) < 2 ^ 53" using assms(1) by (metis of_nat_less_iff of_nat_numeral of_nat_power)
  moreover have "(of_nat a / of_nat b :: rat) \<le> of_nat a"
    using assms(2) divide_left_mono [of 1 "of_nat b" "of_nat a :: rat"] by simp
  ultimately show ?thesis by simp
qed

lemma num_floor_quotient [simp]:
  fixes a b :: nat
  assumes "a < 2 ^ 53" "0 < b"
  shows "num_floor (num_div (Fin (of_nat a)) (Fin (of_nat b))) = Fin (of_nat (a div b))"
proof -
  have "\<lfloor>round_double (of_nat a / of_nat b)\<rfloor> = int (a div b)"
  proof (cases "b dvd a")
    case False
    then show ?thesis using round_quotient_strict [OF assms False] by (simp add: floor_eq_iff)
  next
    case True
    then show ?thesis by (simp only: round_quotient_dvd [OF assms] floor_of_nat)
  qed
  then show ?thesis using assms(2) by (simp add: to_double_fin [OF quotient_bound [OF assms]])
qed

definition div_up :: "nat \<Rightarrow> nat \<Rightarrow> nat" where
  "div_up a b = a div b + (if b dvd a then 0 else 1)"

lemma num_ceil_quotient [simp]:
  fixes a b :: nat
  assumes "a < 2 ^ 53" "0 < b"
  shows "num_ceil (num_div (Fin (of_nat a)) (Fin (of_nat b))) = Fin (of_nat (div_up a b))"
proof -
  have "\<lceil>round_double (of_nat a / of_nat b)\<rceil> = int (div_up a b)"
  proof (cases "b dvd a")
    case False
    then show ?thesis using round_quotient_strict [OF assms False] by (simp add: ceiling_eq_iff div_up_def)
  next
    case True
    then show ?thesis by (simp only: round_quotient_dvd [OF assms] ceiling_of_nat) (simp add: div_up_def)
  qed
  then show ?thesis using assms(2) by (simp add: to_double_fin [OF quotient_bound [OF assms]])
qed

lemma div_up_covers: "0 < b \<Longrightarrow> a \<le> div_up a b * b" "0 < b \<Longrightarrow> div_up a b * b < a + b"
proof -
  assume b: "0 < b"
  have "a = a div b * b + a mod b" by simp
  moreover have "a mod b < b" using b by simp
  moreover have "b dvd a \<longleftrightarrow> a mod b = 0" by (simp add: dvd_eq_mod_eq_0)
  ultimately show "a \<le> div_up a b * b" "div_up a b * b < a + b"
    unfolding div_up_def by (cases "b dvd a"; simp add: distrib_right; linarith)+
qed

end
