(* ===== verification/Fake_Redis.thy ===== *)
theory Fake_Redis
  imports Lua_Number Text_Format
begin

text \<open>
  The Redis the script of \<open>RedisStorage\<close> runs on, as the repository itself models it:
  \<open>FakeRedis\<close> of \<open>src/storage/redis/script_tests.rs\<close>, a keyspace with a clock in microseconds,
  expiry times and keys of other types, its commands, and the conversions between Redis and Lua
  values (arguments of \<open>redis.call\<close>, replies of commands, the script's reply).

  The Lua interpreter is not part of the repository: \<open>tonumber\<close> on strings and the text of a
  number that is no integer are a record of parameters, and \<open>lua_ok\<close> is what the script relies
  on: a decimal numeral reads as its value, correctly rounded.
\<close>

section \<open>Lua values\<close>

record lua =
  tonumber :: "rstring \<Rightarrow> lua_number option"
  number_text :: "lua_number \<Rightarrow> rstring"

definition lua_ok :: "lua \<Rightarrow> bool" where
  "lua_ok lua \<longleftrightarrow> (\<forall>n. tonumber lua (decimal n) = Some (to_double (of_nat n)))"

text \<open>The ways a command or a script fails; the harness keeps them as texts.\<close>

datatype script_error =
    ErrorReply rstring
  | WrongType
  | InvalidExpire rstring
  | SetOptions "rstring list"
  | NotInHarness "rstring list"
  | NoCommand
  | BadArgument
  | BadArithmetic
  | NotAnArray
  | WrongLength nat
  | NotAnInteger nat

datatype lua_value =
    LNil
  | LBool bool
  | LNum lua_number
  | LStr rstring
  | LTable "lua_value list"
  | LErr script_error
  | LStatus rstring

text \<open>\<open>tonumber\<close>, and the coercion of an operand of an arithmetic operation.\<close>

fun lua_tonumber :: "lua \<Rightarrow> lua_value \<Rightarrow> lua_number option" where
  "lua_tonumber lua (LNum n) = Some n"
| "lua_tonumber lua (LStr s) = tonumber lua s"
| "lua_tonumber lua _ = None"

text \<open>\<open>type(v) == "table"\<close> and \<open>v[i]\<close> on an array, counting from one.\<close>

fun is_table :: "lua_value \<Rightarrow> bool" where
  "is_table (LTable _) = True"
| "is_table (LErr _) = True"
| "is_table (LStatus _) = True"
| "is_table _ = False"

fun lua_index :: "lua_value \<Rightarrow> nat \<Rightarrow> lua_value" where
  "lua_index (LTable vs) i = (if 1 \<le> i \<and> i \<le> length vs then vs ! (i - 1) else LNil)"
| "lua_index _ _ = LNil"

section \<open>The keyspace\<close>

record fake_redis =
  now_us :: nat
  redis_data :: "rstring \<rightharpoonup> rstring \<times> nat option"
  redis_sets :: "(rstring \<times> rstring \<times> nat option) list"
  other_types :: "rstring set"

definition fake_redis_default :: fake_redis where
  "fake_redis_default = \<lparr>now_us = 0, redis_data = Map.empty, redis_sets = [], other_types = {}\<rparr>"

definition live :: "fake_redis \<Rightarrow> rstring \<Rightarrow> rstring option" where
  "live r key =
     (case redis_data r key of
        Some (v, expiry) \<Rightarrow> if (case expiry of None \<Rightarrow> True | Some t \<Rightarrow> now_us r < t) then Some v else None
      | None \<Rightarrow> None)"

datatype answer = ANil | AOk | AInt int | ABulk rstring | AArray "rstring list"

definition to_ascii_uppercase :: "rstring \<Rightarrow> rstring" where
  "to_ascii_uppercase s = map (\<lambda>c. if 97 \<le> c \<and> c \<le> 122 then c - 32 else c) s"

definition eq_ignore_ascii_case :: "rstring \<Rightarrow> rstring \<Rightarrow> bool" where
  "eq_ignore_ascii_case a b \<longleftrightarrow> to_ascii_uppercase a = to_ascii_uppercase b"

text \<open>\<open>str::parse::<u64>\<close>: an optional plus sign, at least one digit, no overflow.\<close>

definition parse_u64 :: "rstring \<Rightarrow> nat option" where
  "parse_u64 s =
     (let ds = (if s \<noteq> [] \<and> hd s = 43 then tl s else s)
      in if ds \<noteq> [] \<and> list_all is_digit ds \<and> parse_decimal ds \<le> u64_max
         then Some (parse_decimal ds) else None)"

definition parse_i64 :: "rstring \<Rightarrow> int option" where
  "parse_i64 s =
     (if s \<noteq> [] \<and> hd s = 45
      then (if tl s \<noteq> [] \<and> list_all is_digit (tl s) \<and> parse_decimal (tl s) \<le> 2 ^ 63
            then Some (- int (parse_decimal (tl s))) else None)
      else (case parse_u64 s of
              Some n \<Rightarrow> if n < 2 ^ 63 then Some (int n) else None
            | None \<Rightarrow> None))"

definition positive :: "rstring \<Rightarrow> (nat, script_error) result" where
  "positive amount =
     (case parse_u64 amount of
        Some n \<Rightarrow> if 0 < n then Ok n else Err (InvalidExpire amount)
      | None \<Rightarrow> Err (InvalidExpire amount))"

text \<open>The options of \<open>SET\<close>: the expiry in milliseconds.\<close>

definition set_expiry :: "rstring list \<Rightarrow> (nat option, script_error) result" where
  "set_expiry options =
     (case options of
        [] \<Rightarrow> Ok None
      | [unit, amount] \<Rightarrow>
          if eq_ignore_ascii_case unit (lit ''PX'') then map_result Some id (positive amount)
          else if eq_ignore_ascii_case unit (lit ''EX'')
            then map_result (\<lambda>n. Some (n * 1000)) id (positive amount)
          else Err (SetOptions options)
      | _ \<Rightarrow> Err (SetOptions options))"

definition set_key :: "fake_redis \<Rightarrow> rstring \<Rightarrow> rstring \<Rightarrow> nat option \<Rightarrow> fake_redis" where
  "set_key r key v expiry_ms =
     r\<lparr>redis_data := (redis_data r)(key \<mapsto> (v, map_option (\<lambda>ms. now_us r + ms * 1000) expiry_ms)),
       redis_sets := redis_sets r @ [(key, v, expiry_ms)],
       other_types := other_types r - {key}\<rparr>"

definition del_keys :: "fake_redis \<Rightarrow> rstring list \<Rightarrow> fake_redis" where
  "del_keys r keys =
     r\<lparr>redis_data := (redis_data r) |` (- set keys), other_types := other_types r - set keys\<rparr>"

definition pttl :: "fake_redis \<Rightarrow> rstring \<Rightarrow> int" where
  "pttl r key =
     (case (live r key, redis_data r key) of
        (None, _) \<Rightarrow> - 2
      | (Some _, Some (_, Some t)) \<Rightarrow> int ((t - now_us r) div 1000)
      | (Some _, _) \<Rightarrow> - 1)"

text \<open>One command. The harness would panic on an empty one, which no script sends. Times are natural numbers: the
  expiry of a key, at most \<open>2 ^ 64\<close> milliseconds away, is not wrapped.\<close>

fun command :: "fake_redis \<Rightarrow> rstring list \<Rightarrow> (answer, script_error) result \<times> fake_redis" where
  "command r [] = (Err NoCommand, r)"
| "command r (name # args) =
     (let n = to_ascii_uppercase name; unknown = (Err (NotInHarness (name # args)), r)
      in if n = lit ''GET'' then
           (case args of
              [key] \<Rightarrow>
                if key \<in> other_types r then (Err WrongType, r)
                else (Ok (case live r key of None \<Rightarrow> ANil | Some v \<Rightarrow> ABulk v), r)
            | _ \<Rightarrow> unknown)
         else if n = lit ''SET'' then
           (case args of
              key # v # options \<Rightarrow>
                (case set_expiry options of
                   Err e \<Rightarrow> (Err e, r)
                 | Ok expiry_ms \<Rightarrow> (Ok AOk, set_key r key v expiry_ms))
            | _ \<Rightarrow> unknown)
         else if (n = lit ''DEL'' \<or> n = lit ''EXISTS'') \<and> args \<noteq> [] then
           (let found = length (filter (\<lambda>key. live r key \<noteq> None \<or> key \<in> other_types r) args)
            in (Ok (AInt (int found)), if n = lit ''DEL'' then del_keys r args else r))
         else if n = lit ''PTTL'' then
           (case args of [key] \<Rightarrow> (Ok (AInt (pttl r key)), r) | _ \<Rightarrow> unknown)
         else if n = lit ''TIME'' \<and> args = [] then
           (Ok (AArray [decimal (now_us r div 1000000), decimal (now_us r mod 1000000)]), r)
         else unknown)"

declare command.simps [simp del]

section \<open>Between Redis and Lua\<close>

text \<open>\<open>Display\<close> of an \<open>i64\<close>.\<close>

definition integer_text :: "int \<Rightarrow> rstring" where
  "integer_text z = (if z < 0 then 45 # decimal (nat (- z)) else decimal (nat z))"

fun redis_arg :: "lua \<Rightarrow> lua_value \<Rightarrow> (rstring, script_error) result" where
  "redis_arg lua (LStr s) = Ok s"
| "redis_arg lua (LNum (Fin x)) =
     (if x = of_int \<lfloor>x\<rfloor> \<and> \<bar>x\<bar> < 9000000000000000000 then Ok (integer_text \<lfloor>x\<rfloor>)
      else Ok (number_text lua (Fin x)))"
| "redis_arg lua (LNum n) = Ok (number_text lua n)"
| "redis_arg lua _ = Err BadArgument"

fun redis_args :: "lua \<Rightarrow> lua_value list \<Rightarrow> (rstring list, script_error) result" where
  "redis_args lua [] = Ok []"
| "redis_args lua (v # vs) =
     (case redis_arg lua v of
        Err e \<Rightarrow> Err e
      | Ok a \<Rightarrow> map_result (\<lambda>as. a # as) id (redis_args lua vs))"

fun to_lua :: "answer \<Rightarrow> lua_value" where
  "to_lua ANil = LBool False"
| "to_lua AOk = LStatus (lit ''OK'')"
| "to_lua (AInt n) = LNum (to_double (of_int n))"
| "to_lua (ABulk s) = LStr s"
| "to_lua (AArray items) = LTable (map LStr items)"

text \<open>\<open>redis.call\<close>: an error ends the script. \<open>redis.pcall\<close>: it becomes an error table.\<close>

definition redis_call ::
  "lua \<Rightarrow> fake_redis \<Rightarrow> lua_value list \<Rightarrow> (lua_value, script_error) result \<times> fake_redis" where
  "redis_call lua r args =
     (case redis_args lua args of
        Err e \<Rightarrow> (Err e, r)
      | Ok as \<Rightarrow> (case command r as of (res, r') \<Rightarrow> (map_result to_lua id res, r')))"

definition redis_pcall :: "lua \<Rightarrow> fake_redis \<Rightarrow> lua_value list \<Rightarrow> lua_value \<times> fake_redis" where
  "redis_pcall lua r args =
     (case redis_call lua r args of
        (Ok v, r') \<Rightarrow> (v, r')
      | (Err e, r') \<Rightarrow> (LErr e, r'))"

text \<open>\<open>n as i64\<close> of a double: truncated, clamped, and zero for NaN.\<close>

fun as_i64 :: "lua_number \<Rightarrow> int" where
  "as_i64 (Fin x) =
     (let t = (if 0 \<le> x then \<lfloor>x\<rfloor> else \<lceil>x\<rceil>) in max (- (2 ^ 63)) (min t (2 ^ 63 - 1)))"
| "as_i64 PosInf = 2 ^ 63 - 1"
| "as_i64 NegInf = - (2 ^ 63)"
| "as_i64 NaN = 0"

text \<open>The script's reply \<open>[allowed, remaining, retry_after_us, reset_after_us]\<close>.\<close>

type_synonym reply = "int \<times> int \<times> int \<times> int"

fun reply_item :: "nat \<Rightarrow> lua_value \<Rightarrow> (int, script_error) result" where
  "reply_item i (LNum n) = Ok (as_i64 n)"
| "reply_item i (LStr s) = (case parse_i64 s of Some z \<Rightarrow> Ok z | None \<Rightarrow> Err (NotAnInteger i))"
| "reply_item i _ = Err (NotAnInteger i)"

fun to_reply :: "lua_value \<Rightarrow> (reply, script_error) result" where
  "to_reply (LErr e) = Err e"
| "to_reply (LStatus _) = Err (WrongLength 0)"
| "to_reply (LTable vs) =
     (case vs of
        [v1, v2, v3, v4] \<Rightarrow>
          (case reply_item 1 v1 of Err e \<Rightarrow> Err e | Ok a \<Rightarrow>
          (case reply_item 2 v2 of Err e \<Rightarrow> Err e | Ok b \<Rightarrow>
          (case reply_item 3 v3 of Err e \<Rightarrow> Err e | Ok c \<Rightarrow>
          (case reply_item 4 v4 of Err e \<Rightarrow> Err e | Ok d \<Rightarrow> Ok (a, b, c, d)))))
      | _ \<Rightarrow> Err (WrongLength (length vs)))"
| "to_reply _ = Err NotAnArray"

section \<open>Laws\<close>

lemma lua_ok_number: "lua_ok lua \<Longrightarrow> tonumber lua (decimal n) = Some (to_double (of_nat n))"
  by (simp add: lua_ok_def)

lemma tonumber_exact: "lua_ok lua \<Longrightarrow> n \<le> 2 ^ 53 \<Longrightarrow> tonumber lua (decimal n) = Some (Fin (of_nat n))"
  by (simp only: lua_ok_number to_double_nat)

lemma parse_u64_decimal [simp]: "n \<le> u64_max \<Longrightarrow> parse_u64 (decimal n) = Some n"
proof -
  assume n: "n \<le> u64_max"
  have "hd (decimal n) \<in> set (decimal n)" by simp
  then have "hd (decimal n) \<noteq> 43" using decimal_digits by (fastforce simp: is_digit_def)
  then show ?thesis using n decimal_digits by (auto simp: parse_u64_def Let_def list_all_iff)
qed

lemma integer_text_nat [simp]: "integer_text (int n) = decimal n"
  by (simp add: integer_text_def)

lemma redis_arg_nat [simp]: "n \<le> 2 ^ 53 \<Longrightarrow> redis_arg lua (LNum (Fin (of_nat n))) = Ok (decimal n)"
proof -
  assume "n \<le> 2 ^ 53"
  then have "(of_nat n :: rat) \<le> of_nat (2 ^ 53)" by (simp only: of_nat_le_iff)
  then have "(of_nat n :: rat) < 9000000000000000000" by simp
  then show ?thesis by simp
qed

lemma as_i64_nat [simp]: "n \<le> 2 ^ 53 \<Longrightarrow> as_i64 (Fin (of_nat n)) = int n"
  by simp

lemma call_time:
  "redis_call lua r [LStr (lit ''TIME'')] =
     (Ok (LTable [LStr (decimal (now_us r div 1000000)), LStr (decimal (now_us r mod 1000000))]), r)"
  by (simp add: redis_call_def command.simps Let_def lit_def to_ascii_uppercase_def)

lemma pcall_get:
  "redis_pcall lua r [LStr (lit ''GET''), LStr key] =
     (if key \<in> other_types r then LErr WrongType
      else case live r key of None \<Rightarrow> LBool False | Some v \<Rightarrow> LStr v, r)"
  by (simp add: redis_pcall_def redis_call_def command.simps Let_def lit_def to_ascii_uppercase_def
      split: option.split)

lemma call_set:
  assumes "v \<le> 2 ^ 53" "0 < ms" "ms \<le> 2 ^ 53"
  shows "redis_call lua r [LStr (lit ''SET''), LStr key, LNum (Fin (of_nat v)), LStr (lit ''PX''), LNum (Fin (of_nat ms))]
    = (Ok (LStatus (lit ''OK'')), set_key r key (decimal v) (Some ms))"
proof -
  have "ms \<le> u64_max" using assms(3) by simp
  then show ?thesis
    using assms(2)
    by (simp add: redis_call_def command.simps Let_def to_ascii_uppercase_def set_expiry_def
        eq_ignore_ascii_case_def positive_def redis_arg_nat [OF assms(1)] redis_arg_nat [OF assms(3)]
        del: redis_arg.simps(2)) (simp add: lit_def)
qed

end
