(* ===== verification/Gcra_Script.thy ===== *)
theory Gcra_Script
  imports Fake_Redis Gcra_Runs
begin

text \<open>
  \<open>src/storage/gcra.lua\<close>: the GCRA check Redis runs atomically, statement by statement on Lua
  numbers and the keyspace of \<open>Fake_Redis\<close>. The value a script returns is a Lua value (an array
  of four numbers or an error reply); \<open>Err\<close> is an uncaught Lua error.

  \<open>gcra_script_eq\<close> says what the script computes on arguments in range, in natural numbers of
  microseconds: no rounding of Lua's doubles is visible.
\<close>

section \<open>The script\<close>

definition MAX_EXACT :: lua_number where
  "MAX_EXACT = Fin (2 ^ 53)"

definition fail_reply :: "string \<Rightarrow> lua_value" where
  "fail_reply reason = LErr (ErrorReply (lit ''ERR tower-rate-tier: '' @ lit reason))"

definition exact_integer :: "lua \<Rightarrow> lua_value \<Rightarrow> lua_number option" where
  "exact_integer lua v =
     (case lua_tonumber lua v of
        None \<Rightarrow> None
      | Some n \<Rightarrow>
          if \<not> num_eq n n \<or> num_less n (Fin 0) \<or> \<not> num_less n MAX_EXACT \<or> \<not> num_eq n (num_floor n)
          then None else Some n)"

text \<open>The current time: an argument, or the server's \<open>TIME\<close> when the argument is empty.\<close>

definition script_time ::
  "lua \<Rightarrow> rstring \<Rightarrow> fake_redis \<Rightarrow> (lua_number option, script_error) result \<times> fake_redis" where
  "script_time lua arg r =
     (if arg = [] then
        (case redis_call lua r [LStr (lit ''TIME'')] of
           (Err e, r') \<Rightarrow> (Err e, r')
         | (Ok time, r') \<Rightarrow>
             (case (lua_tonumber lua (lua_index time 1), lua_tonumber lua (lua_index time 2)) of
                (Some a, Some b) \<Rightarrow>
                  (Ok (exact_integer lua (LNum (num_add (num_mul a (Fin 1000000)) b))), r')
              | _ \<Rightarrow> (Err BadArithmetic, r')))
      else (Ok (exact_integer lua (LStr arg)), r))"

text \<open>The arrival time the request starts from, and whether the stored one was capped.\<close>

definition stored_tat ::
  "lua \<Rightarrow> lua_value \<Rightarrow> lua_number \<Rightarrow> lua_number \<Rightarrow> lua_number \<times> bool" where
  "stored_tat lua stored now burst_offset =
     (case lua_tonumber lua (if is_table stored then LNil else stored) of
        None \<Rightarrow> (now, False)
      | Some tat \<Rightarrow>
          if \<not> num_eq tat (num_floor tat) \<or> num_less tat now then (now, False)
          else if num_less (num_add now burst_offset) tat then (num_add now burst_offset, True)
          else (tat, False))"

definition script_set ::
  "lua \<Rightarrow> fake_redis \<Rightarrow> rstring \<Rightarrow> lua_number \<Rightarrow> lua_number \<Rightarrow> (lua_value, script_error) result \<times> fake_redis" where
  "script_set lua r key tat now =
     redis_call lua r [LStr (lit ''SET''), LStr key, LNum tat, LStr (lit ''PX''),
       LNum (num_ceil (num_div (num_sub tat now) (Fin 1000)))]"

text \<open>The last part of the script: the decision, its write and its reply.\<close>

definition script_decide ::
  "lua \<Rightarrow> rstring \<Rightarrow> lua_number \<Rightarrow> lua_number \<Rightarrow> lua_number \<Rightarrow> lua_number \<Rightarrow> lua_number \<Rightarrow> bool \<Rightarrow> fake_redis
    \<Rightarrow> (lua_value, script_error) result \<times> fake_redis" where
  "script_decide lua key emission_interval burst_offset increment now tat capped r =
     (if num_less (num_sub MAX_EXACT tat) increment
      then (Ok (fail_reply ''time values exceed the exact range of Lua numbers''), r)
      else
        let new_tat = num_add tat increment; allow_at = num_sub new_tat burst_offset
        in if num_less now allow_at then
             (case if capped then script_set lua r key tat now else (Ok LNil, r) of
                (Err e, r') \<Rightarrow> (Err e, r')
              | (Ok _, r') \<Rightarrow>
                  (Ok (LTable [LNum (Fin 0), LNum (Fin 0), LNum (num_sub allow_at now), LNum (num_sub tat now)]), r'))
           else
             (case if num_less now new_tat then script_set lua r key new_tat now else (Ok LNil, r) of
                (Err e, r') \<Rightarrow> (Err e, r')
              | (Ok _, r') \<Rightarrow>
                  let remaining = num_floor
                    (num_div (num_sub burst_offset (num_sub new_tat now)) emission_interval)
                  in (Ok (LTable [LNum (Fin 1), LNum remaining, LNum (Fin 0), LNum (num_sub new_tat now)]), r')))"

text \<open>The script once its numeric arguments are read.\<close>

definition script_check ::
  "lua \<Rightarrow> rstring \<Rightarrow> rstring \<Rightarrow> lua_number \<Rightarrow> lua_number \<Rightarrow> lua_number \<Rightarrow> fake_redis
    \<Rightarrow> (lua_value, script_error) result \<times> fake_redis" where
  "script_check lua key time_arg emission_interval burst_offset cost r =
     (case script_time lua time_arg r of
        (Err e, r1) \<Rightarrow> (Err e, r1)
      | (Ok None, r1) \<Rightarrow> (Ok (fail_reply ''invalid time''), r1)
      | (Ok (Some now), r1) \<Rightarrow>
          (case redis_pcall lua r1 [LStr (lit ''GET''), LStr key] of (stored, r2) \<Rightarrow>
           case stored_tat lua stored now burst_offset of (tat, capped) \<Rightarrow>
             script_decide lua key emission_interval burst_offset (num_mul emission_interval cost)
               now tat capped r2))"

definition gcra_script ::
  "lua \<Rightarrow> rstring list \<Rightarrow> rstring list \<Rightarrow> fake_redis \<Rightarrow> (lua_value, script_error) result \<times> fake_redis" where
  "gcra_script lua keys argv r =
     (if length keys \<noteq> 1 \<or> length argv \<noteq> 4 then (Ok (fail_reply ''expected 1 key and 4 arguments''), r)
      else (case exact_integer lua (LStr (argv ! 1)) of
         None \<Rightarrow> (Ok (fail_reply ''invalid emission interval''), r)
       | Some emission_interval \<Rightarrow>
      if num_less emission_interval (Fin 1) then (Ok (fail_reply ''invalid emission interval''), r)
      else (case exact_integer lua (LStr (argv ! 2)) of
         None \<Rightarrow> (Ok (fail_reply ''invalid burst offset''), r)
       | Some burst_offset \<Rightarrow>
      if num_less burst_offset emission_interval then (Ok (fail_reply ''invalid burst offset''), r)
      else (case exact_integer lua (LStr (argv ! 3)) of
         None \<Rightarrow> (Ok (fail_reply ''invalid cost''), r)
       | Some cost \<Rightarrow> script_check lua (keys ! 0) (argv ! 0) emission_interval burst_offset cost r))))"

text \<open>A call as the harness and Redis run it: the reply, or the error of the script.\<close>

definition run_with_args ::
  "lua \<Rightarrow> rstring \<Rightarrow> rstring list \<Rightarrow> fake_redis \<Rightarrow> (reply, script_error) result \<times> fake_redis" where
  "run_with_args lua key argv r =
     (case gcra_script lua [key] argv r of
        (Err e, r') \<Rightarrow> (Err e, r')
      | (Ok v, r') \<Rightarrow> (to_reply v, r'))"

section \<open>Exact arithmetic\<close>

abbreviation exact :: nat where
  "exact \<equiv> 9007199254740992"

abbreviation num :: "nat \<Rightarrow> lua_number" where
  "num n \<equiv> Fin (of_nat n)"

lemma exact_pow: "(2 :: nat) ^ 53 = exact" "(2 :: int) ^ 53 = 9007199254740992" "(2 :: rat) ^ 53 = 9007199254740992"
  by simp_all

lemma num_add_nat: "a + b \<le> exact \<Longrightarrow> num_add (num a) (num b) = num (a + b)"
  using to_double_nat [of "a + b"] by simp

lemma num_mul_nat: "a * b \<le> exact \<Longrightarrow> num_mul (num a) (num b) = num (a * b)"
  using to_double_nat [of "a * b"] by simp

lemma num_sub_int:
  "a \<le> exact \<Longrightarrow> b \<le> exact \<Longrightarrow> num_sub (num a) (num b) = Fin (of_int (int a - int b))"
  using to_double_int [of "int a - int b"] by (simp add: num_sub_def)

lemma num_sub_nat: "b \<le> a \<Longrightarrow> a \<le> exact \<Longrightarrow> num_sub (num a) (num b) = num (a - b)"
  using num_sub_int [of a b] by (simp add: of_nat_diff)

lemma num_ceil_thousand: "a < exact \<Longrightarrow> num_ceil (num_div (num a) (Fin 1000)) = num (div_up a 1000)"
  using num_ceil_quotient [of a 1000] by (simp del: num_ceil.simps num_div.simps num_ceil_quotient)

lemma div_up_le:
  assumes "0 < b"
  shows "div_up a b \<le> a"
proof -
  have le: "a div b * 1 \<le> a div b * b" using assms by (intro mult_le_mono2) simp
  have eq: "a div b * b + a mod b = a" by simp
  show ?thesis
  proof (cases "b dvd a")
    case True
    then show ?thesis by (simp add: div_up_def)
  next
    case False
    then have "0 < a mod b" by (simp add: dvd_eq_mod_eq_0)
    then have "a div b + 1 \<le> a" using le eq by linarith
    then show ?thesis using False by (simp add: div_up_def)
  qed
qed

lemma div_up_pos: "0 < b \<Longrightarrow> 0 < a \<Longrightarrow> 0 < div_up a b"
  using div_up_covers(1) [of b a] by (cases "div_up a b") auto

lemma script_set_eq:
  assumes "n < T" "T \<le> exact" "T < n + exact"
  shows "script_set lua r key (num T) (num n)
    = (Ok (LStatus (lit ''OK'')), set_key r key (decimal T) (Some (div_up (T - n) 1000)))"
proof -
  have "T - n < exact" using assms by linarith
  moreover have "0 < div_up (T - n) 1000" "div_up (T - n) 1000 \<le> 2 ^ 53"
    using assms div_up_pos [of 1000 "T - n"] div_up_le [of 1000 "T - n"] by simp_all
  ultimately show ?thesis
    using assms call_set [of T "div_up (T - n) 1000" lua r key]
    unfolding script_set_def by (simp only: num_sub_nat num_ceil_thousand exact_pow)
qed

text \<open>The decision on exact numbers.\<close>

definition denied_table :: "nat \<Rightarrow> nat \<Rightarrow> lua_value" where
  "denied_table retry reset = LTable [LNum (Fin 0), LNum (Fin 0), LNum (num retry), LNum (num reset)]"

definition allowed_table :: "nat \<Rightarrow> nat \<Rightarrow> lua_value" where
  "allowed_table rem reset = LTable [LNum (Fin 1), LNum (num rem), LNum (Fin 0), LNum (num reset)]"

lemma script_decide_eq:
  assumes n: "n \<le> T" and I: "T + I \<le> exact" and b: "b < exact" and e: "0 < e"
    and capped: "capped \<longrightarrow> n < T \<and> T < n + exact"
  shows "script_decide lua key (num e) (num b) (num I) (num n) (num T) capped r =
    (if n + b < T + I
     then (Ok (denied_table (T + I - b - n) (T - n)),
           if capped then set_key r key (decimal T) (Some (div_up (T - n) 1000)) else r)
     else (Ok (allowed_table ((b - (T + I - n)) div e) (T + I - n)),
           if n < T + I then set_key r key (decimal (T + I)) (Some (div_up (T + I - n) 1000)) else r))"
proof -
  have T: "T \<le> exact" using I by simp
  have guard: "\<not> num_less (num_sub MAX_EXACT (num T)) (num I)"
  proof -
    have "num_sub MAX_EXACT (num T) = num (exact - T)"
      using num_sub_nat [OF T order_refl] by (simp add: MAX_EXACT_def)
    then show ?thesis using I by simp
  qed
  have new: "num_add (num T) (num I) = num (T + I)" by (rule num_add_nat [OF I])
  have allow: "num_sub (num (T + I)) (num b) = Fin (of_int (int (T + I) - int b))"
    using num_sub_int [OF I] b by simp
  have cmp: "num_less (num n) (Fin (of_int (int (T + I) - int b))) \<longleftrightarrow> n + b < T + I"
  proof -
    have "num_less (num n) (Fin (of_int (int (T + I) - int b))) \<longleftrightarrow>
        (of_int (int n) :: rat) < of_int (int (T + I) - int b)" by simp
    also have "\<dots> \<longleftrightarrow> n + b < T + I" by (simp only: of_int_less_iff) linarith
    finally show ?thesis .
  qed
  have later: "num_less (num n) (num (T + I)) \<longleftrightarrow> n < T + I" by (simp only: num_less.simps of_nat_less_iff)
  show ?thesis
  proof (cases "n + b < T + I")
    case True
    have "num_sub (Fin (of_int (int (T + I) - int b))) (num n) = num (T + I - b - n)"
    proof -
      have "Fin (of_int (int (T + I) - int b)) = num (T + I - b)" using True by (simp add: of_nat_diff)
      then show ?thesis using num_sub_nat [of n "T + I - b"] True I by simp
    qed
    moreover have "num_sub (num T) (num n) = num (T - n)" by (rule num_sub_nat [OF n T])
    ultimately show ?thesis
      using True guard capped T
      by (simp add: script_decide_def new allow cmp Let_def denied_table_def script_set_eq
          del: num_less.simps num_add.simps of_nat_add of_int_diff of_int_of_nat_eq)
  next
    case False
    define X Y where "X = T + I - n" and "Y = b - X"
    have X: "num_sub (num (T + I)) (num n) = num X"
      unfolding X_def using n I by (intro num_sub_nat) auto
    have Y: "num_sub (num b) (num X) = num Y"
      unfolding Y_def X_def using False b by (intro num_sub_nat) auto
    have "num_floor (num_div (num Y) (num e)) = num (Y div e)"
      unfolding Y_def using b e by (intro num_floor_quotient) auto
    moreover have "n < T + I \<Longrightarrow> T + I < n + exact" using False b by linarith
    ultimately show ?thesis
      using False guard I
      unfolding X_def [symmetric] Y_def [symmetric]
      by (simp add: script_decide_def new allow cmp later X Y Let_def allowed_table_def script_set_eq
          X_def [symmetric]
          del: num_less.simps num_add.simps num_div.simps num_floor.simps of_nat_add of_int_diff of_int_of_nat_eq)
  qed
qed

section \<open>Reading the arguments, the time and the stored value\<close>

lemma exact_integer_num: "exact_integer lua (LNum (num n)) = (if n < exact then Some (num n) else None)"
  using of_nat_less_iff [of n exact, where ?'a = rat] by (auto simp: exact_integer_def MAX_EXACT_def)

lemma exact_integer_decimal:
  assumes "lua_ok lua" "n < exact"
  shows "exact_integer lua (LStr (decimal n)) = Some (num n)"
proof -
  have "tonumber lua (decimal n) = Some (num n)"
    using tonumber_exact [OF assms(1), of n] assms(2) by simp
  then show ?thesis using exact_integer_num [of lua n] assms(2) by (simp add: exact_integer_def)
qed

lemma exact_integer_SomeD:
  assumes "exact_integer lua v = Some x"
  obtains n where "x = num n" "n < exact"
proof -
  from assms obtain d where x: "x = Fin d" and d: "0 \<le> d" "d < 2 ^ 53" "d = of_int \<lfloor>d\<rfloor>"
    by (cases x) (auto simp: exact_integer_def MAX_EXACT_def split: option.splits if_splits)
  have z: "0 \<le> \<lfloor>d\<rfloor>" using d(1) by simp
  then have eq: "d = of_nat (nat \<lfloor>d\<rfloor>)" using d(3) by simp
  then have "of_nat (nat \<lfloor>d\<rfloor>) < (of_nat exact :: rat)" using d(2) by simp
  then have "nat \<lfloor>d\<rfloor> < exact" by (simp only: of_nat_less_iff)
  then show ?thesis using that [of "nat \<lfloor>d\<rfloor>"] x eq by simp
qed

lemma exact_integer_large:
  assumes "2 ^ 53 \<le> x"
  shows "exact_integer lua (LNum (to_double x)) = None"
  using assms by (cases rule: to_double_large) (auto simp: exact_integer_def MAX_EXACT_def)

text \<open>The server's time is read exactly while it is below \<open>2 ^ 53\<close>; later it is refused.\<close>

lemma script_time_server:
  assumes "lua_ok lua" "now_us r \<le> u64_max"
  shows "script_time lua [] r = (Ok (if now_us r < exact then Some (num (now_us r)) else None), r)"
proof -
  define n s u where "n = now_us r" and "s = n div 1000000" and "u = n mod 1000000"
  have n: "n = s * 1000000 + u" by (simp add: s_def u_def)
  have "s \<le> 2 ^ 53" "u \<le> 2 ^ 53" using assms(2) unfolding s_def u_def n_def by simp_all
  then have st: "script_time lua [] r
      = (Ok (exact_integer lua (LNum (num_add (num_mul (num s) (num 1000000)) (num u)))), r)"
    unfolding script_time_def call_time
    using tonumber_exact [OF assms(1)]
    by (simp add: s_def [unfolded n_def] u_def [unfolded n_def] n_def)
  have "exact_integer lua (LNum (num_add (num_mul (num s) (num 1000000)) (num u)))
      = (if n < exact then Some (num n) else None)"
  proof (cases "s * 1000000 \<le> exact")
    case True
    then have mul: "num_mul (num s) (num 1000000) = num (s * 1000000)" by (rule num_mul_nat)
    show ?thesis
    proof (cases "n < exact")
      case True
      then show ?thesis using exact_integer_num [of lua n] unfolding mul
        by (subst num_add_nat) (simp_all add: n)
    next
      case False
      then have "of_nat exact \<le> (of_nat n :: rat)" by (simp only: of_nat_le_iff)
      then have "exact_integer lua (LNum (to_double (of_nat n))) = None" by (intro exact_integer_large) simp
      then show ?thesis using False unfolding mul by (simp add: n)
    qed
  next
    case False
    then have "of_nat exact \<le> (of_nat (s * 1000000) :: rat)" by (simp only: of_nat_le_iff)
    then have "2 ^ 53 \<le> (of_nat s * 1000000 :: rat)" by simp
    then have "exact_integer lua (LNum (num_add (num_mul (num s) (num 1000000)) (num u))) = None"
    proof (cases rule: to_double_large)
      case 1
      then show ?thesis by (simp add: exact_integer_def MAX_EXACT_def)
    next
      case (2 d)
      then have "2 ^ 53 \<le> d + of_nat u" by (intro add_increasing2) auto
      then show ?thesis using 2 by (simp add: exact_integer_large)
    qed
    then show ?thesis using False n by auto
  qed
  then show ?thesis using st by (simp add: n_def)
qed

lemma script_time_client:
  "lua_ok lua \<Longrightarrow> n < exact \<Longrightarrow> script_time lua (decimal n) r = (Ok (Some (num n)), r)"
  by (simp add: script_time_def exact_integer_decimal)

lemma script_time_state [simp]: "snd (script_time lua arg r) = r"
  by (auto simp: script_time_def call_time split: option.split)

text \<open>The number a key holds, and the level the script starts from.\<close>

definition read_tat :: "lua \<Rightarrow> fake_redis \<Rightarrow> rstring \<Rightarrow> lua_number option" where
  "read_tat lua r key =
     (if key \<in> other_types r then None
      else case live r key of None \<Rightarrow> None | Some v \<Rightarrow> tonumber lua v)"

fun level :: "lua_number option \<Rightarrow> nat \<Rightarrow> nat \<Rightarrow> nat \<times> bool" where
  "level (Some (Fin x)) n b =
     (if x \<noteq> of_int \<lfloor>x\<rfloor> \<or> x < of_nat n then (n, False)
      else if of_nat (n + b) < x then (n + b, True) else (nat \<lfloor>x\<rfloor>, False))"
| "level (Some PosInf) n b = (n + b, True)"
| "level _ n b = (n, False)"

lemma level_bounds:
  assumes "level v n b = (T, capped)"
  shows "n \<le> T" "T \<le> n + b" "capped \<Longrightarrow> T = n + b"
  using assms
  by (cases "(v, n, b)" rule: level.cases;
      auto split: if_splits simp: le_nat_iff nat_le_iff le_floor_iff floor_le_iff; linarith)+

lemma stored_tat_eq:
  assumes "n + b \<le> exact" "level (read_tat lua r key) n b = (T, capped)"
  shows "stored_tat lua (fst (redis_pcall lua r [LStr (lit ''GET''), LStr key])) (num n) (num b)
    = (num T, capped)"
proof -
  have v: "lua_tonumber lua (if is_table v then LNil else v) = read_tat lua r key"
    if "v = fst (redis_pcall lua r [LStr (lit ''GET''), LStr key])" for v
    unfolding that pcall_get by (auto simp: read_tat_def split: option.split)
  show ?thesis
    using assms(2) unfolding stored_tat_def v [OF refl] num_add_nat [OF assms(1)]
    by (cases "(read_tat lua r key, n, b)" rule: level.cases)
      (auto split: if_splits)
qed

lemma gcra_script_eq:
  assumes lua: "lua_ok lua" and e: "1 \<le> e" "e \<le> b" and b: "b < exact" and c: "c < exact"
    and inc: "e * c \<le> exact" and n: "n + b \<le> exact"
    and time: "script_time lua arg r = (Ok (Some (num n)), r)"
    and level: "level (read_tat lua r key) n b = (T, capped)"
  shows "gcra_script lua [key] [arg, decimal e, decimal b, decimal c] r =
    (if exact < T + e * c
     then (Ok (fail_reply ''time values exceed the exact range of Lua numbers''), r)
     else if n + b < T + e * c
     then (Ok (denied_table (T + e * c - b - n) (T - n)),
           if capped then set_key r key (decimal T) (Some (div_up (T - n) 1000)) else r)
     else (Ok (allowed_table ((b - (T + e * c - n)) div e) (T + e * c - n)),
           if n < T + e * c then set_key r key (decimal (T + e * c)) (Some (div_up (T + e * c - n) 1000))
           else r))"
proof -
  note lb = level_bounds [OF level]
  have args: "exact_integer lua (LStr (decimal e)) = Some (num e)"
    "exact_integer lua (LStr (decimal b)) = Some (num b)"
    "exact_integer lua (LStr (decimal c)) = Some (num c)"
    using lua e b c by (auto intro: exact_integer_decimal)
  have chk: "\<not> num_less (num e) (Fin 1)" "\<not> num_less (num b) (num e)" using e by simp_all
  have "gcra_script lua [key] [arg, decimal e, decimal b, decimal c] r
      = script_decide lua key (num e) (num b) (num (e * c)) (num n) (num T) capped r"
    using stored_tat_eq [OF n level] args chk time
    by (simp add: gcra_script_def script_check_def num_mul_nat [OF inc] pcall_get
        del: num_mul.simps num_less.simps of_nat_mult)
  moreover have "script_decide lua key (num e) (num b) (num (e * c)) (num n) (num T) capped r
      = (Ok (fail_reply ''time values exceed the exact range of Lua numbers''), r)" if "exact < T + e * c"
  proof -
    have "num_sub MAX_EXACT (num T) = num (exact - T)"
      using num_sub_nat [of T exact] lb(2) n by (simp add: MAX_EXACT_def)
    moreover have "num_less (num (exact - T)) (num (e * c))"
      using that lb(2) n by (simp only: num_less.simps of_nat_less_iff)
    ultimately show ?thesis by (simp add: script_decide_def del: num_less.simps of_nat_mult)
  qed
  ultimately show ?thesis
    using script_decide_eq [of n T "e * c" b e capped lua key r] lb b e by simp
qed

section \<open>Every call of the script\<close>

text \<open>Past the exact range, numbers are only compared: the script refuses to go on with them.\<close>

lemma to_double_neg:
  assumes "x < 0"
  shows "num_less (to_double x) (num m)" "num_less (to_double x) PosInf"
proof -
  have "\<bar>x\<bar> / 2 ^ 53 < - x" using assms by (simp add: field_simps)
  then have neg: "round_double x < 0" using round_double_error [of x] by linarith
  then have "round_double x < of_nat m" using of_nat_0_le_iff [of m, where ?'a = rat] by linarith
  then show "num_less (to_double x) (num m)" "num_less (to_double x) PosInf"
    using neg by (auto simp: to_double_def Let_def)
qed

lemma num_mul_cases:
  obtains (Exact) I where "num_mul (num e) (num c) = num I" "I \<le> exact"
  | (Inf) "num_mul (num e) (num c) = PosInf"
  | (Large) d where "num_mul (num e) (num c) = Fin d" "2 ^ 53 \<le> d"
proof (cases "e * c \<le> exact")
  case True
  then show ?thesis using that(1) num_mul_nat by blast
next
  case False
  then have "of_nat exact \<le> (of_nat (e * c) :: rat)" by (simp only: of_nat_le_iff)
  then have "2 ^ 53 \<le> (of_nat (e * c) :: rat)" by simp
  then show ?thesis using that(2,3) by (cases rule: to_double_large) simp_all
qed

lemma increment_cases:
  assumes "T \<le> exact"
  obtains (Refused) "num_less (num_sub MAX_EXACT (num T)) (num_mul (num e) (num c))"
  | (Fits) I where "num_mul (num e) (num c) = num I" "T + I \<le> exact"
proof -
  have sub: "num_sub MAX_EXACT (num T) = num (exact - T)"
    using num_sub_nat [OF assms order_refl] by (simp add: MAX_EXACT_def)
  show ?thesis
  proof (cases rule: num_mul_cases [of e c])
    case (Exact I)
    show ?thesis
    proof (cases "T + I \<le> exact")
      case False
      then have "exact - T < I" using assms by linarith
      then show ?thesis
        using that(1) Exact(1) unfolding sub by (simp only: num_less.simps of_nat_less_iff)
    qed (rule that(2) [OF Exact(1)])
  next
    case Inf
    then show ?thesis using that(1) sub by simp
  next
    case (Large d)
    show ?thesis
    proof (cases "of_nat (exact - T) < d")
      case True
      then show ?thesis using that(1) Large(1) sub by simp
    next
      case False
      then have "of_nat exact \<le> (of_nat (exact - T) :: rat)" using Large(2) by simp
      then have T: "T = 0" by (simp only: of_nat_le_iff)
      then have "d = of_nat exact" using False Large(2) by simp
      then show ?thesis using that(2) [of exact] Large(1) T by simp
    qed
  qed
qed

lemma cap_cases:
  assumes "n < exact" "0 < b" "b < exact"
  obtains (Exact) T where "num_add (num n) (num b) = num T" "n < T" "T \<le> exact" "T < n + exact"
  | (Large) d where "num_add (num n) (num b) = Fin d" "2 ^ 53 < d"
proof (cases "n + b \<le> exact")
  case True
  then show ?thesis using that(1) [of "n + b"] assms num_add_nat by simp
next
  case False
  then have n: "n \<noteq> 0" using assms(3) by simp
  have "of_nat exact \<le> (of_nat (n + b) :: rat)" using False by (simp only: of_nat_le_iff)
  then have "2 ^ 53 \<le> (of_nat (n + b) :: rat)" by simp
  then have "2 ^ 53 \<le> round_double (of_nat (n + b))" by (rule round_double_large)
  moreover have "(of_nat (n + b) :: rat) \<le> of_nat (2 * exact)" using assms by (simp only: of_nat_le_iff)
  then have fin: "num_add (num n) (num b) = Fin (round_double (of_nat (n + b)))"
    using to_double_fin [of "of_nat (n + b)"] by simp
  ultimately consider "2 ^ 53 < round_double (of_nat (n + b))" | "round_double (of_nat (n + b)) = of_nat exact"
    by fastforce
  then show ?thesis
  proof cases
    case 1
    then show ?thesis using that(2) fin by blast
  next
    case 2
    then show ?thesis using that(1) [of exact] fin assms(1) n by simp
  qed
qed

lemma stored_tat_cases:
  assumes "n < exact" "0 < b" "b < exact" "stored_tat lua v (num n) (num b) = (tat, capped)"
  obtains (Exact) T where "tat = num T" "n \<le> T" "T \<le> exact" "capped \<longrightarrow> n < T \<and> T < n + exact"
  | (Large) d where "tat = Fin d" "2 ^ 53 < d"
proof -
  consider (Fresh) "tat = num n" "\<not> capped" | (Capped) "tat = num_add (num n) (num b)" "capped"
    | (Stored) x where "tat = Fin x" "x = of_int \<lfloor>x\<rfloor>" "of_nat n \<le> x" "\<not> capped"
  proof -
    obtain a where "num_add (num n) (num b) = Fin a"
      using assms(1-3) by (cases rule: cap_cases) (simp_all del: num_add.simps)
    then show thesis
      using assms(4) that unfolding stored_tat_def
      by (cases "lua_tonumber lua (if is_table v then LNil else v)"; cases "the (lua_tonumber lua (if is_table v then LNil else v))")
        (auto split: if_splits simp del: num_add.simps)
  qed
  then show ?thesis
  proof cases
    case Fresh
    then show ?thesis using that(1) [of n] assms(1) by simp
  next
    case Capped
    show ?thesis
      using assms(1-3)
    proof (cases rule: cap_cases)
      case (Exact T)
      then show ?thesis using that(1) [of T] Capped(1) by simp
    next
      case (Large d)
      then show ?thesis using that(2) Capped(1) by simp
    qed
  next
    case (Stored x)
    have "0 \<le> x" using Stored(3) of_nat_0_le_iff [of n, where ?'a = rat] by linarith
    then have x: "x = of_nat (nat \<lfloor>x\<rfloor>)" using Stored(2) by simp
    show ?thesis
    proof (cases "2 ^ 53 < x")
      case True
      then show ?thesis using that(2) Stored(1) by blast
    next
      case False
      then have "of_nat (nat \<lfloor>x\<rfloor>) \<le> (of_nat exact :: rat)" "of_nat n \<le> (of_nat (nat \<lfloor>x\<rfloor>) :: rat)"
        using x Stored(3) by simp_all
      then have "nat \<lfloor>x\<rfloor> \<le> exact" "n \<le> nat \<lfloor>x\<rfloor>" by (simp_all only: of_nat_le_iff)
      then show ?thesis using that(1) [of "nat \<lfloor>x\<rfloor>"] Stored x by simp
    qed
  qed
qed

definition script_reasons :: "string list" where
  "script_reasons = [''expected 1 key and 4 arguments'', ''invalid emission interval'', ''invalid burst offset'',
     ''invalid cost'', ''invalid time'', ''time values exceed the exact range of Lua numbers'']"

lemma script_decide_refused:
  assumes "num_less (num_sub MAX_EXACT tat) inc"
  shows "script_decide lua key ei bo inc now tat capped r
    = (Ok (fail_reply ''time values exceed the exact range of Lua numbers''), r)"
  using assms by (simp add: script_decide_def)

lemma script_decide_cases:
  assumes "n < exact" "0 < b" "b < exact" "stored_tat lua v (num n) (num b) = (tat, capped)"
  obtains (Refused) "num_less (num_sub MAX_EXACT tat) (num_mul (num e) (num c))"
  | (Exact) T I where "tat = num T" "num_mul (num e) (num c) = num I" "n \<le> T" "T + I \<le> exact"
      "capped \<longrightarrow> n < T \<and> T < n + exact"
  using assms
proof (cases rule: stored_tat_cases)
  case (Exact T)
  show ?thesis
    using Exact(3)
  proof (cases rule: increment_cases [of _ e c])
    case Refused
    then show ?thesis using that(1) Exact(1) by simp
  next
    case (Fits I)
    then show ?thesis using that(2) Exact by blast
  qed
next
  case (Large d)
  then have neg: "9007199254740992 - d < 0" by simp
  have "num_less (num_sub MAX_EXACT tat) (num_mul (num e) (num c))"
  proof (cases rule: num_mul_cases [of e c])
    case (Large d')
    then have "num_less (to_double (9007199254740992 - d)) (Fin d')"
      using to_double_neg(1) [OF neg, of exact] by (cases "to_double (9007199254740992 - d)") auto
    then show ?thesis using \<open>tat = Fin d\<close> Large(1) by (simp add: num_sub_def MAX_EXACT_def)
  qed (use to_double_neg [OF neg] \<open>tat = Fin d\<close> in \<open>simp_all add: num_sub_def MAX_EXACT_def\<close>)
  then show ?thesis by (rule that(1))
qed

lemma script_time_cases:
  assumes "lua_ok lua" "now_us r \<le> u64_max"
  obtains (Invalid) "script_time lua arg r = (Ok None, r)"
  | (Time) n where "script_time lua arg r = (Ok (Some (num n)), r)" "n < exact" "arg = [] \<longrightarrow> n = now_us r"
proof (cases "arg = []")
  case True
  then show ?thesis using script_time_server [OF assms] that by (cases "now_us r < exact") auto
next
  case False
  then show ?thesis
    using that by (cases "exact_integer lua (LStr arg)") (auto simp: script_time_def elim: exact_integer_SomeD)
qed

lemma script_check_cases:
  assumes "lua_ok lua" "now_us r \<le> u64_max" "0 < b" "b < exact"
    and "script_check lua key arg (num e) (num b) (num c) r = (res, r')"
  obtains (Failed) reason where "reason \<in> set script_reasons" "res = Ok (fail_reply reason)" "r' = r"
  | (Decided) n T I capped where "arg = [] \<longrightarrow> n = now_us r" "n \<le> T" "T + I \<le> exact"
      "capped \<longrightarrow> n < T \<and> T < n + exact"
      "script_decide lua key (num e) (num b) (num I) (num n) (num T) capped r = (res, r')"
  using assms(1,2)
proof (cases rule: script_time_cases [where arg = arg])
  case Invalid
  then show ?thesis using that(1) [of "''invalid time''"] assms(5)
    by (simp add: script_check_def script_reasons_def)
next
  case (Time n)
  define v where "v = fst (redis_pcall lua r [LStr (lit ''GET''), LStr key])"
  obtain tat capped where st: "stored_tat lua v (num n) (num b) = (tat, capped)" by fastforce
  have eq: "(res, r') = script_decide lua key (num e) (num b) (num_mul (num e) (num c)) (num n) tat capped r"
    using assms(5) Time(1) st by (simp add: script_check_def v_def pcall_get)
  show ?thesis
    using Time(2) assms(3,4) st
  proof (cases rule: script_decide_cases [of _ _ _ _ _ _ e c])
    case Refused
    then show ?thesis using eq script_decide_refused [OF Refused]
      by (intro that(1) [of "''time values exceed the exact range of Lua numbers''"])
        (simp_all add: script_reasons_def)
  next
    case (Exact T I)
    show ?thesis using Time(3) Exact(3,4,5) eq Exact(1,2) by (intro that(2)) simp_all
  qed
qed

lemma gcra_script_args_cases:
  obtains (Failed) reason where "reason \<in> set script_reasons"
      "gcra_script lua keys argv r = (Ok (fail_reply reason), r)"
  | (Args) key e b c where "keys = [key]" "0 < e" "e \<le> b" "b < exact" "c < exact"
      "gcra_script lua keys argv r = script_check lua key (argv ! 0) (num e) (num b) (num c) r"
proof -
  have "(\<exists>reason \<in> set script_reasons. gcra_script lua keys argv r = (Ok (fail_reply reason), r)) \<or>
    (\<exists>x y z. exact_integer lua (LStr (argv ! 1)) = Some x \<and> exact_integer lua (LStr (argv ! 2)) = Some y \<and>
      exact_integer lua (LStr (argv ! 3)) = Some z \<and> \<not> num_less x (Fin 1) \<and> \<not> num_less y x \<and> length keys = 1 \<and>
      gcra_script lua keys argv r = script_check lua (keys ! 0) (argv ! 0) x y z r)"
    unfolding gcra_script_def by (simp add: script_reasons_def split: option.split)
  then show ?thesis
  proof (elim disjE bexE exE conjE)
    fix reason
    assume "reason \<in> set script_reasons" "gcra_script lua keys argv r = (Ok (fail_reply reason), r)"
    then show ?thesis by (rule that(1))
  next
    fix x y z
    assume a: "exact_integer lua (LStr (argv ! 1)) = Some x" "exact_integer lua (LStr (argv ! 2)) = Some y"
      "exact_integer lua (LStr (argv ! 3)) = Some z" "\<not> num_less x (Fin 1)" "\<not> num_less y x" "length keys = 1"
      "gcra_script lua keys argv r = script_check lua (keys ! 0) (argv ! 0) x y z r"
    obtain e where e: "x = num e" using a(1) by (rule exact_integer_SomeD)
    obtain b where b: "y = num b" "b < exact" using a(2) by (rule exact_integer_SomeD)
    obtain c where c: "z = num c" "c < exact" using a(3) by (rule exact_integer_SomeD)
    have "0 < e" using a(4) e by (cases e) auto
    moreover have "e \<le> b" using a(5) e b by simp
    moreover have "keys = [keys ! 0]" using a(6) by (cases keys) auto
    ultimately show ?thesis using that(2) a(7) b c e by blast
  qed
qed

lemma gcra_script_cases:
  assumes "lua_ok lua" "now_us r \<le> u64_max" "gcra_script lua keys argv r = (res, r')"
  obtains (Failed) reason where "reason \<in> set script_reasons" "res = Ok (fail_reply reason)" "r' = r"
  | (Decided) key n T I b e capped where "keys = [key]" "argv ! 0 = [] \<longrightarrow> n = now_us r"
      "n \<le> T" "T + I \<le> exact" "b < exact" "0 < e" "capped \<longrightarrow> n < T \<and> T < n + exact"
      "script_decide lua key (num e) (num b) (num I) (num n) (num T) capped r = (res, r')"
proof (cases rule: gcra_script_args_cases [of lua keys argv r])
  case (Failed reason)
  then show ?thesis using that(1) assms(3) by simp
next
  case (Args key e b c)
  have b: "0 < b" using Args(2,3) by simp
  have run: "script_check lua key (argv ! 0) (num e) (num b) (num c) r = (res, r')"
    using Args(6) assms(3) by simp
  show ?thesis
    using assms(1,2) b Args(4) run
  proof (cases rule: script_check_cases)
    case (Failed reason)
    then show ?thesis by (rule that(1))
  next
    case (Decided n T I capped)
    show ?thesis by (rule that(2) [OF Args(1) Decided(1-3) Args(4,2) Decided(4,5)])
  qed
qed

text \<open>What a decided call replies and writes.\<close>

lemma script_decided:
  assumes "n \<le> T" "T + I \<le> exact" "b < exact" "0 < e" "capped \<longrightarrow> n < T \<and> T < n + exact"
    and "script_decide lua key (num e) (num b) (num I) (num n) (num T) capped r = (res, r')"
  obtains (Denied) "n + b < T + I" "res = Ok (denied_table (T + I - b - n) (T - n))" "\<not> capped" "r' = r"
  | (Capped) "n + b < T + I" "res = Ok (denied_table (T + I - b - n) (T - n))" "capped" "n < T"
      "r' = set_key r key (decimal T) (Some (div_up (T - n) 1000))"
  | (Fresh) "T + I = n" "res = Ok (allowed_table ((b - (T + I - n)) div e) (T + I - n))" "r' = r"
  | (Allowed) "T + I \<le> n + b" "n < T + I" "res = Ok (allowed_table ((b - (T + I - n)) div e) (T + I - n))"
      "r' = set_key r key (decimal (T + I)) (Some (div_up (T + I - n) 1000))"
proof (cases "n + b < T + I")
  case True
  with script_decide_eq [where lua = lua and key = key and r = r, OF assms(1-5)] assms(6)
  have "(res, r') = (Ok (denied_table (T + I - b - n) (T - n)),
      if capped then set_key r key (decimal T) (Some (div_up (T - n) 1000)) else r)"
    by (simp only: if_True)
  then show ?thesis using True that(1,2) assms(5) by (cases capped) simp_all
next
  case False
  with script_decide_eq [where lua = lua and key = key and r = r, OF assms(1-5)] assms(6)
  have "(res, r') = (Ok (allowed_table ((b - (T + I - n)) div e) (T + I - n)),
      if n < T + I then set_key r key (decimal (T + I)) (Some (div_up (T + I - n) 1000)) else r)"
    by (simp only: if_False)
  then show ?thesis using False that(3,4) assms(1) by (cases "n < T + I") simp_all
qed

lemma px_covers:
  "n < t \<Longrightarrow> 1 \<le> div_up (t - n) 1000 \<and> t \<le> n + div_up (t - n) 1000 * 1000 \<and>
     n + div_up (t - n) 1000 * 1000 < t + 1000"
  using div_up_pos [of 1000 "t - n"] div_up_covers [of 1000 "t - n"] by linarith

section \<open>Calls in range\<close>

text \<open>The arguments \<open>RedisStorage\<close> sends, at a time a burst away from the end of the exact range.\<close>

definition call_ok :: "nat \<Rightarrow> nat \<Rightarrow> nat \<Rightarrow> nat \<Rightarrow> bool" where
  "call_ok e b c n \<longleftrightarrow> 1 \<le> e \<and> e \<le> b \<and> e * c \<le> b \<and> n + 2 * b \<le> exact"

lemma call_okD:
  assumes "call_ok e b c n"
  shows "1 \<le> e" "e \<le> b" "b < exact" "c < exact" "e * c \<le> exact" "n + b \<le> exact" "n < exact"
proof -
  have "1 * c \<le> e * c" using assms unfolding call_ok_def by (intro mult_le_mono1) simp
  then show "1 \<le> e" "e \<le> b" "b < exact" "c < exact" "e * c \<le> exact" "n + b \<le> exact" "n < exact"
    using assms unfolding call_ok_def by linarith+
qed

lemma to_reply_denied:
  "x \<le> 2 ^ 53 \<Longrightarrow> y \<le> 2 ^ 53 \<Longrightarrow> to_reply (denied_table x y) = Ok (0, 0, int x, int y)"
  by (simp add: denied_table_def)

lemma to_reply_allowed:
  "x \<le> 2 ^ 53 \<Longrightarrow> y \<le> 2 ^ 53 \<Longrightarrow> to_reply (allowed_table x y) = Ok (1, int x, 0, int y)"
  by (simp add: allowed_table_def)

lemma run_script_eq:
  assumes "lua_ok lua" "call_ok e b c n" "script_time lua arg r = (Ok (Some (num n)), r)"
    and "level (read_tat lua r key) n b = (T, capped)"
  shows "run_with_args lua key [arg, decimal e, decimal b, decimal c] r =
    (if T + e * c \<le> n + b
     then (Ok (1, int ((b - (T + e * c - n)) div e), 0, int (T + e * c - n)),
           if n < T + e * c then set_key r key (decimal (T + e * c)) (Some (div_up (T + e * c - n) 1000)) else r)
     else (Ok (0, 0, int (T + e * c - b - n), int (T - n)),
           if capped then set_key r key (decimal T) (Some (div_up (T - n) 1000)) else r))"
proof -
  note ok = call_okD [OF assms(2)] and lb = level_bounds [OF assms(4)]
  define I where "I = e * c"
  have I: "I \<le> b" "n + 2 * b \<le> exact" using assms(2) by (auto simp: call_ok_def I_def)
  have bounds: "T + I \<le> exact" "T + I - n \<le> 2 ^ 53" "T + I - b - n \<le> 2 ^ 53" "T - n \<le> 2 ^ 53"
    using I lb(2) unfolding exact_pow by linarith+
  have rem: "(b - (T + I - n)) div e \<le> 2 ^ 53"
    using ok(3) div_le_dividend [of "b - (T + I - n)" e] unfolding exact_pow by linarith
  note eq = gcra_script_eq [OF assms(1) ok(1-6) assms(3,4), unfolded I_def [symmetric]]
  show ?thesis
  proof (cases "T + I \<le> n + b")
    case True
    then have "gcra_script lua [key] [arg, decimal e, decimal b, decimal c] r =
        (Ok (allowed_table ((b - (T + I - n)) div e) (T + I - n)),
         if n < T + I then set_key r key (decimal (T + I)) (Some (div_up (T + I - n) 1000)) else r)"
      using bounds(1) unfolding eq by simp
    moreover note to_reply_allowed [OF rem bounds(2)]
    ultimately show ?thesis using True by (simp add: run_with_args_def I_def [symmetric])
  next
    case False
    then have "gcra_script lua [key] [arg, decimal e, decimal b, decimal c] r =
        (Ok (denied_table (T + I - b - n) (T - n)),
         if capped then set_key r key (decimal T) (Some (div_up (T - n) 1000)) else r)"
      using bounds(1) unfolding eq by simp
    moreover note to_reply_denied [OF bounds(3,4)]
    ultimately show ?thesis using False by (simp add: run_with_args_def I_def [symmetric])
  qed
qed

text \<open>The same key at a later time: its value is the same or has expired.\<close>

lemma read_tat_later:
  assumes "now_us r \<le> t"
  shows "read_tat lua (r\<lparr>now_us := t\<rparr>) key = None \<or> read_tat lua (r\<lparr>now_us := t\<rparr>) key = read_tat lua r key"
  using assms by (auto simp: read_tat_def live_def split: option.splits)

lemma level_later:
  assumes "level v n b = (T, False)" "n \<le> t"
  shows "level v t b = (max T t, False)"
  using assms
proof (cases "(v, n, b)" rule: level.cases)
  case (1 x n' b')
  have x: "x < of_nat t \<longleftrightarrow> nat \<lfloor>x\<rfloor> < t" if "x = of_int \<lfloor>x\<rfloor>" "of_nat n \<le> x"
  proof -
    have "0 \<le> x" using that(2) of_nat_0_le_iff [of n, where ?'a = rat] by linarith
    then have "x = of_nat (nat \<lfloor>x\<rfloor>)" using that(1) by simp
    then show ?thesis by (metis of_nat_less_iff)
  qed
  have "(of_nat n :: rat) \<le> of_nat t" using assms(2) by simp
  then show ?thesis using 1 assms x by (auto split: if_splits)
qed auto

lemma read_tat_set_key [simp]:
  "read_tat lua ((set_key r key v (Some ms))\<lparr>now_us := t\<rparr>) key =
     (if t < now_us r + ms * 1000 then tonumber lua v else None)"
  by (simp add: read_tat_def live_def set_key_def)

text \<open>A Lua that reads decimal numerals and nothing else, for concrete calls.\<close>

definition reference_lua :: lua where
  "reference_lua = \<lparr>tonumber = \<lambda>s. if s \<noteq> [] \<and> list_all is_digit s
       then Some (to_double (of_nat (parse_decimal s))) else None, number_text = \<lambda>_. []\<rparr>"

lemma reference_lua_ok: "lua_ok reference_lua"
  using decimal_digits by (auto simp: lua_ok_def reference_lua_def list_all_iff)

section \<open>Properties\<close>

text \<open>C9: the script is safe on every input. Whatever the keys, the arguments and the keyspace hold, it
  never raises a Lua error. An error reply is one of six fixed texts (so it carries neither the key nor
  an argument) and comes with an unchanged keyspace. Otherwise the script leaves the keyspace
  alone or makes one write, to its own key: an integer with an expiry of at least one millisecond;
  under the server's clock the key then lives until the stored arrival time and less than a
  millisecond longer.\<close>

theorem script_safe:
  assumes "lua_ok lua" "now_us r \<le> u64_max" "gcra_script lua keys argv r = (res, r')"
  shows "\<exists>v. res = Ok v \<and>
    (case v of
       LErr err \<Rightarrow> r' = r \<and> (\<exists>reason \<in> set script_reasons. err = ErrorReply (lit ''ERR tower-rate-tier: '' @ lit reason))
     | _ \<Rightarrow> r' = r \<or> (\<exists>key tat ms. keys = [key] \<and> r' = set_key r key (decimal tat) (Some ms) \<and> 1 \<le> ms \<and>
         (argv ! 0 = [] \<longrightarrow> tat \<le> now_us r + ms * 1000 \<and> now_us r + ms * 1000 < tat + 1000)))"
  using assms
proof (cases rule: gcra_script_cases)
  case (Failed reason)
  then show ?thesis by (auto simp: fail_reply_def)
next
  case (Decided key n T I b e capped)
  have stored: "\<exists>key' tat ms. keys = [key'] \<and> set_key r key (decimal t) (Some (div_up (t - n) 1000)) =
        set_key r key' (decimal tat) (Some ms) \<and> 1 \<le> ms \<and>
      (argv ! 0 = [] \<longrightarrow> tat \<le> now_us r + ms * 1000 \<and> now_us r + ms * 1000 < tat + 1000)" if "n < t" for t
    using px_covers [OF that] Decided(1,2) by blast
  from Decided(3-8) show ?thesis
  proof (cases rule: script_decided)
    case Denied
    then show ?thesis by (simp add: denied_table_def)
  next
    case Capped
    show ?thesis unfolding Capped(2,5) using stored [OF Capped(4)] by (simp add: denied_table_def)
  next
    case Fresh
    then show ?thesis by (simp add: allowed_table_def)
  next
    case Allowed
    show ?thesis unfolding Allowed(3,4) using stored [OF Allowed(2)] by (simp add: allowed_table_def)
  qed
qed

text \<open>A key whose value lies far ahead, as after a clock that moved back by two hours.\<close>

definition ahead_redis :: fake_redis where
  "ahead_redis = \<lparr>now_us = 5000, redis_data = [lit ''k'' \<mapsto> (decimal 7200005000, Some 7200005000)],
     redis_sets = [], other_types = {}\<rparr>"

lemma ahead_level: "level (read_tat reference_lua ahead_redis (lit ''k'')) 5000 3000 = (8000, True)"
  using tonumber_exact [OF reference_lua_ok, of 7200005000]
  by (simp add: read_tat_def live_def ahead_redis_def)

lemma ahead_run:
  "run_with_args reference_lua (lit ''k'') [[], decimal 1000, decimal 3000, decimal 1] ahead_redis
    = (Ok (0, 0, 1000, 3000), set_key ahead_redis (lit ''k'') (decimal 8000) (Some 3))"
proof -
  have "script_time reference_lua [] ahead_redis = (Ok (Some (num 5000)), ahead_redis)"
    using script_time_server [OF reference_lua_ok, of ahead_redis] by (simp add: ahead_redis_def)
  then show ?thesis
    using run_script_eq [OF reference_lua_ok _ _ ahead_level, of 1000 1 "[]"]
    by (simp add: call_ok_def div_up_def)
qed

lemma ahead_script:
  "gcra_script reference_lua [lit ''k''] [[], decimal 1000, decimal 3000, decimal 1] ahead_redis
    = (Ok (denied_table 1000 3000), set_key ahead_redis (lit ''k'') (decimal 8000) (Some 3))"
proof -
  have "script_time reference_lua [] ahead_redis = (Ok (Some (num 5000)), ahead_redis)"
    using script_time_server [OF reference_lua_ok, of ahead_redis] by (simp add: ahead_redis_def)
  then show ?thesis
    using gcra_script_eq [OF reference_lua_ok _ _ _ _ _ _ _ ahead_level, of 1000 1 "[]"]
    by (simp add: div_up_def)
qed

theorem script_safe_witness:
  "\<exists>key tat ms. set_key ahead_redis (lit ''k'') (decimal 8000) (Some 3)
     = set_key ahead_redis key (decimal tat) (Some ms) \<and> 1 \<le> ms \<and>
     tat \<le> 5000 + ms * 1000 \<and> 5000 + ms * 1000 < tat + 1000"
proof -
  have "set_key ahead_redis (lit ''k'') (decimal 8000) (Some 3) \<noteq> ahead_redis"
    by (simp add: set_key_def ahead_redis_def)
  then show ?thesis
    using script_safe [OF reference_lua_ok _ ahead_script]
    by (auto simp: denied_table_def ahead_redis_def)
qed

text \<open>C33: the type of the script's reply. Every reply that is not an error is four integers that fit an
  \<open>i64\<close> unchanged: an allowed flag of 0 or 1, no wait when allowed, a positive wait and nothing
  remaining when limited, and no negative number.\<close>

theorem script_reply_type:
  assumes "lua_ok lua" "now_us r \<le> u64_max"
    and "run_with_args lua key argv r = (Ok (allowed, rem, retry_us, reset_us), r')"
  shows "(allowed = 1 \<and> 0 \<le> rem \<and> retry_us = 0 \<or> allowed = 0 \<and> rem = 0 \<and> 0 < retry_us) \<and>
    0 \<le> reset_us \<and> rem \<le> 2 ^ 53 \<and> retry_us \<le> 2 ^ 53 \<and> reset_us \<le> 2 ^ 53"
proof -
  obtain v where v: "gcra_script lua [key] argv r = (Ok v, r')" "to_reply v = Ok (allowed, rem, retry_us, reset_us)"
    using assms(3) by (auto simp: run_with_args_def split: prod.splits result.splits)
  show ?thesis
    using assms(1,2) v(1)
  proof (cases rule: gcra_script_cases)
    case (Failed reason)
    then show ?thesis using v(2) by (simp add: fail_reply_def)
  next
    case (Decided key' n T I b e capped)
    have "(b - (T + I - n)) div e \<le> exact" using Decided(5) div_le_dividend [of "b - (T + I - n)" e] by linarith
    moreover have "T - n \<le> exact" "T + I - n \<le> exact" "T + I - b - n \<le> exact" using Decided(4) by linarith+
    note bounds = this calculation
    from Decided(3-8) show ?thesis
      by (cases rule: script_decided)
        (use bounds v(2) in \<open>auto simp: denied_table_def allowed_table_def exact_pow\<close>)
  qed
qed

theorem script_reply_type_witness: "0 < (1000 :: int) \<and> (3000 :: int) \<le> 2 ^ 53"
  using script_reply_type [OF reference_lua_ok _ ahead_run] by (simp add: ahead_redis_def)

text \<open>C10: nothing a key can hold locks a user out. Whatever is stored under the key (a value of another
  type, text, a number from a clock that has since moved back), a call in range gets an answer; when it
  is limited, the wait it is told is at most the time the request itself costs, and the same call made at
  any time after that wait is allowed.\<close>

theorem script_never_locks_out:
  assumes "lua_ok lua" "call_ok e b c (now_us r)"
    and "run_with_args lua key [[], decimal e, decimal b, decimal c] r = (res, r')"
  shows "\<exists>allowed rem retry_us reset_us. res = Ok (allowed, rem, retry_us, reset_us) \<and>
    (allowed = 1 \<or> allowed = 0 \<and> 0 < retry_us \<and> retry_us \<le> int (e * c) \<and>
      (\<forall>t. now_us r + nat retry_us \<le> t \<and> t + 2 * b \<le> 2 ^ 53 \<longrightarrow>
        (\<exists>rem' reset' r''. run_with_args lua key [[], decimal e, decimal b, decimal c] (r'\<lparr>now_us := t\<rparr>)
          = (Ok (1, rem', 0, reset'), r''))))"
proof -
  define n I where "n = now_us r" and "I = e * c"
  note ok = call_okD [OF assms(2)]
  have I: "I \<le> b" using assms(2) by (simp add: call_ok_def I_def)
  have time: "script_time lua [] s = (Ok (Some (num (now_us s))), s)" if "now_us s < exact" for s
    using script_time_server [OF assms(1), of s] that by simp
  obtain T capped where level: "level (read_tat lua r key) n b = (T, capped)" by fastforce
  note lb = level_bounds [OF level]
  note run = run_script_eq [OF assms(1,2) time [OF ok(7)] level [unfolded n_def],
      folded n_def I_def, unfolded assms(3)]
  show ?thesis
  proof (cases "T + I \<le> n + b")
    case True
    then show ?thesis using run by simp
  next
    case False
    define retry where "retry = T + I - b - n"
    have res: "res = Ok (0, 0, int retry, int (T - n))"
      and r': "r' = (if capped then set_key r key (decimal T) (Some (div_up (T - n) 1000)) else r)"
      using run False by (simp_all add: retry_def)
    have again: "\<exists>rem' reset' r''. run_with_args lua key [[], decimal e, decimal b, decimal c] (r'\<lparr>now_us := t\<rparr>)
        = (Ok (1, rem', 0, reset'), r'')" if t: "n + retry \<le> t" "t + 2 * b \<le> exact" for t
    proof -
      obtain T' capped' where lt: "level (read_tat lua (r'\<lparr>now_us := t\<rparr>) key) t b = (T', capped')" by fastforce
      have "T' \<le> max T t"
      proof (cases capped)
        case True
        have T: "T \<le> 2 ^ 53" using lb(2) ok(6) unfolding exact_pow n_def by simp
        have "level (Some (num T)) t b = (max T t, False)"
          using lb(3) [OF True] t lb(1) by (auto simp flip: of_nat_add)
        then show ?thesis
          using lt by (auto simp: r' True tonumber_exact [OF assms(1) T] split: if_splits)
      next
        case False
        have "n \<le> t" using t(1) by simp
        then show ?thesis
          using read_tat_later [of r t lua key] level_later [of _ n b T t] level lt False
          by (auto simp: r' n_def)
      qed
      then have "T' + I \<le> t + b" using t(1) I by (auto simp: retry_def max_def split: if_splits)
      moreover have "call_ok e b c t" using assms(2) t(2) by (simp add: call_ok_def)
      moreover have "script_time lua [] (r'\<lparr>now_us := t\<rparr>) = (Ok (Some (num t)), r'\<lparr>now_us := t\<rparr>)"
        using time [of "r'\<lparr>now_us := t\<rparr>"] call_okD(7) [OF \<open>call_ok e b c t\<close>] by simp
      ultimately show ?thesis using run_script_eq [OF assms(1) _ _ lt] by (simp add: I_def)
    qed
    have "0 < retry" "retry \<le> I" using False lb(2) by (auto simp: retry_def)
    moreover from \<open>retry \<le> I\<close> have "int retry \<le> int (e * c)" by (simp only: I_def of_nat_le_iff)
    ultimately show ?thesis using res again by (simp add: n_def I_def del: of_nat_mult)
  qed
qed

theorem script_never_locks_out_witness:
  "\<exists>rem' reset' r''. run_with_args reference_lua (lit ''k'') [[], decimal 1000, decimal 3000, decimal 1]
     ((set_key ahead_redis (lit ''k'') (decimal 8000) (Some 3))\<lparr>now_us := 6000\<rparr>)
     = (Ok (1, rem', 0, reset'), r'')"
  using script_never_locks_out [OF reference_lua_ok _ ahead_run]
  by (simp add: call_ok_def ahead_redis_def)

end
