(* ===== verification/Redis_Storage.thy ===== *)
theory Redis_Storage
  imports Gcra_Script Memory_Storage
begin

text \<open>
  \<open>src/storage/redis.rs\<close>: \<open>RedisStorage\<close>, which sends each check to Redis as one call of the script of
  \<open>Gcra_Script\<close>. The connection is a parameter: given a call and the server's state it answers with
  a reply or an error, or does not answer within the timeout, and leaves a new server state.
  \<open>fake_conn\<close> is the repository's fake server behind such a connection, with the ways a delivery fails. SHA-1 is a parameter as well, a function from bytes to a digest of 20
  bytes (\<open>sha1_ok\<close>).

  With the fake server the storage is a \<open>gcra_store\<close> in microseconds (the interpretation \<open>red\<close>).
\<close>

unbundle bit_operations_syntax

section \<open>Bytes and digests\<close>

text \<open>The UTF-8 bytes of a string, which \<open>str::len\<close> counts and the digests are taken of.\<close>

definition utf8_char :: "nat \<Rightarrow> u8 list" where
  "utf8_char c =
     (if c < 128 then [of_nat c]
      else if c < 2048 then [of_nat (192 + c div 64), of_nat (128 + c mod 64)]
      else if c < 65536 then
        [of_nat (224 + c div 4096), of_nat (128 + c div 64 mod 64), of_nat (128 + c mod 64)]
      else [of_nat (240 + c div 262144), of_nat (128 + c div 4096 mod 64),
            of_nat (128 + c div 64 mod 64), of_nat (128 + c mod 64)])"

definition utf8 :: "rstring \<Rightarrow> u8 list" where
  "utf8 s = concat (map utf8_char s)"

definition str_len :: "rstring \<Rightarrow> nat" where
  "str_len s = length (utf8 s)"

type_synonym digest_fn = "u8 list \<Rightarrow> u8 list"

definition sha1_ok :: "digest_fn \<Rightarrow> bool" where
  "sha1_ok sha1 \<longleftrightarrow> (\<forall>bytes. length (sha1 bytes) = 20)"

text \<open>\<open>Display\<close> of a digest: lower-case hexadecimal.\<close>

definition hex_byte :: "u8 \<Rightarrow> rstring" where
  "hex_byte b = [hex_digit (unat b div 16), hex_digit (unat b mod 16)]"

definition digest_text :: "u8 list \<Rightarrow> rstring" where
  "digest_text d = concat (map hex_byte d)"

text \<open>HMAC-SHA1. The key is an array of 64 zero bytes whose start is overwritten.\<close>

definition hmac_sha1 :: "digest_fn \<Rightarrow> u8 list \<Rightarrow> u8 list \<Rightarrow> u8 list" where
  "hmac_sha1 sha1 secret message =
     (let block = (64 :: nat);
          start = (if length secret > block then sha1 secret else secret);
          key = start @ replicate (block - length start) 0
      in sha1 (map (\<lambda>b. b XOR 0x5c) key @ sha1 (map (\<lambda>b. b XOR 0x36) key @ message)))"

section \<open>The storage and its keys\<close>

record redis_storage =
  prefix :: rstring
  redis_timeout :: duration
  hash_user_ids :: bool
  secret :: "u8 list option"
  client_clock :: bool

definition DEFAULT_TIMEOUT :: duration where
  "DEFAULT_TIMEOUT = from_millis 100"

definition redis_new :: redis_storage where
  "redis_new = \<lparr>prefix = lit ''trt:'', redis_timeout = DEFAULT_TIMEOUT, hash_user_ids = True,
     secret = None, client_clock = False\<rparr>"

definition key_prefix :: "redis_storage \<Rightarrow> rstring \<Rightarrow> redis_storage" where
  "key_prefix st p = st\<lparr>prefix := p\<rparr>"

definition set_timeout :: "redis_storage \<Rightarrow> duration \<Rightarrow> redis_storage" where
  "set_timeout st d = st\<lparr>redis_timeout := d\<rparr>"

definition plain_user_ids :: "redis_storage \<Rightarrow> redis_storage" where
  "plain_user_ids st = st\<lparr>hash_user_ids := False\<rparr>"

definition key_secret :: "redis_storage \<Rightarrow> u8 list \<Rightarrow> redis_storage" where
  "key_secret st s = st\<lparr>secret := Some s\<rparr>"

definition use_client_clock :: "redis_storage \<Rightarrow> redis_storage" where
  "use_client_clock st = st\<lparr>client_clock := True\<rparr>"

definition user_digest :: "digest_fn \<Rightarrow> redis_storage \<Rightarrow> rstring \<Rightarrow> u8 list" where
  "user_digest sha1 st user =
     (case secret st of
        Some s \<Rightarrow> hmac_sha1 sha1 s (utf8 user)
      | None \<Rightarrow> sha1 (utf8 user))"

definition redis_key :: "digest_fn \<Rightarrow> redis_storage \<Rightarrow> storage_key \<Rightarrow> rstring" where
  "redis_key sha1 st key =
     (if hash_user_ids st
      then prefix st @ key_tier key @ lit '':'' @ digest_text (user_digest sha1 st (key_user key))
      else prefix st @ decimal (str_len (key_tier key)) @ lit '':'' @ key_tier key @ lit '':'' @ key_user key)"

section \<open>One check\<close>

record script_call =
  call_key :: rstring
  call_now :: rstring
  call_emission_interval :: u64
  call_burst_offset :: u64
  call_cost :: u32

definition micros_ceil :: "nanos \<Rightarrow> u64" where
  "micros_ceil n = n div 1000 + (if n mod 1000 \<noteq> 0 then 1 else 0)"

definition make_call ::
  "digest_fn \<Rightarrow> redis_storage \<Rightarrow> storage_key \<Rightarrow> quota \<Rightarrow> u32 \<Rightarrow> nanos \<Rightarrow> script_call exec" where
  "make_call sha1 st key quota cost now =
     bind_exec (emission_interval_nanos quota) (\<lambda>ei_nanos.
     let emission_interval = max (micros_ceil ei_nanos) 1
     in Done \<lparr>call_key = redis_key sha1 st key,
              call_now = (if client_clock st then decimal (unat (now div 1000)) else []),
              call_emission_interval = emission_interval,
              call_burst_offset = saturating_mul emission_interval (ucast (max_burst quota)),
              call_cost = cost\<rparr>)"

text \<open>The arguments in the order the invocation passes them.\<close>

definition call_argv :: "script_call \<Rightarrow> rstring list" where
  "call_argv c = [call_now c, decimal (unat (call_emission_interval c)),
     decimal (unat (call_burst_offset c)), decimal (unat (call_cost c))]"

text \<open>\<open>u64::try_from(value).unwrap_or(0)\<close> and \<open>u32::try_from(value.max(0)).unwrap_or(u32::MAX)\<close>.\<close>

definition reply_micros :: "int \<Rightarrow> duration" where
  "reply_micros v = from_micros (if 0 \<le> v \<and> v \<le> int u64_max then of_int v else 0)"

definition reply_u32 :: "int \<Rightarrow> u32" where
  "reply_u32 v = (let w = max v 0 in if w \<le> int u32_max then of_int w else - 1)"

fun decode_reply :: "reply \<Rightarrow> u32 \<Rightarrow> decision" where
  "decode_reply (allowed, rem, retry_after_us, reset_after_us) limit =
     (if allowed = 1
      then Ok \<lparr>info_limit = limit, remaining = reply_u32 rem, info_reset_after = reply_micros reset_after_us\<rparr>
      else Err \<lparr>lim_limit = limit, retry_after = reply_micros retry_after_us,
                lim_reset_after = reply_micros reset_after_us\<rparr>)"

text \<open>\<open>{:?}\<close> of a \<open>Duration\<close>: its largest non-zero unit, with the fraction's trailing zeros left out.\<close>

definition fraction_text :: "nat \<Rightarrow> nat \<Rightarrow> rstring" where
  "fraction_text digits n =
     (let ds = replicate (digits - length (decimal n)) 48 @ decimal n;
          trimmed = rev (dropWhile (\<lambda>c. c = 48) (rev ds))
      in if n = 0 then [] else 46 # trimmed)"

definition debug_duration :: "duration \<Rightarrow> rstring" where
  "debug_duration d =
     (let s = unat (as_secs d); n = unat (subsec_nanos d)
      in if 0 < s then decimal s @ fraction_text 9 n @ lit ''s''
         else if 1000000 \<le> n then decimal (n div 1000000) @ fraction_text 6 (n mod 1000000) @ lit ''ms''
         else if 1000 \<le> n then decimal (n div 1000) @ fraction_text 3 (n mod 1000) @ [181, 115]
         else decimal n @ lit ''ns'')"

text \<open>A connection with the server behind it: \<open>None\<close> is no answer within the timeout.\<close>

type_synonym 's redis_conn = "script_call \<Rightarrow> 's \<Rightarrow> (reply, rstring) result option \<times> 's"

definition redis_check_and_update :: "digest_fn \<Rightarrow> 's redis_conn \<Rightarrow> redis_storage \<Rightarrow> 's storage_op" where
  "redis_check_and_update sha1 conn st s key quota cost now =
     bind_exec (make_call sha1 st key quota cost now) (\<lambda>call.
     Done (case conn call s of
       (Some (Ok reply), s') \<Rightarrow> (Ok (decode_reply reply (max_burst quota)), s')
     | (Some (Err e), s') \<Rightarrow> (Err (StorageError e), s')
     | (None, s') \<Rightarrow>
         (Err (StorageError (lit ''redis did not answer within '' @ debug_duration (redis_timeout st))), s')))"

section \<open>Connections\<close>

text \<open>What can happen to a call on its way: it runs and is answered, it runs and the answer is late,
  or it never reaches the server, which goes unnoticed or ends in an error of the client library.\<close>

datatype delivery = Delivered | LateAnswer | NeverAnswers | Refused rstring

definition fake_conn ::
  "lua \<Rightarrow> (script_error \<Rightarrow> rstring) \<Rightarrow> delivery \<Rightarrow> fake_redis redis_conn" where
  "fake_conn lua describe delivery call r =
     (case delivery of
        Delivered \<Rightarrow>
          (case run_with_args lua (call_key call) (call_argv call) r of
             (res, r') \<Rightarrow> (Some (map_result id describe res), r'))
      | LateAnswer \<Rightarrow> (None, snd (run_with_args lua (call_key call) (call_argv call) r))
      | NeverAnswers \<Rightarrow> (None, r)
      | Refused e \<Rightarrow> (Some (Err e), r))"

text \<open>One check at a time both clocks agree on: \<open>now\<close> is the limiter's clock, and the server's is set to
  the same time.\<close>

definition redis_op ::
  "digest_fn \<Rightarrow> lua \<Rightarrow> (script_error \<Rightarrow> rstring) \<Rightarrow> redis_storage \<Rightarrow> fake_redis storage_op" where
  "redis_op sha1 lua describe st r key quota cost now =
     redis_check_and_update sha1 (fake_conn lua describe Delivered) st
       (r\<lparr>now_us := unat (now div 1000)\<rparr>) key quota cost now"

section \<open>Quotas in microseconds\<close>

definition ei_us :: "quota \<Rightarrow> nat" where
  "ei_us q = div_up (ei_nat q) 1000"

definition bo_us :: "quota \<Rightarrow> nat" where
  "bo_us q = min (ei_us q * unat (max_burst q)) u64_max"

lemma unat_micros_ceil: "unat (micros_ceil n) = div_up (unat n) 1000"
proof -
  have n: "unat n \<le> u64_max" by (rule unat_u64_bound)
  have m: "n mod 1000 = 0 \<longleftrightarrow> (1000 :: nat) dvd unat n"
    by (simp add: word_unat_eq_iff unat_mod dvd_eq_mod_eq_0)
  have "unat (n div 1000 + 1) = unat n div 1000 + 1"
    using n by (simp add: unat_word_ariths unat_div)
  then show ?thesis by (simp add: micros_ceil_def div_up_def m unat_div)
qed

lemma ei_us_pos: "limited_quota q \<Longrightarrow> 0 < ei_us q"
  unfolding ei_us_def using ei_nat_pos by (intro div_up_pos) auto

lemma ei_us_covers: "ei_nat q \<le> ei_us q * 1000" "ei_us q * 1000 < ei_nat q + 1000"
  unfolding ei_us_def using div_up_covers [of 1000 "ei_nat q"] by simp_all

lemma ei_us_le_bo_us: "limited_quota q \<Longrightarrow> ei_us q \<le> bo_us q"
  using max_burst_pos [of q] div_up_le [of 1000 "ei_nat q"] ei_nat_bound [of q]
  by (auto simp: bo_us_def ei_us_def)

lemma make_call_eq:
  assumes "limited_quota q"
  shows "make_call sha1 st key q cost now =
    Done \<lparr>call_key = redis_key sha1 st key,
          call_now = (if client_clock st then decimal (unat (now div 1000)) else []),
          call_emission_interval = of_nat (ei_us q), call_burst_offset = of_nat (bo_us q), call_cost = cost\<rparr>"
proof -
  define e where "e = max (micros_ceil (of_nat (ei_nat q))) 1"
  have e: "unat e = ei_us q"
    using ei_us_pos [OF assms]
    by (simp add: e_def unat_max unat_micros_ceil unat_ei_nat ei_us_def)
  then have "e = of_nat (ei_us q)" by (rule of_nat_unat_eq)
  moreover have "saturating_mul e (ucast (max_burst q)) = of_nat (bo_us q)"
    by (rule word_eq_unatI)
      (simp add: unat_saturating_mul unat_u32_to_u64 e bo_us_def unat_of_nat_u64)
  ultimately show ?thesis
    by (simp add: make_call_def emission_interval_limited [OF assms] Let_def e_def)
qed

lemma unat_us:
  assumes "limited_quota q"
  shows "unat (of_nat (ei_us q) :: u64) = ei_us q" "unat (of_nat (bo_us q) :: u64) = bo_us q"
  using div_up_le [of 1000 "ei_nat q"] ei_nat_bound [of q]
  by (auto simp: ei_us_def bo_us_def intro!: unat_of_nat_u64)

lemma redis_check_eq:
  assumes "limited_quota q"
  shows "redis_op sha1 lua describe st r key q cost now = Done (
    case run_with_args lua (redis_key sha1 st key)
        [if client_clock st then decimal (unat (now div 1000)) else [],
         decimal (ei_us q), decimal (bo_us q), decimal (unat cost)] (r\<lparr>now_us := unat (now div 1000)\<rparr>) of
      (Ok reply, r') \<Rightarrow> (Ok (decode_reply reply (max_burst q)), r')
    | (Err e, r') \<Rightarrow> (Err (StorageError (describe e)), r'))"
  unfolding redis_op_def redis_check_and_update_def make_call_eq [OF assms] fake_conn_def call_argv_def
  using unat_us [OF assms] by (simp split: prod.split result.split)

section \<open>Keys never collide across separators\<close>

lemma str_len_append [simp]: "str_len (a @ b) = str_len a + str_len b"
  by (simp add: str_len_def utf8_def)

lemma str_len_zero [simp]: "str_len a = 0 \<longleftrightarrow> a = []"
  by (cases a) (auto simp: str_len_def utf8_def utf8_char_def)

lemma hex_digit_inject: "a < 16 \<Longrightarrow> b < 16 \<Longrightarrow> hex_digit a = hex_digit b \<longleftrightarrow> a = b"
  by (metis hex_value_digit option.inject)

lemma hex_byte_inject: "hex_byte a = hex_byte b \<Longrightarrow> a = b"
proof -
  assume eq: "hex_byte a = hex_byte b"
  have "unat a < 256" "unat b < 256" using unsigned_less [of a, where ?'a = nat] unsigned_less [of b, where ?'a = nat] by simp_all
  then have "unat a div 16 = unat b div 16" "unat a mod 16 = unat b mod 16"
    using eq by (simp_all add: hex_byte_def hex_digit_inject)
  then have "unat a = unat b" by (metis div_mult_mod_eq)
  then show ?thesis by (rule word_eq_unatI)
qed

lemma digest_text_inject:
  assumes "digest_text a = digest_text b" "length a = length b"
  shows "a = b"
proof -
  have "map hex_byte a = map hex_byte b"
    using assms by (intro concat_injective) (auto simp: digest_text_def set_zip hex_byte_def)
  then show ?thesis by (rule map_injective) (auto intro: injI hex_byte_inject)
qed

lemma digest_text_length: "length (digest_text d) = 2 * length d"
  by (induction d) (auto simp: digest_text_def hex_byte_def)

lemma user_digest_length: "sha1_ok sha1 \<Longrightarrow> length (user_digest sha1 st user) = 20"
  by (simp add: user_digest_def hmac_sha1_def sha1_ok_def Let_def split: option.split)

lemma digits_then_colon:
  assumes "a @ 58 # x = b @ 58 # y" "\<forall>c \<in> set a. is_digit c" "\<forall>c \<in> set b. is_digit c"
  shows "a = b \<and> x = y"
  using assms
proof (induction a arbitrary: b)
  case Nil
  then show ?case by (cases b) (auto simp: is_digit_def)
next
  case (Cons c a)
  then show ?case by (cases b) (auto simp: is_digit_def)
qed

lemma tier_then_user:
  assumes "t @ x = t' @ y" "str_len t = str_len t'"
  shows "t = t' \<and> x = y"
proof -
  obtain z where "t = t' @ z \<and> z @ x = y \<or> t @ z = t' \<and> x = z @ y"
    using assms(1) by (auto simp: append_eq_append_conv2)
  moreover from this have "str_len z = 0" using assms(2) by auto
  ultimately show ?thesis by auto
qed

lemma redis_key_eq_iff:
  assumes "sha1_ok sha1"
  shows "redis_key sha1 st k = redis_key sha1 st k' \<longleftrightarrow> key_tier k = key_tier k' \<and>
    (if hash_user_ids st then user_digest sha1 st (key_user k) = user_digest sha1 st (key_user k')
     else key_user k = key_user k')"
proof (cases "hash_user_ids st")
  case True
  have "length (digest_text (user_digest sha1 st (key_user k))) = length (digest_text (user_digest sha1 st (key_user k')))"
    by (simp add: digest_text_length user_digest_length [OF assms])
  then show ?thesis
    using True by (auto simp: redis_key_def dest: digest_text_inject simp: user_digest_length [OF assms])
next
  case False
  have dig: "\<forall>c \<in> set (decimal n). is_digit c" for n using decimal_digits by blast
  have "key_tier k = key_tier k' \<and> key_user k = key_user k'" if "redis_key sha1 st k = redis_key sha1 st k'"
  proof -
    have "decimal (str_len (key_tier k)) @ 58 # (key_tier k @ 58 # key_user k)
        = decimal (str_len (key_tier k')) @ 58 # (key_tier k' @ 58 # key_user k')"
      using that False by (simp add: redis_key_def lit_def)
    then have "decimal (str_len (key_tier k)) = decimal (str_len (key_tier k')) \<and>
        key_tier k @ 58 # key_user k = key_tier k' @ 58 # key_user k'"
      by (rule digits_then_colon [OF _ dig dig])
    then have "key_tier k = key_tier k' \<and> 58 # key_user k = 58 # key_user k'"
      by (intro tier_then_user) simp_all
    then show ?thesis by simp
  qed
  then show ?thesis using False by (auto simp: redis_key_def)
qed

lemma plain_keys_inj:
  assumes "sha1_ok sha1" "\<not> hash_user_ids st"
  shows "inj_on (redis_key sha1 st) K"
  using redis_key_eq_iff [OF assms(1), of st] assms(2) by (auto intro!: inj_onI storage_key.equality)

section \<open>RedisStorage is a store\<close>

text \<open>What holds of the server when only this storage writes under its keys: every value is the numeral of an
  arrival time, and its key does not expire before that time.\<close>

definition entry_ok :: "rstring \<times> nat option \<Rightarrow> bool" where
  "entry_ok entry \<longleftrightarrow>
     (case entry of (v, expiry) \<Rightarrow> v = decimal (parse_decimal v) \<and> parse_decimal v \<le> exact \<and>
        (case expiry of None \<Rightarrow> False | Some x \<Rightarrow> parse_decimal v \<le> x))"

definition red_inv :: "digest_fn \<Rightarrow> redis_storage \<Rightarrow> storage_key set \<Rightarrow> fake_redis \<Rightarrow> bool" where
  "red_inv sha1 st K r \<longleftrightarrow>
     (\<forall>key \<in> K. redis_key sha1 st key \<notin> other_types r \<and>
        (\<forall>entry. redis_data r (redis_key sha1 st key) = Some entry \<longrightarrow> entry_ok entry))"

definition red_tat :: "digest_fn \<Rightarrow> redis_storage \<Rightarrow> storage_key set \<Rightarrow> fake_redis \<Rightarrow> storage_key \<Rightarrow> nat" where
  "red_tat sha1 st K r key =
     (if key \<in> K
      then (case redis_data r (redis_key sha1 st key) of None \<Rightarrow> 0 | Some (v, _) \<Rightarrow> parse_decimal v)
      else 0)"

text \<open>Time passes and Redis evicts what has expired.\<close>

definition red_tick :: "fake_redis \<Rightarrow> nat \<Rightarrow> fake_redis" where
  "red_tick r t =
     r\<lparr>now_us := t, redis_data := (\<lambda>k. case redis_data r k of
          Some (v, Some x) \<Rightarrow> if x \<le> t then None else Some (v, Some x)
        | entry \<Rightarrow> entry)\<rparr>"

definition red_step ::
  "digest_fn \<Rightarrow> lua \<Rightarrow> (script_error \<Rightarrow> rstring) \<Rightarrow> redis_storage \<Rightarrow> (storage_key \<Rightarrow> quota) \<Rightarrow>
    fake_redis \<Rightarrow> storage_key \<Rightarrow> nat \<Rightarrow> nat \<Rightarrow> bool \<times> fake_redis" where
  "red_step sha1 lua describe st Q r key c t =
     (case redis_op sha1 lua describe st r key (Q key) (of_nat c) (of_nat (t * 1000)) of
        Done (Ok (Ok _), r') \<Rightarrow> (True, r')
      | Done (_, r') \<Rightarrow> (False, r')
      | Panic _ \<Rightarrow> (False, r))"

definition red_valid ::
  "digest_fn \<Rightarrow> lua \<Rightarrow> redis_storage \<Rightarrow> storage_key set \<Rightarrow> (storage_key \<Rightarrow> quota) \<Rightarrow> storage_key \<Rightarrow> nat \<Rightarrow> nat \<Rightarrow> bool" where
  "red_valid sha1 lua st K Q key c t \<longleftrightarrow> lua_ok lua \<and> inj_on (redis_key sha1 st) K \<and> key \<in> K \<and>
     limited_quota (Q key) \<and> c \<le> unat (max_burst (Q key)) \<and> t + 2 * bo_us (Q key) \<le> exact"

lemma call_ok_us:
  assumes "limited_quota q" "c \<le> unat (max_burst q)" "t + 2 * bo_us q \<le> exact"
  shows "call_ok (ei_us q) (bo_us q) c t" and "bo_us q = ei_us q * unat (max_burst q)"
proof -
  show eq: "bo_us q = ei_us q * unat (max_burst q)" using assms(3) by (simp add: bo_us_def min_def split: if_splits)
  have "ei_us q * c \<le> ei_us q * unat (max_burst q)" using assms(2) by (rule mult_le_mono2)
  then show "call_ok (ei_us q) (bo_us q) c t"
    using assms(1,3) ei_us_pos ei_us_le_bo_us [OF assms(1)] eq by (auto simp: call_ok_def Suc_le_eq)
qed

text \<open>The level a request starts from, by the invariant: a key that has expired held a time in the past.\<close>

lemma red_level:
  assumes "lua_ok lua" "red_inv sha1 st K r" "key \<in> K"
  defines "T \<equiv> red_tat sha1 st K r key"
  shows "level (read_tat lua (r\<lparr>now_us := t\<rparr>) (redis_key sha1 st key)) t b = (min (max T t) (t + b), t + b < T)"
proof (cases "redis_data r (redis_key sha1 st key)")
  case None
  then show ?thesis using assms(2,3) by (simp add: T_def red_tat_def read_tat_def live_def red_inv_def)
next
  case (Some entry)
  obtain v expiry where entry: "entry = (v, expiry)" by fastforce
  have ok: "redis_key sha1 st key \<notin> other_types r" "entry_ok (v, expiry)"
    using assms(2,3) Some entry by (auto simp: red_inv_def)
  then obtain x where v: "v = decimal T" "T \<le> exact" "expiry = Some x" "T \<le> x"
    using assms(3) Some entry by (auto simp: entry_ok_def T_def red_tat_def split: option.splits)
  have num: "tonumber lua (decimal T) = Some (num T)" using tonumber_exact [OF assms(1)] v(2) by simp
  show ?thesis
    using Some entry v ok(1) num
    by (auto simp: read_tat_def live_def simp flip: of_nat_add)
qed

lemma reply_u32_nat: "n \<le> u32_max \<Longrightarrow> reply_u32 (int n) = of_nat n"
  by (simp add: reply_u32_def)

lemma reply_micros_nat: "n \<le> u64_max \<Longrightarrow> reply_micros (int n) = duration_of_nanos (n * 1000)"
  by (simp add: reply_micros_def from_micros_def unat_of_nat_u64)

text \<open>One check, with the decision and the answer in natural numbers of microseconds.\<close>

lemma redis_op_eq:
  assumes valid: "red_valid sha1 lua st K Q key c t" and inv: "red_inv sha1 st K r"
    and now: "unat now div 1000 = t" and cost: "unat cost = c"
  defines "T \<equiv> red_tat sha1 st K r key" and "e \<equiv> ei_us (Q key)" and "b \<equiv> bo_us (Q key)"
  defines "new \<equiv> min (max T t) (t + b) + e * c" and "rk \<equiv> redis_key sha1 st key"
  shows "redis_op sha1 lua describe st r key (Q key) cost now = Done (
    if new \<le> t + b
    then (Ok (Ok \<lparr>info_limit = max_burst (Q key), remaining = of_nat ((b - (new - t)) div e),
                  info_reset_after = duration_of_nanos ((new - t) * 1000)\<rparr>),
          if t < new then set_key (r\<lparr>now_us := t\<rparr>) rk (decimal new) (Some (div_up (new - t) 1000))
          else r\<lparr>now_us := t\<rparr>)
    else (Ok (Err \<lparr>lim_limit = max_burst (Q key), retry_after = duration_of_nanos ((new - b - t) * 1000),
                  lim_reset_after = duration_of_nanos ((min (max T t) (t + b) - t) * 1000)\<rparr>),
          if t + b < T then set_key (r\<lparr>now_us := t\<rparr>) rk (decimal (t + b)) (Some (div_up b 1000))
          else r\<lparr>now_us := t\<rparr>))"
proof -
  define L where "L = min (max T t) (t + b)"
  have v: "lua_ok lua" "key \<in> K" "limited_quota (Q key)" "c \<le> unat (max_burst (Q key))" "t + 2 * b \<le> exact"
    using valid by (auto simp: red_valid_def b_def)
  note call = call_ok_us(1) [OF v(3,4) v(5) [unfolded b_def], folded e_def b_def]
  have e: "0 < e" using ei_us_pos [OF v(3)] by (simp add: e_def)
  have nd: "unat (now div 1000) = t" using now by (simp add: unat_div)
  have t: "t < exact" using call_okD(7) [OF call] .
  let ?r = "r\<lparr>now_us := t\<rparr>"
  have time: "script_time lua (if client_clock st then decimal t else []) ?r = (Ok (Some (num t)), ?r)"
    using script_time_client [OF v(1) t, of ?r] script_time_server [OF v(1), of ?r] t by simp
  have lev: "level (read_tat lua ?r rk) t b = (L, t + b < T)"
    using red_level [OF v(1) inv v(2), of t b] by (simp add: rk_def T_def L_def)
  note run = run_script_eq [OF v(1) call time lev]
  have L: "t \<le> L" "L \<le> t + b" by (auto simp: L_def)
  have ec: "e * c \<le> b" using call by (simp add: call_ok_def)
  have new: "new = L + e * c" by (simp add: new_def L_def)
  have small: "new - t \<le> u64_max" "new - b - t \<le> u64_max" "L - t \<le> u64_max"
    using L ec v(5) by (auto simp: new)
  have "(b - (new - t)) div e \<le> b div e" by (intro div_le_mono) simp
  also have "b div e = unat (max_burst (Q key))"
    using call_ok_us(2) [OF v(3,4) v(5) [unfolded b_def]] e by (simp add: b_def e_def)
  finally have rem: "(b - (new - t)) div e \<le> u32_max" using unat_u32_bound [of "max_burst (Q key)"] by linarith
  show ?thesis
  proof (cases "new \<le> t + b")
    case True
    then have "redis_op sha1 lua describe st r key (Q key) cost now = Done (
        Ok (decode_reply (1, int ((b - (new - t)) div e), 0, int (new - t)) (max_burst (Q key))),
        if t < new then set_key ?r rk (decimal new) (Some (div_up (new - t) 1000)) else ?r)"
      unfolding redis_check_eq [OF v(3)] nd cost using run by (simp add: new e_def b_def rk_def)
    then show ?thesis
      using True reply_u32_nat [OF rem] reply_micros_nat [OF small(1)] by simp
  next
    case False
    have cap: "L = t + b" "L - t = b" if "t + b < T" using that by (simp_all add: L_def)
    have "redis_op sha1 lua describe st r key (Q key) cost now = Done (
        Ok (decode_reply (0, 0, int (new - b - t), int (L - t)) (max_burst (Q key))),
        if t + b < T then set_key ?r rk (decimal L) (Some (div_up (L - t) 1000)) else ?r)"
      unfolding redis_check_eq [OF v(3)] nd cost using run False by (simp add: new e_def b_def rk_def)
    then show ?thesis
      using False reply_micros_nat [OF small(2)] reply_micros_nat [OF small(3)] cap by (simp add: L_def)
  qed
qed

text \<open>The clock and a write, seen through the arrival times.\<close>

lemma red_now [simp]:
  "red_tat sha1 st K (r\<lparr>now_us := t\<rparr>) = red_tat sha1 st K r"
  "red_inv sha1 st K (r\<lparr>now_us := t\<rparr>) \<longleftrightarrow> red_inv sha1 st K r"
  by (auto simp: red_tat_def red_inv_def fun_eq_iff)

lemma red_tat_set:
  assumes "inj_on (redis_key sha1 st) K" "key \<in> K"
  shows "red_tat sha1 st K (set_key r (redis_key sha1 st key) (decimal x) ms) k
    = (if k = key then x else red_tat sha1 st K r k)"
  using assms by (auto simp: red_tat_def set_key_def dest: inj_onD)

lemma red_inv_set:
  assumes "red_inv sha1 st K r" "x \<le> exact" "x \<le> now_us r + ms * 1000"
  shows "red_inv sha1 st K (set_key r rk (decimal x) (Some ms))"
  using assms by (auto simp: red_inv_def set_key_def entry_ok_def)

lemma red_step_eq:
  assumes valid: "red_valid sha1 lua st K Q key c t" and inv: "red_inv sha1 st K r"
  defines "T \<equiv> red_tat sha1 st K r key" and "e \<equiv> ei_us (Q key)" and "b \<equiv> bo_us (Q key)"
  defines "new \<equiv> min (max T t) (t + b) + e * c"
  obtains r' x where "red_step sha1 lua describe st Q r key c t = (new \<le> t + b, r')"
    "red_inv sha1 st K r'" "\<And>k. red_tat sha1 st K r' k = (if k = key then x else red_tat sha1 st K r k)"
    "x = (if new \<le> t + b then if t < new then new else T else if t + b < T then t + b else T)"
proof -
  have v: "inj_on (redis_key sha1 st) K" "key \<in> K" "limited_quota (Q key)" "c \<le> unat (max_burst (Q key))"
    "t + 2 * b \<le> exact"
    using valid by (auto simp: red_valid_def b_def)
  have now: "unat (of_nat (t * 1000) :: u64) div 1000 = t"
    using v(5) by (subst unat_of_nat_u64) auto
  have cost: "unat (of_nat c :: u32) = c"
    using v(4) unat_u32_bound [of "max_burst (Q key)"] by (intro unat_of_nat_u32) linarith
  note op = redis_op_eq [where describe = describe, OF valid inv now cost, folded T_def e_def b_def, folded new_def]
  let ?r = "r\<lparr>now_us := t\<rparr>" and ?rk = "redis_key sha1 st key"
  have "x \<le> t + div_up (x - t) 1000 * 1000" for x using div_up_covers(1) [of 1000 "x - t"] by linarith
  then have inv_set: "red_inv sha1 st K (set_key ?r ?rk (decimal x) (Some (div_up (x - t) 1000)))" if "x \<le> exact" for x
    using inv that by (intro red_inv_set) simp_all
  show thesis
  proof (cases "new \<le> t + b")
    case True
    show thesis
    proof (cases "t < new")
      case less: True
      show thesis
        by (rule that [of "set_key ?r ?rk (decimal new) (Some (div_up (new - t) 1000))" new])
          (use True less v(5) inv_set [of new] op in \<open>simp_all add: red_step_def red_tat_set [OF v(1,2)]\<close>)
    next
      case False
      show thesis
        by (rule that [of ?r T]) (use True False inv op in \<open>simp_all add: red_step_def T_def\<close>)
    qed
  next
    case False
    show thesis
    proof (cases "t + b < T")
      case True
      show thesis
        by (rule that [of "set_key ?r ?rk (decimal (t + b)) (Some (div_up b 1000))" "t + b"])
          (use True False v(5) inv_set [of "t + b"] op in \<open>simp_all add: red_step_def red_tat_set [OF v(1,2)]\<close>)
    next
      case False': False
      show thesis
        by (rule that [of ?r T]) (use False False' inv op in \<open>simp_all add: red_step_def T_def\<close>)
    qed
  qed
qed

lemma red_tick_level:
  assumes "red_inv sha1 st K r"
  shows "max (red_tat sha1 st K (red_tick r t) key) t = max (red_tat sha1 st K r key) t"
proof (cases "key \<in> K \<and> redis_data r (redis_key sha1 st key) \<noteq> None")
  case True
  then obtain v expiry where entry: "redis_data r (redis_key sha1 st key) = Some (v, expiry)" by auto
  then have "entry_ok (v, expiry)" using assms True by (auto simp: red_inv_def)
  then show ?thesis
    using True entry by (auto simp: red_tat_def red_tick_def entry_ok_def split: option.splits)
qed (auto simp: red_tat_def red_tick_def split: option.splits)

lemma red_tick_inv: "red_inv sha1 st K r \<Longrightarrow> red_inv sha1 st K (red_tick r t)"
  by (fastforce simp: red_tick_def red_inv_def split: option.splits if_splits)

interpretation red: gcra_store "red_step sha1 lua describe st Q" red_tick "red_tat sha1 st K"
  "\<lambda>k. ei_us (Q k)" "\<lambda>k. bo_us (Q k)" "red_valid sha1 lua st K Q" "red_inv sha1 st K"
  for sha1 lua describe st K Q
proof (unfold_locales, goal_cases)
  case (1 r key c t)
  from 1(2,1) show ?case
    by (cases rule: red_step_eq [where describe = describe]) (use 1(3) in \<open>simp add: gcra_conforms_def gcra_next_def\<close>)
next
  case (2 r key c t)
  from 2(2,1) show ?case
  proof (cases rule: red_step_eq [where describe = describe])
    case (1 r' x)
    have "max (red_tat sha1 st K r key) t \<le> t + bo_us (Q key)" using 2(3) by simp
    then show ?thesis using 1 2(4) by (simp add: gcra_next_def min_absorb1 max_def split: if_splits)
  qed
next
  case (3 r key c t)
  from 3(2,1) show ?case
    by (cases rule: red_step_eq [where describe = describe]) (use 3(3,4) in auto)
next
  case (4 r key c t k)
  from 4(2,1) show ?case
    by (cases rule: red_step_eq [where describe = describe]) (use 4(3) in auto)
next
  case (5 r t key)
  then show ?case by (rule red_tick_level)
next
  case (6 r key c t)
  from 6(2,1) show ?case
    by (cases rule: red_step_eq [where describe = describe]) auto
next
  case (7 r t)
  then show ?case by (rule red_tick_inv)
qed

lemma red_default [simp]: "red_inv sha1 st K fake_redis_default" "red_tat sha1 st K fake_redis_default key = 0"
  by (simp_all add: red_inv_def red_tat_def fake_redis_default_def)

text \<open>The requests a built limiter makes on Redis: limited quotas, costs within the burst, and times two bursts
  before \<open>2 ^ 53\<close> microseconds.\<close>

definition red_requests_ok :: "storage_key set \<Rightarrow> (storage_key \<Rightarrow> quota) \<Rightarrow> storage_key store_event list \<Rightarrow> bool" where
  "red_requests_ok K Q es \<longleftrightarrow> (\<forall>k c t. Request k c t \<in> set es \<longrightarrow>
     k \<in> K \<and> limited_quota (Q k) \<and> c \<le> unat (max_burst (Q k)) \<and> t + 2 * bo_us (Q k) \<le> 2 ^ 53)"

lemma red_proper:
  assumes "lua_ok lua" "inj_on (redis_key sha1 st) K" "sorted (map event_time es)" "red_requests_ok K Q es"
  shows "red.proper sha1 lua st K Q es"
  using assms by (auto simp: red.proper_def red_requests_ok_def red_valid_def)

lemma microsecond_bound:
  fixes A d ei m e :: nat
  assumes "e * A \<le> d + e * m" "ei \<le> e * 1000"
  shows "ei * A \<le> 1000 * d + ei * m"
proof (cases "A \<le> m")
  case True
  then have "ei * A \<le> ei * m" by (rule mult_le_mono2)
  then show ?thesis by (rule trans_le_add2)
next
  case False
  then obtain k where A: "A = m + k" by (metis le_iff_add nat_le_linear)
  have "e * k \<le> d" using assms(1) by (simp add: A distrib_left)
  have "ei * k \<le> e * 1000 * k" using assms(2) by (rule mult_le_mono1)
  also have "\<dots> = 1000 * (e * k)" by simp
  also have "\<dots> \<le> 1000 * d" using \<open>e * k \<le> d\<close> by (rule mult_le_mono2)
  finally show ?thesis by (simp add: A distrib_left)
qed

lemma bo_nat_of_us:
  assumes "limited_quota q" "t + 2 * bo_us q \<le> exact"
  shows "bo_nat q = ei_nat q * unat (max_burst q)"
proof -
  have "ei_nat q * unat (max_burst q) \<le> ei_us q * 1000 * unat (max_burst q)"
    by (rule mult_le_mono1) (rule ei_us_covers(1))
  also have "\<dots> = 1000 * bo_us q" using call_ok_us(2) [OF assms(1) le0 assms(2)] by simp
  also have "\<dots> \<le> u64_max" using assms(2) by simp
  finally show ?thesis by (simp add: bo_nat_def)
qed

section \<open>Properties\<close>

text \<open>C3: the rate guarantee of \<open>RedisStorage\<close>, end to end. Take any sequence of requests by users whose Redis keys
  differ, with Redis evicting expired keys at any points between them, at non-decreasing times in
  microseconds, on an empty server. For every key and every segment of its consecutive requests, the
  quota's own emission interval (in nanoseconds, before it is rounded to microseconds) times the cost
  admitted is at most the time the segment spans plus the quota's own burst. So neither Lua's doubles
  nor key expiry nor the rounding to microseconds ever admits more than the in-memory quota does.\<close>

theorem redis_rate_guarantee:
  assumes "lua_ok lua" "inj_on (redis_key sha1 st) K"
    and "sorted (map event_time es)" "red_requests_ok K Q es"
    and "store_run (red_step sha1 lua describe st Q) red_tick fake_redis_default es = trace"
    and "0 < n" "i + n \<le> length (requests_of key trace)"
  shows "ei_nat (Q key) * admitted_cost (take n (drop i (requests_of key trace)))
      (take n (drop i (decisions_of key trace)))
    \<le> 1000 * (snd (requests_of key trace ! (i + n - 1)) - snd (requests_of key trace ! i)) + bo_nat (Q key)"
proof -
  have "requests_of key trace \<noteq> []" using assms(6,7) by auto
  then have "hd (requests_of key trace) \<in> set (requests_of key trace)" by simp
  then obtain c t where "Request key c t \<in> set es"
    using event_requests_event by (metis assms(5) requests_of_run)
  then have q: "limited_quota (Q key)" "t + 2 * bo_us (Q key) \<le> exact"
    using assms(4) by (auto simp: red_requests_ok_def)
  have "ei_us (Q key) * admitted_cost (take n (drop i (requests_of key trace)))
      (take n (drop i (decisions_of key trace)))
    \<le> snd (requests_of key trace ! (i + n - 1)) - snd (requests_of key trace ! i) + bo_us (Q key)"
    using red.window_bound [OF red_proper [OF assms(1-4)], of fake_redis_default key n i describe] assms(5-7)
    by simp
  then show ?thesis
    unfolding bo_nat_of_us [OF q] call_ok_us(2) [OF q(1) le0 q(2)]
    by (rule microsecond_bound) (rule ei_us_covers(1))
qed

text \<open>A run for the witnesses: plain keys, three requests per minute.\<close>

definition demo_sha1 :: digest_fn where
  "demo_sha1 = (\<lambda>_. replicate 20 0)"

definition demo_redis :: redis_storage where
  "demo_redis = plain_user_ids redis_new"

lemma demo_sha1_ok: "sha1_ok demo_sha1"
  by (simp add: sha1_ok_def demo_sha1_def)

lemma demo_redis_inj: "inj_on (redis_key demo_sha1 demo_redis) K"
  by (rule plain_keys_inj [OF demo_sha1_ok]) (simp add: demo_redis_def plain_user_ids_def)

lemma three_per_minute_us: "ei_us three_per_minute = 20000000" "bo_us three_per_minute = 60000000"
proof -
  have "unat (max_burst three_per_minute) = 3" by (simp add: three_per_minute_def)
  then show "ei_us three_per_minute = 20000000" "bo_us three_per_minute = 60000000"
    by (simp_all add: ei_us_def bo_us_def three_per_minute_nat div_up_def)
qed

lemma demo_red_requests:
  "red_requests_ok UNIV (\<lambda>_. three_per_minute) demo_events"
  using three_per_minute_limited
  by (auto simp: red_requests_ok_def demo_events_def three_per_minute_us) (simp_all add: three_per_minute_def)

lemma demo_red_decisions:
  "decisions_of demo_key (store_run (red_step demo_sha1 reference_lua (\<lambda>_. []) demo_redis (\<lambda>_. three_per_minute))
     red_tick fake_redis_default demo_events) = [True, True, False]"
  using red.run_refines [OF red_proper [OF reference_lua_ok demo_redis_inj demo_valid(1) demo_red_requests],
      of fake_redis_default demo_key "\<lambda>_. []"]
  by (simp add: requests_of_run three_per_minute_us) (simp add: demo_events_def gcra_conforms_def gcra_next_def)

theorem redis_rate_guarantee_witness:
  "decisions_of demo_key (store_run (red_step demo_sha1 reference_lua (\<lambda>_. []) demo_redis (\<lambda>_. three_per_minute))
     red_tick fake_redis_default demo_events) = [True, True, False] \<and>
   20000000000 * admitted_cost (event_requests demo_key demo_events) [True, True, False]
     \<le> 1000 * (7 - 5) + 60000000000"
  using redis_rate_guarantee [OF reference_lua_ok demo_redis_inj demo_valid(1) demo_red_requests refl,
      of 3 0 demo_key "\<lambda>_. []"]
  unfolding requests_of_run demo_red_decisions three_per_minute_nat by (simp add: demo_events_def)

text \<open>C32: buckets are shared exactly when they should be. Two keys map to the same Redis key if and only if the
  tiers are equal and the user ids are (plain ids) or have the same digest (hashed ids), whatever
  separators, digits or prefixes the names contain.\<close>

theorem redis_key_separates:
  assumes "sha1_ok sha1"
  shows "redis_key sha1 st (storage_key_new user tier_name) = redis_key sha1 st (storage_key_new user' tier_name') \<longleftrightarrow>
    tier_name = tier_name' \<and>
    (if hash_user_ids st then user_digest sha1 st user = user_digest sha1 st user' else user = user')"
  using redis_key_eq_iff [OF assms] by (simp add: storage_key_new_def)

theorem redis_key_separates_witness:
  "redis_key demo_sha1 demo_redis (storage_key_new (lit ''a:b'') (lit ''c''))
     \<noteq> redis_key demo_sha1 demo_redis (storage_key_new (lit ''a'') (lit ''b:c''))"
  unfolding redis_key_separates [OF demo_sha1_ok] by (simp add: lit_def)

text \<open>What a failed delivery does. A call that never reaches Redis, is refused, or whose answer is late is
  reported as a storage error (a fixed text for the timeouts), never as a decision and never as a panic. The server is
  untouched in the first two cases; with a late answer the script has run, exactly as if the answer
  had come, so the request may be counted although the caller saw an error.\<close>

theorem redis_delivery_failures:
  assumes "limited_quota q"
  shows "\<exists>out r'. redis_check_and_update sha1 (fake_conn lua describe Delivered) st r key q cost now = Done (out, r') \<and>
    redis_check_and_update sha1 (fake_conn lua describe LateAnswer) st r key q cost now =
      Done (Err (StorageError (lit ''redis did not answer within '' @ debug_duration (redis_timeout st))), r') \<and>
    redis_check_and_update sha1 (fake_conn lua describe NeverAnswers) st r key q cost now =
      Done (Err (StorageError (lit ''redis did not answer within '' @ debug_duration (redis_timeout st))), r) \<and>
    redis_check_and_update sha1 (fake_conn lua describe (Refused e)) st r key q cost now =
      Done (Err (StorageError e), r)"
  unfolding redis_check_and_update_def make_call_eq [OF assms]
  by (simp add: fake_conn_def split: prod.split result.split)

theorem redis_delivery_failures_witness:
  "redis_check_and_update demo_sha1 (fake_conn reference_lua (\<lambda>_. []) NeverAnswers) redis_new
      fake_redis_default demo_key three_per_minute 1 5 =
     Done (Err (StorageError (lit ''redis did not answer within 100ms'')), fake_redis_default)"
proof -
  have "debug_duration (redis_timeout redis_new) = lit ''100ms''"
    by (simp add: redis_new_def DEFAULT_TIMEOUT_def from_millis_def duration_of_nanos_def debug_duration_def
        Let_def fraction_text_def decimal.simps lit_def)
  then show ?thesis
    using redis_delivery_failures [OF three_per_minute_limited, of demo_sha1 reference_lua "\<lambda>_. []" redis_new
        fake_redis_default demo_key 1 5 "[]"]
    by (auto simp: lit_append [symmetric])
qed

end
