(* ===== verification/Debug_Output.thy ===== *)
theory Debug_Output
  imports Check Redis_Storage Circuit_Breaker
begin

text \<open>
  The \<open>Debug\<close> implementations (\<open>{:?}\<close>) of \<open>MemoryStorage\<close>, \<open>RedisStorage\<close>, \<open>CircuitBreaker\<close>, \<open>RateTier\<close>, its
  builder and the middleware's \<open>Settings\<close>, in the files of those types. They end up in logs, so what matters is
  what they cannot show: user ids (often API keys) and the secret of the Redis keys.

  \<open>debug_struct\<close> follows the standard library's builder. Parameters: \<open>quote\<close> (the escaping of
  \<open>str\<close>'s \<open>Debug\<close>, which rests on Unicode tables), \<open>code\<close> (\<open>Debug\<close> of the \<open>http\<close> crate's status codes) and
  \<open>order\<close> (the iteration order of a \<open>HashMap\<close>).
\<close>

section \<open>The standard library's part\<close>

fun joined :: "rstring \<Rightarrow> rstring list \<Rightarrow> rstring" where
  "joined sep [] = []"
| "joined sep [x] = x"
| "joined sep (x # xs) = x @ sep @ joined sep xs"

definition debug_fields :: "(rstring \<times> rstring) list \<Rightarrow> rstring" where
  "debug_fields fs = joined (lit '', '') (map (\<lambda>(name, v). name @ lit '': '' @ v) fs)"

definition debug_struct :: "rstring \<Rightarrow> (rstring \<times> rstring) list \<Rightarrow> rstring" where
  "debug_struct name fs =
     (if fs = [] then name else name @ lit '' { '' @ debug_fields fs @ lit '' }'')"

definition debug_struct_open :: "rstring \<Rightarrow> (rstring \<times> rstring) list \<Rightarrow> rstring" where
  "debug_struct_open name fs =
     (if fs = [] then name @ lit '' { .. }'' else name @ lit '' { '' @ debug_fields fs @ lit '', .. }'')"

definition debug_bool :: "bool \<Rightarrow> rstring" where
  "debug_bool b = (if b then lit ''true'' else lit ''false'')"

definition debug_option :: "('a \<Rightarrow> rstring) \<Rightarrow> 'a option \<Rightarrow> rstring" where
  "debug_option f x = (case x of None \<Rightarrow> lit ''None'' | Some a \<Rightarrow> lit ''Some('' @ f a @ lit '')'')"

definition debug_map :: "(rstring \<Rightarrow> rstring) \<Rightarrow> ('v \<Rightarrow> rstring) \<Rightarrow> rstring list \<Rightarrow> (rstring \<rightharpoonup> 'v) \<Rightarrow> rstring" where
  "debug_map quote f keys m =
     lit ''{'' @ joined (lit '', '') (map (\<lambda>k. quote k @ lit '': '' @ f (the (m k))) keys) @ lit ''}''"

section \<open>The types of the crate\<close>

definition debug_quota :: "quota \<Rightarrow> rstring" where
  "debug_quota q = debug_struct (lit ''Quota'')
     [(lit ''max_burst'', decimal (unat (max_burst q))), (lit ''window'', debug_duration (window q))]"

fun debug_on_missing :: "(status_code \<Rightarrow> rstring) \<Rightarrow> on_missing \<Rightarrow> rstring" where
  "debug_on_missing code MissingUseDefault = lit ''UseDefault''"
| "debug_on_missing code MissingAllow = lit ''Allow''"
| "debug_on_missing code (MissingDeny s) = lit ''Deny('' @ code s @ lit '')''"

fun debug_on_unknown_tier :: "(status_code \<Rightarrow> rstring) \<Rightarrow> on_unknown_tier \<Rightarrow> rstring" where
  "debug_on_unknown_tier code UnknownUseDefault = lit ''UseDefault''"
| "debug_on_unknown_tier code (UnknownDeny s) = lit ''Deny('' @ code s @ lit '')''"
| "debug_on_unknown_tier code UnknownAllow = lit ''Allow''"

fun debug_on_storage_error :: "on_storage_error \<Rightarrow> rstring" where
  "debug_on_storage_error StorageErrorAllow = lit ''Allow''"
| "debug_on_storage_error StorageErrorDeny = lit ''Deny''"

fun debug_breaker_state :: "breaker_state \<Rightarrow> rstring" where
  "debug_breaker_state (Closed n) = debug_struct (lit ''Closed'') [(lit ''failures'', decimal (unat n))]"
| "debug_breaker_state (Open u) = debug_struct (lit ''Open'') [(lit ''until'', decimal (unat u))]"
| "debug_breaker_state HalfOpen = lit ''HalfOpen''"

definition debug_memory :: "memory_storage \<Rightarrow> rstring" where
  "debug_memory m = debug_struct (lit ''MemoryStorage'') [(lit ''entries'', decimal (memory_len m))]"

definition debug_redis :: "(rstring \<Rightarrow> rstring) \<Rightarrow> redis_storage \<Rightarrow> rstring" where
  "debug_redis quote st = debug_struct_open (lit ''RedisStorage'')
     [(lit ''key_prefix'', quote (prefix st)), (lit ''timeout'', debug_duration (redis_timeout st)),
      (lit ''hash_user_ids'', debug_bool (hash_user_ids st)), (lit ''key_secret'', debug_bool (secret st \<noteq> None)),
      (lit ''client_clock'', debug_bool (client_clock st))]"

definition debug_breaker :: "('p \<Rightarrow> rstring) \<Rightarrow> 'p breaker \<Rightarrow> rstring" where
  "debug_breaker debug_primary b = debug_struct (lit ''CircuitBreaker'')
     [(lit ''primary'', debug_primary (primary b)), (lit ''fallback'', debug_memory (fallback b)),
      (lit ''state'', debug_breaker_state (state b)),
      (lit ''failure_threshold'', decimal (unat (failure_threshold (policy b)))),
      (lit ''open_for'', debug_duration (from_nanos (open_for (policy b)))),
      (lit ''on_state_change'', debug_bool (on_state_change b \<noteq> None))]"

definition debug_settings :: "('h, 'x, 'w) settings \<Rightarrow> rstring" where
  "debug_settings st = debug_struct_open (lit ''Settings'')
     [(lit ''on_storage_error'', debug_on_storage_error (on_storage_error st)),
      (lit ''on_limited'', debug_bool (case on_limited st of None \<Rightarrow> False | Some _ \<Rightarrow> True)),
      (lit ''rate_limited_response'', debug_bool (case limited_response st of None \<Rightarrow> False | Some _ \<Rightarrow> True)),
      (lit ''on_event'', debug_bool (case on_event st of None \<Rightarrow> False | Some _ \<Rightarrow> True)),
      (lit ''cost_fn'', debug_bool (case cost_fn st of None \<Rightarrow> False | Some _ \<Rightarrow> True))]"

definition debug_rate_tier ::
  "(rstring \<Rightarrow> rstring) \<Rightarrow> (status_code \<Rightarrow> rstring) \<Rightarrow> ((rstring \<rightharpoonup> quota) \<Rightarrow> rstring list) \<Rightarrow> ('k, 'c) rate_tier \<Rightarrow> rstring" where
  "debug_rate_tier quote code order rt = debug_struct_open (lit ''RateTier'')
     [(lit ''tiers'', debug_map quote debug_quota (order (tiers rt)) (tiers rt)),
      (lit ''default_tier'', debug_option quote (default_tier rt)),
      (lit ''on_missing'', debug_on_missing code (on_missing rt)),
      (lit ''on_unknown_tier'', debug_on_unknown_tier code (on_unknown_tier rt)),
      (lit ''gc_enabled'', debug_bool (gc rt \<noteq> None))]"

definition debug_builder ::
  "(rstring \<Rightarrow> rstring) \<Rightarrow> (status_code \<Rightarrow> rstring) \<Rightarrow> ((rstring \<rightharpoonup> quota) \<Rightarrow> rstring list)
    \<Rightarrow> ('k, 'c) rate_tier_builder \<Rightarrow> rstring" where
  "debug_builder quote code order b = debug_struct (lit ''RateTierBuilder'')
     [(lit ''tiers'', debug_map quote debug_quota (order (b_tiers b)) (b_tiers b)),
      (lit ''default_tier'', debug_option quote (b_default_tier b)),
      (lit ''on_missing'', debug_on_missing code (b_on_missing b)),
      (lit ''on_unknown_tier'', debug_on_unknown_tier code (b_on_unknown_tier b)),
      (lit ''custom_clock'', debug_bool (case b_clock b of None \<Rightarrow> False | Some _ \<Rightarrow> True)),
      (lit ''custom_storage'', debug_bool (case b_storage b of None \<Rightarrow> False | Some _ \<Rightarrow> True)),
      (lit ''gc_interval'', debug_duration (gc_interval b)),
      (lit ''gc_enabled'', debug_bool (gc_enabled b))]"

section \<open>What the output cannot show\<close>

text \<open>Logs show neither users nor secrets. The output for a storage, and for a circuit breaker over it, is the
  same whoever its entries belong to and whatever they hold, as long as there are as many; the one for
  a Redis storage is the same for every key secret; the one for a limiter does not depend on its storage at all.\<close>

theorem debug_hides_users_and_secrets:
  assumes "inj_on f (dom (mem_state m))" "dom (mem_state m') = f ` dom (mem_state m)"
  shows "debug_memory m' = debug_memory m \<and>
    debug_breaker debug_primary (b\<lparr>fallback := m'\<rparr>) = debug_breaker debug_primary (b\<lparr>fallback := m\<rparr>) \<and>
    debug_redis quote (key_secret st s) = debug_redis quote (key_secret st s') \<and>
    debug_rate_tier quote code order (rt\<lparr>storage := x\<rparr>) = debug_rate_tier quote code order rt"
proof -
  have "memory_len m' = memory_len m" using assms by (simp add: memory_len_def card_image)
  then show ?thesis
    by (simp add: debug_memory_def debug_breaker_def debug_redis_def key_secret_def debug_rate_tier_def)
qed

theorem debug_hides_users_and_secrets_witness:
  "debug_memory \<lparr>mem_state = [(lit ''alice'', lit ''free'') \<mapsto> 4]\<rparr>
    = debug_memory \<lparr>mem_state = [(lit ''bob'', lit ''pro'') \<mapsto> 9]\<rparr>"
  using debug_hides_users_and_secrets [of "\<lambda>_. (lit ''alice'', lit ''free'')" "\<lparr>mem_state = [(lit ''bob'', lit ''pro'') \<mapsto> 9]\<rparr>"
      "\<lparr>mem_state = [(lit ''alice'', lit ''free'') \<mapsto> 4]\<rparr>"]
  by simp blast

text \<open>A new storage and a new breaker over it, printed.\<close>

lemma debug_new_breaker:
  "debug_breaker debug_memory (breaker_new memory_new memory_new) =
     lit ''CircuitBreaker { primary: MemoryStorage { entries: 0 }, fallback: MemoryStorage { entries: 0 }, '' @
     lit ''state: Closed { failures: 0 }, failure_threshold: 3, open_for: 5s, on_state_change: false }''"
proof -
  have digits: "decimal 0 = lit ''0''" "decimal 3 = lit ''3''" "decimal 5 = lit ''5''"
    by (simp_all add: decimal.simps lit_def)
  have open_for: "debug_duration (from_nanos (duration_nanos DEFAULT_OPEN_FOR)) = lit ''5s''"
  proof -
    have "from_nanos (duration_nanos DEFAULT_OPEN_FOR) = from_secs 5"
      by (simp add: from_nanos_def duration_nanos_def DEFAULT_OPEN_FOR_def duration_of_nanos_def from_secs_def
          unat_max_word unat_of_nat_u64 as_nanos_def)
    then show ?thesis
      by (simp add: debug_duration_def from_secs_def fraction_text_def Let_def digits) (simp add: lit_def)
  qed
  have entries: "debug_memory memory_new = lit ''MemoryStorage { entries: 0 }''"
    by (simp add: debug_memory_def memory_len_def memory_new_def debug_struct_def debug_fields_def digits)
      (simp add: lit_def)
  show ?thesis
    by (simp add: debug_breaker_def breaker_new_def DEFAULT_FAILURE_THRESHOLD_def open_for entries digits
        debug_struct_def debug_fields_def debug_bool_def) (simp add: lit_def)
qed

end
