(* ===== verification/Collector.thy ===== *)
theory Collector
  imports Rate_Tier
begin

text \<open>
  The garbage collector around the built-in storage: \<open>src/gc.rs\<close> and \<open>LazyGc\<close> of \<open>src/tier.rs\<close>. The first part
  says what a collection leaves behind. The second is the start of the collector under concurrency:
  \<open>ensure_started\<close> in its atomic steps (the look at the \<open>OnceLock\<close>, \<open>get_or_init\<close> with its spawn), any
  number of threads using the limiter inside or outside a Tokio runtime, the task's ticks, its end when its
  runtime shuts down or it panics, and the drop of the limiter, which aborts it. A \<open>OnceLock\<close> lets one
  initializer run at a time and makes the others wait; an aborted task does not tick again.
\<close>

section \<open>What a collection leaves\<close>

lemma mem_step_state:
  assumes "mem_valid Q key c t"
  shows "snd (mem_step Q m key c t) = m \<or>
    (\<exists>tat. snd (mem_step Q m key c t) = m\<lparr>mem_state := (mem_state m)(entry_of key \<mapsto> tat)\<rparr> \<and> unat tat \<le> t + bo_nat (Q key))"
proof -
  have lq: "limited_quota (Q key)" using assms by (simp add: mem_valid_def)
  from assms show ?thesis
  proof (cases rule: mem_step_cases [where m = m])
    case (Allowed m')
    have le: "mem_tat m' key \<le> t + bo_nat (Q key)"
      using Allowed(2,3) by (auto simp: gcra_conforms_def gcra_next_def)
    from lq show ?thesis
    proof (cases rule: memory_check_cases [where m = m and key = key and now = "of_nat t" and cost = "of_nat c"])
      case (Allowed new_tat info)
      then show ?thesis
        using \<open>mem_step Q m key c t = (True, m')\<close> le by (auto simp: mem_step_def mem_tat_def)
    next
      case (Denied limited)
      then show ?thesis by (simp add: mem_step_def)
    qed
  qed simp
qed

text \<open>Every entry belongs to a request, whose burst it does not outlive.\<close>

definition entries_from :: "(storage_key \<Rightarrow> quota) \<Rightarrow> storage_key store_event list \<Rightarrow> memory_storage \<Rightarrow> bool" where
  "entries_from Q es m \<longleftrightarrow> (\<forall>e tat. mem_state m e = Some tat \<longrightarrow>
     (\<exists>key c t. Request key c t \<in> set es \<and> entry_of key = e \<and> unat tat \<le> t + bo_nat (Q key)))"

lemma entries_from_run:
  assumes "\<forall>k c t. Request k c t \<in> set es \<longrightarrow> mem_valid Q k c t" "set es \<subseteq> set all" "entries_from Q all m"
  shows "entries_from Q all (store_state (mem_step Q) mem_tick m es)"
  using assms
proof (induction es arbitrary: m)
  case (Cons e es)
  have "entries_from Q all (store_state (mem_step Q) mem_tick m' es)" if "entries_from Q all m'" for m'
    using Cons.IH [OF _ _ that] Cons.prems by simp
  moreover have "entries_from Q all (mem_tick m t)" for t
    using Cons.prems(3)
    by (auto simp: entries_from_def mem_tick_def gc_tick_def retain_active_lookup split: option.splits if_splits)
  moreover have "entries_from Q all (snd (mem_step Q m k c t))" if "e = Request k c t" for k c t
  proof -
    have "mem_valid Q k c t" "Request k c t \<in> set all" using Cons.prems that by auto
    then show ?thesis
      using mem_step_state [of Q k c t m] Cons.prems(3) by (fastforce simp: entries_from_def split: if_splits)
  qed
  ultimately show ?case by (cases e) simp_all
qed simp

section \<open>The lazy start under concurrency\<close>

datatype once_cell = OnceEmpty | OnceBusy nat | OnceSet nat

text \<open>Where a thread is in \<open>RateTier::storage\<close> and the use of what it returns.\<close>

datatype gc_pc = GcIdle | GcLooked | GcSpawning | GcPassed

record collector_sys =
  alive :: bool
  handle_cell :: once_cell
  spawned :: nat
  running :: "nat set"
  ended :: "nat set"
  threads :: "gc_pc list"
  collected :: memory_storage

fun cell_set :: "once_cell \<Rightarrow> bool" where
  "cell_set (OnceSet t) = True"
| "cell_set _ = False"

text \<open>Dropping the handle aborts its task. A task also ends by itself, when the runtime it was spawned on shuts down or
  when it panics (a user's clock, an interval without a time driver); its handle stays where it is.\<close>

definition handle_drop :: "once_cell \<Rightarrow> nat set \<Rightarrow> nat set" where
  "handle_drop c tasks = (case c of OnceSet t \<Rightarrow> tasks - {t} | _ \<Rightarrow> tasks)"

inductive collector_step ::
  "(nat \<Rightarrow> bool) \<Rightarrow> duration \<Rightarrow> collector_sys \<Rightarrow> collector_sys \<Rightarrow> bool"
  for in_runtime interval where
  Look: "alive s \<Longrightarrow> i < length (threads s) \<Longrightarrow> threads s ! i = GcIdle \<Longrightarrow>
    collector_step in_runtime interval s
      (s\<lparr>threads := (threads s)[i := if \<not> cell_set (handle_cell s) \<and> in_runtime i then GcLooked else GcPassed]\<rparr>)"
| Claim: "i < length (threads s) \<Longrightarrow> threads s ! i = GcLooked \<Longrightarrow> handle_cell s = OnceEmpty \<Longrightarrow>
    collector_step in_runtime interval s (s\<lparr>threads := (threads s)[i := GcSpawning], handle_cell := OnceBusy i\<rparr>)"
| Found: "i < length (threads s) \<Longrightarrow> threads s ! i = GcLooked \<Longrightarrow> handle_cell s = OnceSet t \<Longrightarrow>
    collector_step in_runtime interval s (s\<lparr>threads := (threads s)[i := GcPassed]\<rparr>)"
| Spawn: "i < length (threads s) \<Longrightarrow> threads s ! i = GcSpawning \<Longrightarrow> gc_spawn interval = Done () \<Longrightarrow>
    collector_step in_runtime interval s
      (s\<lparr>threads := (threads s)[i := GcPassed], handle_cell := OnceSet (spawned s),
         running := insert (spawned s) (running s), spawned := Suc (spawned s)\<rparr>)"
| Spawn_Panic: "i < length (threads s) \<Longrightarrow> threads s ! i = GcSpawning \<Longrightarrow> gc_spawn interval = Panic msg \<Longrightarrow>
    collector_step in_runtime interval s (s\<lparr>threads := (threads s)[i := GcIdle], handle_cell := OnceEmpty\<rparr>)"
| Use: "i < length (threads s) \<Longrightarrow> threads s ! i = GcPassed \<Longrightarrow>
    memory_check_and_update (collected s) key quota cost now = Done (out, m) \<Longrightarrow>
    collector_step in_runtime interval s (s\<lparr>threads := (threads s)[i := GcIdle], collected := m\<rparr>)"
| Tick: "t \<in> running s \<Longrightarrow>
    collector_step in_runtime interval s (s\<lparr>collected := gc_tick (collected s) now\<rparr>)"
| Task_End: "t \<in> running s \<Longrightarrow>
    collector_step in_runtime interval s (s\<lparr>running := running s - {t}, ended := insert t (ended s)\<rparr>)"
| Drop: "alive s \<Longrightarrow> list_all (\<lambda>p. p = GcIdle) (threads s) \<Longrightarrow>
    collector_step in_runtime interval s (s\<lparr>alive := False, running := handle_drop (handle_cell s) (running s)\<rparr>)"

definition collector_init :: "nat \<Rightarrow> collector_sys" where
  "collector_init n = \<lparr>alive = True, handle_cell = OnceEmpty, spawned = 0, running = {}, ended = {},
     threads = replicate n GcIdle, collected = memory_new\<rparr>"

text \<open>The handle says how many tasks were spawned and which run; only its initializer is spawning; whoever
  passed inside a runtime finds it set.\<close>

definition collector_inv :: "(nat \<Rightarrow> bool) \<Rightarrow> collector_sys \<Rightarrow> bool" where
  "collector_inv in_runtime s \<longleftrightarrow>
     spawned s = (if cell_set (handle_cell s) then 1 else 0) \<and>
     running s = (if cell_set (handle_cell s) \<and> alive s \<and> ended s = {} then {0} else {}) \<and>
     (\<forall>t. handle_cell s = OnceSet t \<longrightarrow> t = 0) \<and>
     (ended s \<noteq> {} \<longrightarrow> cell_set (handle_cell s)) \<and>
     (\<forall>i < length (threads s). threads s ! i = GcSpawning \<longleftrightarrow> handle_cell s = OnceBusy i) \<and>
     (\<forall>i < length (threads s). threads s ! i = GcPassed \<and> in_runtime i \<longrightarrow> cell_set (handle_cell s)) \<and>
     (\<not> alive s \<longrightarrow> list_all (\<lambda>p. p = GcIdle) (threads s))"

lemma collector_inv_init: "collector_inv in_runtime (collector_init n)"
  by (simp add: collector_inv_def collector_init_def)

lemma cell_set_iff: "cell_set c \<longleftrightarrow> (\<exists>t. c = OnceSet t)"
  by (cases c) auto

lemma collector_step_inv:
  assumes "collector_step in_runtime interval s s'" "collector_inv in_runtime s"
  shows "collector_inv in_runtime s'"
  using assms(1)
proof cases
  case (Look i)
  then show ?thesis using assms(2) by (auto simp: collector_inv_def nth_list_update)
next
  case (Claim i)
  then show ?thesis using assms(2) by (auto simp: collector_inv_def nth_list_update list_all_length)
next
  case (Found i t)
  then show ?thesis using assms(2) by (auto simp: collector_inv_def nth_list_update list_all_length)
next
  case (Spawn i)
  then show ?thesis using assms(2) by (auto simp: collector_inv_def nth_list_update list_all_length split: if_splits)
next
  case (Spawn_Panic i msg)
  then show ?thesis using assms(2) by (auto simp: collector_inv_def nth_list_update list_all_length split: if_splits)
next
  case (Use i key quota cost now out m)
  then show ?thesis using assms(2) by (auto simp: collector_inv_def nth_list_update list_all_length)
next
  case (Tick t now)
  then show ?thesis using assms(2) by (simp add: collector_inv_def)
next
  case (Task_End t)
  then show ?thesis using assms(2) by (auto simp: collector_inv_def split: if_splits)
next
  case Drop
  then show ?thesis using assms(2) by (auto simp: collector_inv_def handle_drop_def cell_set_iff split: once_cell.split)
qed

abbreviation collector_reaches :: "(nat \<Rightarrow> bool) \<Rightarrow> duration \<Rightarrow> nat \<Rightarrow> collector_sys \<Rightarrow> bool" where
  "collector_reaches in_runtime interval n s \<equiv> (collector_step in_runtime interval)\<^sup>*\<^sup>* (collector_init n) s"

lemma collector_reachable_inv:
  "collector_reaches in_runtime interval n s \<Longrightarrow> collector_inv in_runtime s"
  by (induction rule: rtranclp_induct) (auto intro: collector_inv_init collector_step_inv)

section \<open>Properties\<close>

text \<open>C30: a collection bounds the memory. After any run of valid requests and collections on a new storage, a
  collection at time t leaves at most one entry per user and tier that made a request in the last
  burst before t: the map does not grow with the users that have come and gone.\<close>

theorem collector_bounds_memory:
  assumes "\<forall>k c t. Request k c t \<in> set es \<longrightarrow> mem_valid Q k c t" "now \<le> u64_max"
  shows "memory_len (gc_tick (store_state (mem_step Q) mem_tick memory_new es) (of_nat now))
    \<le> card {key. \<exists>c t. Request key c t \<in> set es \<and> now \<le> t + bo_nat (Q key)}"
proof -
  let ?m = "store_state (mem_step Q) mem_tick memory_new es"
  let ?recent = "{key. \<exists>c t. Request key c t \<in> set es \<and> now \<le> t + bo_nat (Q key)}"
  have from_requests: "entries_from Q es ?m"
    by (rule entries_from_run [OF assms(1) subset_refl]) (simp add: entries_from_def memory_new_def)
  have "e \<in> entry_of ` ?recent" if "mem_state (gc_tick ?m (of_nat now)) e = Some tat" for e tat
  proof -
    have "mem_state ?m e = Some tat" "now \<le> unat tat"
      using that assms(2)
      by (auto simp: gc_tick_def retain_active_lookup word_le_nat_alt unat_of_nat_u64 split: option.splits if_splits)
    then show ?thesis using from_requests unfolding entries_from_def by (blast intro: le_trans)
  qed
  then have sub: "dom (mem_state (gc_tick ?m (of_nat now))) \<subseteq> entry_of ` ?recent" by auto
  have "?recent \<subseteq> (\<lambda>e. case e of Request k c t \<Rightarrow> k) ` set es" by force
  then have fin: "finite ?recent" by (rule finite_subset) simp
  have "memory_len (gc_tick ?m (of_nat now)) \<le> card (entry_of ` ?recent)"
    unfolding memory_len_def using sub fin by (intro card_mono finite_imageI)
  then show ?thesis using card_image_le [OF fin, of entry_of] by linarith
qed

text \<open>C29: at most one collector. However many threads use a limiter at once, inside and outside runtimes, at most one
  collector task is ever spawned. It runs exactly from the moment its handle is set until the limiter is dropped
  or the task has ended by itself (its runtime shut down, or it panicked), and then no other is started; every
  thread that got the storage inside a runtime got it with the collector running or ended by itself.\<close>

theorem one_collector_task:
  assumes "(collector_step in_runtime interval)\<^sup>*\<^sup>* (collector_init n) s"
  shows "spawned s \<le> 1 \<and> card (running s) \<le> 1 \<and>
    (running s \<noteq> {} \<longleftrightarrow> alive s \<and> cell_set (handle_cell s) \<and> ended s = {}) \<and>
    (\<forall>i. i < length (threads s) \<and> threads s ! i = GcPassed \<and> in_runtime i \<longrightarrow>
      spawned s = 1 \<and> (running s \<noteq> {} \<or> ended s \<noteq> {}))"
proof -
  have inv: "collector_inv in_runtime s" by (rule collector_reachable_inv [OF assms])
  have "alive s" if "i < length (threads s)" "threads s ! i = GcPassed" for i
    using inv that by (auto simp: collector_inv_def list_all_length)
  then show ?thesis using inv by (auto simp: collector_inv_def)
qed

theorem collector_bounds_memory_witness:
  "memory_len (gc_tick (store_state (mem_step (\<lambda>_. three_per_minute)) mem_tick memory_new demo_events)
     (of_nat 200000000000)) = 0"
proof -
  have old: "{key. \<exists>c t. Request key c t \<in> set demo_events \<and> 200000000000 \<le> t + bo_nat three_per_minute} = {}"
    by (auto simp: demo_events_def three_per_minute_nat)
  show ?thesis
    using collector_bounds_memory [OF demo_valid(2), of 200000000000] unfolding old by simp
qed

text \<open>A limiter used by one thread in a runtime and one outside; the first has started the collector.\<close>

definition demo_collecting :: collector_sys where
  "demo_collecting = \<lparr>alive = True, handle_cell = OnceSet 0, spawned = 1, running = {0}, ended = {},
     threads = [GcPassed, GcPassed], collected = memory_new\<rparr>"

lemma demo_collecting_reached:
  "(collector_step (\<lambda>i. i = 0) (from_secs 60))\<^sup>*\<^sup>* (collector_init 2) demo_collecting"
proof -
  let ?step = "collector_step (\<lambda>i. i = 0) (from_secs 60)" and ?init = "collector_init 2"
  let ?a = "?init\<lparr>threads := [GcIdle, GcPassed]\<rparr>" and ?b = "?init\<lparr>threads := [GcLooked, GcPassed]\<rparr>"
  let ?c = "?init\<lparr>threads := [GcSpawning, GcPassed], handle_cell := OnceBusy 0\<rparr>"
  have "?step ?init ?a"
    using collector_step.Look [of ?init 1 "\<lambda>i. i = 0" "from_secs 60"] by (simp add: collector_init_def numeral_2_eq_2)
  moreover have "?step ?a ?b"
    using collector_step.Look [of ?a 0 "\<lambda>i. i = 0" "from_secs 60"] by (simp add: collector_init_def)
  moreover have "?step ?b ?c"
    using collector_step.Claim [of 0 ?b "\<lambda>i. i = 0" "from_secs 60"] by (simp add: collector_init_def)
  moreover have "?step ?c demo_collecting"
    using collector_step.Spawn [of 0 ?c "from_secs 60" "\<lambda>i. i = 0"]
    by (simp add: collector_init_def demo_collecting_def gc_spawn_def assert_exec_def is_zero_iff)
  ultimately show ?thesis by (meson converse_rtranclp_into_rtranclp rtranclp.rtrancl_refl)
qed

text \<open>The runtime it was started on has shut down: the handle is still set, so no use starts another collector.\<close>

definition demo_ended :: collector_sys where
  "demo_ended = demo_collecting\<lparr>running := {}, ended := {0}\<rparr>"

lemma demo_ended_reached: "(collector_step (\<lambda>i. i = 0) (from_secs 60))\<^sup>*\<^sup>* (collector_init 2) demo_ended"
proof -
  have "collector_step (\<lambda>i. i = 0) (from_secs 60) demo_collecting demo_ended"
    using collector_step.Task_End [of 0 demo_collecting "\<lambda>i. i = 0" "from_secs 60"]
    by (simp add: demo_ended_def demo_collecting_def)
  then show ?thesis using demo_collecting_reached by (rule rtranclp.rtrancl_into_rtrancl [rotated])
qed

theorem one_collector_task_witness:
  "spawned demo_collecting = 1 \<and> running demo_collecting \<noteq> {} \<and>
    alive demo_ended \<and> threads demo_ended ! 0 = GcPassed \<and> spawned demo_ended = 1 \<and> running demo_ended = {}"
  using one_collector_task [OF demo_collecting_reached] one_collector_task [OF demo_ended_reached]
  by (simp add: demo_collecting_def demo_ended_def)

end
