(* ===== verification/Unit_Tests.thy ===== *)
theory Unit_Tests
  imports Debug_Output Collector Clock
begin

text \<open>
  The repository's own unit tests, replayed on the model: each definition is a test function of the sources
  (\<open>mod tests\<close> of \<open>transition.rs\<close>, \<open>clock.rs\<close>, \<open>response.rs\<close>, \<open>memory.rs\<close>, \<open>tier.rs\<close> and \<open>redis.rs\<close>) with its
  assertions as a truth value, and each lemma evaluates one. They check the definitions of the other
  theories against values the authors of the code expect. \<open>contains\<close> and \<open>starts_with\<close> are those of \<open>str\<close>.
  Tests of SHA-1 digests are left out, SHA-1 being a parameter.
\<close>

definition contains :: "rstring \<Rightarrow> rstring \<Rightarrow> bool" where
  "contains s p \<longleftrightarrow> list_ex (\<lambda>i. take (length p) (drop i s) = p) [0..<Suc (length s)]"

lemma containsI: "s = a @ p @ b \<Longrightarrow> contains s p"
  by (auto simp: contains_def list_ex_iff intro!: bexI [of _ "length a"])

lemma contains_iff: "contains s p \<longleftrightarrow> (\<exists>a b. s = a @ p @ b)"
proof
  assume "contains s p"
  then obtain i where "take (length p) (drop i s) = p" by (auto simp: contains_def list_ex_iff)
  then have "s = take i s @ p @ drop (length p) (drop i s)" by (metis append_take_drop_id)
  then show "\<exists>a b. s = a @ p @ b" by blast
qed (auto intro: containsI)

abbreviation S :: nanos where "S \<equiv> 1000000000"

section \<open>\<open>transition.rs\<close>\<close>

definition test_policy :: policy where
  "test_policy = \<lparr>failure_threshold = 3, open_for = 5 * S\<rparr>"

definition closed_success_resets_failures :: bool where
  "closed_success_resets_failures \<longleftrightarrow> after_call (Closed 2) Primary Success 10 test_policy = Closed 0"

definition closed_failure_below_threshold_counts :: bool where
  "closed_failure_below_threshold_counts \<longleftrightarrow> after_call (Closed 0) Primary Failure 10 test_policy = Closed 1"

definition closed_failure_at_threshold_opens :: bool where
  "closed_failure_at_threshold_opens \<longleftrightarrow>
     after_call (Closed 2) Primary Failure 10 test_policy = Open (10 + 5 * S)"

definition threshold_one_opens_on_first_failure :: bool where
  "threshold_one_opens_on_first_failure \<longleftrightarrow>
     after_call (Closed 0) Primary Failure 10 (test_policy\<lparr>failure_threshold := 1\<rparr>) = Open (10 + 5 * S)"

definition half_open_probe_success_closes :: bool where
  "half_open_probe_success_closes \<longleftrightarrow> after_call HalfOpen Probe Success 50 test_policy = Closed 0"

definition half_open_probe_failure_reopens :: bool where
  "half_open_probe_failure_reopens \<longleftrightarrow> after_call HalfOpen Probe Failure 50 test_policy = Open (50 + 5 * S)"

definition stale_primary_result_leaves_open_unchanged :: bool where
  "stale_primary_result_leaves_open_unchanged \<longleftrightarrow>
     after_call (Open 99) Primary Success 10 test_policy = Open 99 \<and>
     after_call (Open 99) Primary Failure 10 test_policy = Open 99"

definition stale_primary_result_leaves_half_open_unchanged :: bool where
  "stale_primary_result_leaves_half_open_unchanged \<longleftrightarrow>
     after_call HalfOpen Primary Success 10 test_policy = HalfOpen \<and>
     after_call HalfOpen Primary Failure 10 test_policy = HalfOpen"

definition probe_result_outside_half_open_is_ignored :: bool where
  "probe_result_outside_half_open_is_ignored \<longleftrightarrow>
     after_call (Closed 1) Probe Failure 10 test_policy = Closed 1 \<and>
     after_call (Open 5) Probe Success 10 test_policy = Open 5"

definition open_until_saturates :: bool where
  "open_until_saturates \<longleftrightarrow>
     (let now = - 1 - 1 in
      after_call (Closed 2) Primary Failure now test_policy = Open (- 1) \<and>
      after_call HalfOpen Probe Failure now test_policy = Open (- 1))"

lemma unat_minus_two: "unat (- 2 :: u64) = u64_max - 1"
  by simp

lemma sat_add_eval:
  "(saturating_add 2 1 :: u32) = 3" "(saturating_add 0 1 :: u32) = 1"
  "(saturating_add 10 5000000000 :: u64) = 5000000010" "(saturating_add 50 5000000000 :: u64) = 5000000050"
  "(saturating_add (- 2) 5000000000 :: u64) = - 1"
  by (rule word_eq_unatI; simp add: unat_saturating_add unat_max_word unat_minus_two)+

lemma transition_tests_pass:
  closed_success_resets_failures closed_failure_below_threshold_counts closed_failure_at_threshold_opens
  threshold_one_opens_on_first_failure half_open_probe_success_closes half_open_probe_failure_reopens
  stale_primary_result_leaves_open_unchanged stale_primary_result_leaves_half_open_unchanged
  probe_result_outside_half_open_is_ignored open_until_saturates
  by (simp_all add: closed_success_resets_failures_def closed_failure_below_threshold_counts_def
      closed_failure_at_threshold_opens_def threshold_one_opens_on_first_failure_def
      half_open_probe_success_closes_def half_open_probe_failure_reopens_def
      stale_primary_result_leaves_open_unchanged_def stale_primary_result_leaves_half_open_unchanged_def
      probe_result_outside_half_open_is_ignored_def open_until_saturates_def test_policy_def sat_add_eval Let_def word_le_nat_alt)

section \<open>\<open>clock.rs\<close>\<close>

definition fake_clock_starts_at_zero :: bool where
  "fake_clock_starts_at_zero \<longleftrightarrow> (let clock = fake_clock_new in fake_clock_now clock = 0)"

definition test_fake_clock_advance :: bool where
  "test_fake_clock_advance \<longleftrightarrow>
     (let clock = fake_clock_new; clock = fake_clock_advance clock (from_secs 60)
      in fake_clock_now clock = 60000000000)"

definition fake_clock_advance_accumulates :: bool where
  "fake_clock_advance_accumulates \<longleftrightarrow>
     (let clock = fake_clock_new; clock = fake_clock_advance clock (from_secs 30);
          clock = fake_clock_advance clock (from_secs 30)
      in fake_clock_now clock = 60000000000)"

definition test_fake_clock_set :: bool where
  "test_fake_clock_set \<longleftrightarrow>
     (let clock = fake_clock_new; clock = fake_clock_set clock 123456789 in fake_clock_now clock = 123456789)"

lemma clock_tests_pass:
  fake_clock_starts_at_zero test_fake_clock_advance fake_clock_advance_accumulates test_fake_clock_set
proof -
  have adv: "fake_clock_advance c (from_secs s) = of_nat (unat c + unat s * 1000000000)"
    if "unat c + unat s * 1000000000 \<le> u64_max" for c s
  proof (rule word_eq_unatI, subst unat_of_nat_u64 [OF that])
    show "unat (fake_clock_advance c (from_secs s)) = unat c + unat s * 1000000000"
      using that by (simp add: unat_fake_clock_advance)
  qed
  have one: "fake_clock_advance 0 (from_secs 60) = 60000000000" "fake_clock_advance 0 (from_secs 30) = 30000000000"
    "fake_clock_advance 30000000000 (from_secs 30) = 60000000000"
    by (subst adv; simp)+
  show fake_clock_starts_at_zero test_fake_clock_advance fake_clock_advance_accumulates test_fake_clock_set
    by (simp_all add: fake_clock_starts_at_zero_def test_fake_clock_advance_def fake_clock_advance_accumulates_def
        test_fake_clock_set_def fake_clock_new_def fake_clock_now_def fake_clock_set_def one Let_def)
qed

section \<open>\<open>response.rs\<close>\<close>

definition test_limited :: "duration \<Rightarrow> rate_limited" where
  "test_limited wait = \<lparr>lim_limit = 1, retry_after = wait, lim_reset_after = from_secs 60\<rparr>"

text \<open>Indexing a header map gives the first value of the name.\<close>

definition header_of :: "(rstring \<times> rstring) list \<Rightarrow> rstring \<Rightarrow> rstring" where
  "header_of h name = hd (hm_get_all list_http h name)"

definition retry_after_is_rounded_up_in_header_and_body :: bool where
  "retry_after_is_rounded_up_in_header_and_body \<longleftrightarrow>
     (let resp = rate_limited_response list_http (test_limited (from_millis 29500)) (lit ''free'') unix_epoch
      in header_of (headers resp) (lit ''retry-after'') = lit ''30'' \<and> contains (body resp) (lit ''\"retry_after\":30''))"

definition sub_second_retry_after_is_one_in_header_and_body :: bool where
  "sub_second_retry_after_is_one_in_header_and_body \<longleftrightarrow>
     (let resp = rate_limited_response list_http (test_limited (from_millis 500)) (lit ''free'') unix_epoch
      in header_of (headers resp) (lit ''retry-after'') = lit ''1'' \<and> contains (body resp) (lit ''\"retry_after\":1''))"

definition reset_header_is_unix_time_rounded_up :: bool where
  "reset_header_is_unix_time_rounded_up \<longleftrightarrow>
     (let now = unix_epoch + int (as_nanos (from_secs 1000));
          info = \<lparr>info_limit = 10, remaining = 9, info_reset_after = from_millis 2500\<rparr>;
          resp = inject_headers list_http \<lparr>status = 200, headers = hm_empty list_http, body = ()\<rparr> info now
      in header_of (headers resp) (lit ''x-ratelimit-reset'') = lit ''1003'')"

definition reset_header_is_zero_when_the_clock_is_before_the_epoch :: bool where
  "reset_header_is_zero_when_the_clock_is_before_the_epoch \<longleftrightarrow>
     (let now = unix_epoch - int (as_nanos (from_secs 10));
          info = \<lparr>info_limit = 10, remaining = 9, info_reset_after = from_secs 1\<rparr>;
          resp = inject_headers list_http \<lparr>status = 200, headers = hm_empty list_http, body = ()\<rparr> info now
      in header_of (headers resp) (lit ''x-ratelimit-reset'') = lit ''0'')"

lemma whole_seconds:
  "retry_after_secs (test_limited (from_millis 29500)) = 30" "retry_after_secs (test_limited (from_millis 500)) = 1"
proof -
  have "(saturating_add 29 1 :: u64) = 30" "(saturating_add 0 1 :: u64) = 1"
    by (rule word_eq_unatI; simp add: unat_saturating_add)+
  then show "retry_after_secs (test_limited (from_millis 29500)) = 30"
    "retry_after_secs (test_limited (from_millis 500)) = 1"
    by (simp_all add: retry_after_secs_def ceil_secs_def test_limited_def from_millis_def duration_of_nanos_def)
qed

lemma retry_after_shown:
  assumes "retry_after_secs limited = secs"
  shows "header_of (headers (rate_limited_response list_http limited tier_name now)) (lit ''retry-after'') = decimal (unat secs)"
    and "contains (body (rate_limited_response list_http limited tier_name now)) (lit ''\"retry_after\":'' @ decimal (unat secs))"
proof -
  show "header_of (headers (rate_limited_response list_http limited tier_name now)) (lit ''retry-after'') = decimal (unat secs)"
    using assms
    by (simp add: rate_limited_response_def Let_def build_response_def header_of_def list_http_def ascii_lower_def lit_def)
  have "lit ''\",\"retry_after\":'' = lit ''\",'' @ lit ''\"retry_after\":''" by (simp add: lit_def)
  then show "contains (body (rate_limited_response list_http limited tier_name now)) (lit ''\"retry_after\":'' @ decimal (unat secs))"
    using assms
    by (intro containsI [where a = "lit ''{\"error\":\"rate limit exceeded\",\"tier\":\"'' @ escape_json_string tier_name @ lit ''\",''"
          and b = "lit ''}''"]) (simp add: rate_limited_response_def Let_def build_response_def)
qed

lemma response_tests_pass:
  retry_after_is_rounded_up_in_header_and_body sub_second_retry_after_is_one_in_header_and_body
  reset_header_is_unix_time_rounded_up reset_header_is_zero_when_the_clock_is_before_the_epoch
proof -
  have digits: "decimal 30 = lit ''30''" "decimal (Suc 0) = lit ''1''" "decimal 1003 = lit ''1003''" "decimal 0 = lit ''0''"
    by (simp_all add: decimal.simps lit_def)
  have texts: "lit ''\"retry_after\":'' @ lit ''30'' = lit ''\"retry_after\":30''"
    "lit ''\"retry_after\":'' @ lit ''1'' = lit ''\"retry_after\":1''"
    by (simp_all add: lit_def)
  show retry_after_is_rounded_up_in_header_and_body
    using retry_after_shown [OF whole_seconds(1), of "lit ''free''" 0]
    by (simp add: retry_after_is_rounded_up_in_header_and_body_def Let_def digits texts)
  show sub_second_retry_after_is_one_in_header_and_body
    using retry_after_shown [OF whole_seconds(2), of "lit ''free''" 0]
    by (simp add: sub_second_retry_after_is_one_in_header_and_body_def Let_def digits texts)
  have shown: "header_of (headers (inject_headers list_http \<lparr>status = 200, headers = hm_empty list_http, body = ()\<rparr> info now))
      (lit ''x-ratelimit-reset'') = reset_header_value (info_reset_after info) now" for info now
    by (simp add: inject_headers_def header_of_def list_http_def ascii_lower_def lit_def)
  have "(saturating_add 1002 1 :: u64) = 1003" by (rule word_eq_unatI; simp add: unat_saturating_add)
  then have "reset_header_value (from_millis 2500) 1000000000000 = decimal 1003"
    by (simp add: reset_header_value_def system_time_checked_add_def duration_since_epoch_def ceil_secs_def
        duration_of_nanos_def)
  moreover have "reset_header_value (from_secs 1) (- 10000000000) = decimal 0"
    by (simp add: reset_header_value_def system_time_checked_add_def duration_since_epoch_def)
  ultimately show reset_header_is_unix_time_rounded_up reset_header_is_zero_when_the_clock_is_before_the_epoch
    by (simp_all add: reset_header_is_unix_time_rounded_up_def
        reset_header_is_zero_when_the_clock_is_before_the_epoch_def Let_def shown digits)
qed

section \<open>\<open>memory.rs\<close> and \<open>tier.rs\<close>\<close>

definition debug_shows_entry_count_but_not_keys :: bool where
  "debug_shows_entry_count_but_not_keys \<longleftrightarrow>
     (let storage = memory_new;
          storage = storage\<lparr>mem_state := (mem_state storage)((lit ''secret-api-key'', lit ''free'') \<mapsto> 1)\<rparr>;
          out = debug_memory storage
      in contains out (lit ''entries: 1'') \<and> \<not> contains out (lit ''secret-api-key''))"

definition clear_removes_every_entry :: bool where
  "clear_removes_every_entry \<longleftrightarrow>
     (let storage = memory_new;
          storage = storage\<lparr>mem_state := (mem_state storage)((lit ''a'', lit ''free'') \<mapsto> 1)\<rparr>;
          storage = storage\<lparr>mem_state := (mem_state storage)((lit ''b'', lit ''pro'') \<mapsto> - 1)\<rparr>;
          storage = memory_clear storage
      in memory_is_empty storage)"

definition gc_started_in :: "('k, 'c) rate_tier \<Rightarrow> bool option" where
  "gc_started_in rt = map_option gc_started (gc rt)"

definition gc_storage_len :: "('k, 'c) rate_tier \<Rightarrow> nat option" where
  "gc_storage_len rt = (case storage rt of BuiltIn m \<Rightarrow> Some (memory_len m) | Custom c \<Rightarrow> None)"

definition gc_starts_at_build_inside_a_runtime :: bool where
  "gc_starts_at_build_inside_a_runtime \<longleftrightarrow>
     (case bind_exec (per_second 1) (\<lambda>q. build True (set_tier (lit ''free'') q builder) :: (unit, unit) rate_tier exec) of
        Done limiter \<Rightarrow> gc_started_in limiter = Some True
      | Panic _ \<Rightarrow> False)"

definition gc_built_outside_a_runtime_starts_on_first_use_and_repeats :: bool where
  "gc_built_outside_a_runtime_starts_on_first_use_and_repeats \<longleftrightarrow>
     (case bind_exec (per_second 1) (\<lambda>q. bind_exec
          (set_gc_interval (from_secs 1) (set_clock () (set_tier (lit ''free'') q builder))) (build False)) of
        Panic _ \<Rightarrow> False
      | Done limiter \<Rightarrow> gc_started_in limiter = Some False \<and>
          (case check demo_custom (\<lambda>_. 0) True limiter (lit ''u1'') (lit ''free'') 1 of
             Done (Ok (Ok _), limiter) \<Rightarrow>
               gc_started_in limiter = Some True \<and>
               (let limiter = background_tick 0 limiter in
                gc_storage_len limiter = Some 1 \<and>
                (let limiter = background_tick (10 * S) limiter in gc_storage_len limiter = Some 0))
           | _ \<Rightarrow> False))"

lemma one_entry_shown:
  "mem_state m = [e \<mapsto> t] \<Longrightarrow> debug_memory m = lit ''MemoryStorage { entries: 1 }''"
proof -
  have "decimal (Suc 0) = lit ''1''" by (simp add: decimal.simps lit_def)
  then show "mem_state m = [e \<mapsto> t] \<Longrightarrow> debug_memory m = lit ''MemoryStorage { entries: 1 }''"
    by (simp add: debug_memory_def memory_len_def debug_struct_def debug_fields_def) (simp add: lit_def)
qed

lemma memory_tests_pass: debug_shows_entry_count_but_not_keys clear_removes_every_entry
proof -
  have "contains (lit ''MemoryStorage { entries: 1 }'') (lit ''entries: 1'')"
    by (rule containsI [where a = "lit ''MemoryStorage { ''" and b = "lit '' }''"]) (simp add: lit_def)
  moreover have "\<not> contains (lit ''MemoryStorage { entries: 1 }'') (lit ''secret-api-key'')"
    by (simp add: contains_def lit_def upt_rec)
  ultimately show debug_shows_entry_count_but_not_keys
    by (simp add: debug_shows_entry_count_but_not_keys_def Let_def one_entry_shown memory_new_def)
  show clear_removes_every_entry
    by (simp add: clear_removes_every_entry_def memory_clear_def memory_is_empty_def Let_def)
qed

definition one_per_second :: quota where
  "one_per_second = \<lparr>max_burst = 1, window = from_secs 1\<rparr>"

lemma one_per_second_limited: "limited_quota one_per_second"
  by (simp add: one_per_second_def limited_quota_def quota_ok_def is_unlimited_def)

lemma per_second_one: "per_second 1 = Done one_per_second"
  by (simp add: one_per_second_def per_second_def with_window_def assert_exec_def is_zero_iff)

lemma one_per_second_nat: "ei_nat one_per_second = 1000000000" "bo_nat one_per_second = 1000000000"
  by (simp_all add: one_per_second_def ei_nat_def bo_nat_def)

lemma first_check:
  "\<exists>info. memory_check_and_update memory_new (storage_key_new (lit ''u1'') (lit ''free'')) one_per_second 1 0
     = Done (Ok (Ok info), \<lparr>mem_state = [(lit ''u1'', lit ''free'') \<mapsto> 1000000000]\<rparr>)"
  by (simp add: memory_check_limited [OF one_per_second_limited] one_per_second_nat gcra_eval memory_new_def
      entry_of_def storage_key_new_def)

definition test_limiter :: "bool \<Rightarrow> (unit, unit) rate_tier" where
  "test_limiter started =
     \<lparr>tiers = [lit ''free'' \<mapsto> one_per_second], default_tier = None, on_missing = MissingUseDefault,
      on_unknown_tier = UnknownUseDefault, storage = BuiltIn memory_new, clock = CustomClock (),
      gc = Some \<lparr>lazy_interval = from_secs 1, gc_started = started\<rparr>\<rparr>"

lemma test_limiter_ok: "rate_tier_ok (test_limiter b)"
  using one_per_second_limited by (auto simp: test_limiter_def rate_tier_ok_def limited_quota_def is_zero_iff split: if_splits)

lemma test_limiter_built:
  "bind_exec (set_gc_interval (from_secs 1) (set_clock () (set_tier (lit ''free'') one_per_second builder))) (build False)
    = Done (test_limiter False)"
  by (simp add: builder_setters assert_exec_def is_zero_iff builder_def builder_default_def build_def start_gc_ok Let_def
      test_limiter_def on_missing_default_def on_unknown_tier_default_def)

lemma tier_tests_pass:
  gc_starts_at_build_inside_a_runtime gc_built_outside_a_runtime_starts_on_first_use_and_repeats
proof -
  show gc_starts_at_build_inside_a_runtime
    by (simp add: gc_starts_at_build_inside_a_runtime_def per_second_one builder_setters builder_def builder_default_def
        build_def assert_exec_def start_gc_ok is_zero_iff Let_def gc_started_in_def)
  obtain info where first: "memory_check_and_update memory_new (storage_key_new (lit ''u1'') (lit ''free'')) one_per_second 1 0
     = Done (Ok (Ok info), \<lparr>mem_state = [(lit ''u1'', lit ''free'') \<mapsto> 1000000000]\<rparr>)"
    using first_check by blast
  let ?used = "(test_limiter True)\<lparr>storage := BuiltIn \<lparr>mem_state = [(lit ''u1'', lit ''free'') \<mapsto> 1000000000]\<rparr>\<rparr>"
  have "check demo_custom (\<lambda>_. 0) True (test_limiter False) (lit ''u1'') (lit ''free'') 1 = Done (Ok (Ok info), ?used)"
  proof -
    have "tiers (test_limiter False) (lit ''free'') = Some one_per_second" "storage (test_limiter False) = BuiltIn memory_new"
      "\<not> is_unlimited one_per_second" "max_burst one_per_second = 1"
      by (simp_all add: test_limiter_def one_per_second_def is_unlimited_def)
    then have "check demo_custom (\<lambda>_. 0) True (test_limiter False) (lit ''u1'') (lit ''free'') 1 =
        Done (Ok (Ok info), after_use True (test_limiter False) \<lparr>mem_state = [(lit ''u1'', lit ''free'') \<mapsto> 1000000000]\<rparr>)"
      by (simp add: check_def use_storage_ok [OF test_limiter_ok] first)
    then show ?thesis by (simp add: test_limiter_def)
  qed
  moreover have "background_tick 0 ?used = ?used"
    by (simp add: background_tick_def test_limiter_def gc_tick_def memory_retain_active_def fun_eq_iff)
  moreover have "gc_storage_len (background_tick (10 * S) ?used) = Some 0"
    by (simp add: background_tick_def test_limiter_def gc_tick_def memory_retain_active_def gc_storage_len_def
        memory_len_def dom_def)
  moreover have "gc_storage_len ?used = Some 1" "gc_started_in ?used = Some True" "gc_started_in (test_limiter False) = Some False"
    by (simp_all add: gc_storage_len_def memory_len_def gc_started_in_def test_limiter_def)
  ultimately show gc_built_outside_a_runtime_starts_on_first_use_and_repeats
    by (simp add: gc_built_outside_a_runtime_starts_on_first_use_and_repeats_def per_second_one test_limiter_built)
qed

section \<open>\<open>redis.rs\<close>\<close>

text \<open>Two connections: one whose commands never get an answer, one whose commands all fail.\<close>

definition never_answers :: "unit redis_conn" where
  "never_answers call s = (None, s)"

definition refused :: "unit redis_conn" where
  "refused call s = (Some (Err (lit ''connection refused'')), s)"

definition plain_keys_keep_the_user_id_readable :: "digest_fn \<Rightarrow> bool" where
  "plain_keys_keep_the_user_id_readable sha1 \<longleftrightarrow>
     (let storage = plain_user_ids (key_prefix redis_new (lit ''app:''));
          key = redis_key sha1 storage (storage_key_new (lit ''alice'') (lit ''free''))
      in key = lit ''app:4:free:alice'')"

definition debug_never_shows_the_key_secret :: "(rstring \<Rightarrow> rstring) \<Rightarrow> bool" where
  "debug_never_shows_the_key_secret quote \<longleftrightarrow>
     (let storage = key_secret redis_new (utf8 (lit ''hunter2-secret''));
          out = debug_redis quote storage
      in \<not> contains out (lit ''hunter2'') \<and> contains out (lit ''key_secret: true''))"

definition micros_round_up :: bool where
  "micros_round_up \<longleftrightarrow>
     micros_ceil 333333333 = 333334 \<and> micros_ceil 250000000 = 250000 \<and> micros_ceil 1 = 1"

definition replies_decode_into_the_gcra_decision :: bool where
  "replies_decode_into_the_gcra_decision \<longleftrightarrow>
     (let allowed = decode_reply (1, 3, 0, 1500000) 4 in
      allowed = Ok \<lparr>info_limit = 4, remaining = 3, info_reset_after = from_millis 1500\<rparr>) \<and>
     (let limited = decode_reply (0, 0, 250000, 1000000) 4 in
      limited = Err \<lparr>lim_limit = 4, retry_after = from_millis 250, lim_reset_after = from_secs 1\<rparr>)"

definition a_silent_redis_times_out_as_a_storage_error :: "digest_fn \<Rightarrow> bool" where
  "a_silent_redis_times_out_as_a_storage_error sha1 \<longleftrightarrow>
     (let storage = set_timeout redis_new (from_millis 50) in
      case bind_exec (per_second 1) (\<lambda>quota.
        redis_check_and_update sha1 never_answers storage () (storage_key_new (lit ''u1'') (lit ''free'')) quota 1 0) of
        Done (Err err, _) \<Rightarrow> contains (display_storage_error err) (lit ''did not answer within 50ms'')
      | _ \<Rightarrow> False)"

definition connection_errors_become_storage_errors :: "digest_fn \<Rightarrow> bool" where
  "connection_errors_become_storage_errors sha1 \<longleftrightarrow>
     (case bind_exec (per_second 1) (\<lambda>quota.
        redis_check_and_update sha1 refused redis_new () (storage_key_new (lit ''u1'') (lit ''free'')) quota 1 0) of
        Done (Err err, _) \<Rightarrow> contains (display_storage_error err) (lit ''connection refused'')
      | _ \<Rightarrow> False)"

lemma redis_key_tests_pass: "plain_keys_keep_the_user_id_readable sha1"
proof -
  have "str_len (lit ''free'') = 4" by (simp add: str_len_def utf8_def utf8_char_def lit_def)
  moreover have "decimal 4 = lit ''4''" by (simp add: decimal.simps lit_def)
  ultimately show ?thesis
    by (simp add: plain_keys_keep_the_user_id_readable_def redis_key_def plain_user_ids_def key_prefix_def
        storage_key_new_def Let_def) (simp add: lit_def)
qed

lemma redis_value_tests_pass: micros_round_up replies_decode_into_the_gcra_decision
  by (simp_all add: micros_round_up_def micros_ceil_def replies_decode_into_the_gcra_decision_def reply_u32_def
      reply_micros_def from_micros_def from_millis_def from_secs_def duration_of_nanos_def Let_def)

lemma redis_error_tests_pass:
  "a_silent_redis_times_out_as_a_storage_error sha1" "connection_errors_become_storage_errors sha1"
proof -
  have fifty: "debug_duration (from_millis 50) = lit ''50ms''"
    by (simp add: from_millis_def duration_of_nanos_def debug_duration_def Let_def fraction_text_def decimal.simps lit_def)
  have "contains (lit ''storage error: '' @ lit ''redis did not answer within '' @ lit ''50ms'') (lit ''did not answer within 50ms'')"
    by (rule containsI [where a = "lit ''storage error: redis ''" and b = "[]"]) (simp add: lit_def)
  then show "a_silent_redis_times_out_as_a_storage_error sha1"
    by (simp add: a_silent_redis_times_out_as_a_storage_error_def per_second_one redis_check_and_update_def
        make_call_eq [OF one_per_second_limited] never_answers_def set_timeout_def fifty)
  have "contains (lit ''storage error: '' @ lit ''connection refused'') (lit ''connection refused'')"
    by (rule containsI [where a = "lit ''storage error: ''" and b = "[]"]) simp
  then show "connection_errors_become_storage_errors sha1"
    by (simp add: connection_errors_become_storage_errors_def per_second_one redis_check_and_update_def
        make_call_eq [OF one_per_second_limited] refused_def)
qed

text \<open>The standard library shows the default prefix in double quotes, with nothing to escape.\<close>

lemma redis_debug_test_passes:
  assumes "quote (lit ''trt:'') = lit ''\"trt:\"''"
  shows "debug_never_shows_the_key_secret quote"
proof -
  let ?out = "lit ''RedisStorage { key_prefix: \"trt:\", timeout: 100ms, hash_user_ids: true, '' @
    lit ''key_secret: true'' @ lit '', client_clock: false, .. }''"
  have timeout: "debug_duration DEFAULT_TIMEOUT = lit ''100ms''"
    by (simp add: DEFAULT_TIMEOUT_def from_millis_def duration_of_nanos_def debug_duration_def Let_def
        fraction_text_def decimal.simps lit_def)
  have "debug_redis quote (key_secret redis_new (utf8 (lit ''hunter2-secret''))) = ?out"
    by (simp add: debug_redis_def key_secret_def redis_new_def assms timeout debug_struct_open_def debug_fields_def
        debug_bool_def) (simp add: lit_def)
  moreover have "\<not> contains ?out (lit ''hunter2'')"
    by (simp add: contains_def lit_def upt_rec)
  moreover have "contains ?out (lit ''key_secret: true'')"
    by (rule containsI [where a = "lit ''RedisStorage { key_prefix: \"trt:\", timeout: 100ms, hash_user_ids: true, ''"
          and b = "lit '', client_clock: false, .. }''"]) (rule refl)
  ultimately show ?thesis by (simp add: debug_never_shows_the_key_secret_def Let_def)
qed

end
