(* ===== verification/Breaker_Tests.thy ===== *)
theory Breaker_Tests
  imports Unit_Tests Breaker_Concurrency
begin

text \<open>
  The circuit breaker's own unit tests (\<open>mod tests\<close> and \<open>mod redis_tests\<close> of \<open>storage/breaker.rs\<close>) replayed on
  the model: the scripted primary storage, the helpers and the test functions with their assertions. Calls made
  one at a time use \<open>breaker_check_and_update\<close>, calls kept in flight the steps of \<open>Breaker_Concurrency\<close>.
\<close>

section \<open>The scripted primary\<close>

datatype script_step = StepAllow | StepLimit | StepFail rstring

record scripted =
  scripted_calls :: nat
  script :: "script_step list"
  script_then :: script_step

definition scripted_new :: "script_step list \<Rightarrow> script_step \<Rightarrow> scripted" where
  "scripted_new steps after = \<lparr>scripted_calls = 0, script = steps, script_then = after\<rparr>"

definition scripted_op :: "scripted storage_op" where
  "scripted_op p key quota cost now =
     (let step = (case script p of [] \<Rightarrow> script_then p | s # _ \<Rightarrow> s);
          p' = p\<lparr>scripted_calls := scripted_calls p + 1, script := tl (script p)\<rparr>
      in Done (case step of
           StepFail message \<Rightarrow> Err (StorageError message)
         | StepLimit \<Rightarrow> Ok (Err \<lparr>lim_limit = 3, retry_after = from_secs 20, lim_reset_after = from_secs 60\<rparr>)
         | StepAllow \<Rightarrow> Ok (Ok \<lparr>info_limit = 3, remaining = 2, info_reset_after = from_secs 20\<rparr>), p'))"

definition test_call :: "scripted breaker \<Rightarrow> nanos \<Rightarrow> (storage_outcome \<times> scripted breaker) exec" where
  "test_call b now =
     bind_exec (per_minute 3) (\<lambda>quota.
       breaker_check_and_update scripted_op b (storage_key_new (lit ''u1'') (lit ''free'')) quota 1 now)"

text \<open>Calls that must be answered.\<close>

definition test_serve :: "scripted breaker \<Rightarrow> nanos \<Rightarrow> scripted breaker exec" where
  "test_serve b now = bind_exec (test_call b now) (\<lambda>(decision, b'). assert_exec (is_ok decision) ''decision'' (Done b'))"

fun test_serve_all :: "scripted breaker \<Rightarrow> nanos list \<Rightarrow> scripted breaker exec" where
  "test_serve_all b [] = Done b"
| "test_serve_all b (now # nows) = bind_exec (test_serve b now) (\<lambda>b'. test_serve_all b' nows)"

definition failing :: "nat \<Rightarrow> script_step list" where
  "failing n = replicate n (StepFail (lit ''redis down''))"

definition scripted_breaker :: "script_step list \<Rightarrow> script_step \<Rightarrow> scripted breaker" where
  "scripted_breaker steps after = breaker_new (scripted_new steps after) memory_new"

text \<open>\<open>recorder\<close>: every event as a line of text.\<close>

fun event_line :: "breaker_event \<Rightarrow> rstring" where
  "event_line (PrimaryFailed error) = lit ''PrimaryFailed: '' @ display_storage_error error"
| "event_line (Opened error) = lit ''Opened: '' @ display_storage_error error"
| "event_line ClosedEvent = lit ''Closed''"

definition recorded :: "'p breaker \<Rightarrow> rstring list option" where
  "recorded b = map_option (map event_line) (on_state_change b)"

section \<open>The tests\<close>

definition closed_passes_primary_results_through :: bool where
  "closed_passes_primary_results_through \<longleftrightarrow>
     (case test_call (scripted_breaker [] StepLimit) 0 of
        Done (Ok result, b) \<Rightarrow>
          result = Err \<lparr>lim_limit = 3, retry_after = from_secs 20, lim_reset_after = from_secs 60\<rparr> \<and>
          scripted_calls (primary b) = 1
      | _ \<Rightarrow> False)"

definition primary_failure_is_served_by_fallback :: bool where
  "primary_failure_is_served_by_fallback \<longleftrightarrow>
     (case test_call (scripted_breaker (failing 1) StepAllow) 0 of
        Done (Ok (Ok info), b) \<Rightarrow> info_limit info = 3 \<and> remaining info = 2 \<and> scripted_calls (primary b) = 1
      | _ \<Rightarrow> False)"

definition opens_after_threshold_and_skips_primary :: bool where
  "opens_after_threshold_and_skips_primary \<longleftrightarrow>
     (case bind_exec (test_serve_all (scripted_breaker (failing 3) StepAllow) [0, 0, 0]) (\<lambda>b. test_call b 1) of
        Done (Ok (Err fourth), b) \<Rightarrow> scripted_calls (primary b) = 3
      | _ \<Rightarrow> False)"

text \<open>\<open>n\<close> calls at the given times, each answered with a decision that satisfies \<open>p\<close>.\<close>

fun test_decide_all :: "(decision \<Rightarrow> bool) \<Rightarrow> scripted breaker \<Rightarrow> nanos list \<Rightarrow> scripted breaker exec" where
  "test_decide_all p b [] = Done b"
| "test_decide_all p b (now # nows) =
     bind_exec (test_call b now) (\<lambda>(r, b').
       case r of Ok d \<Rightarrow> assert_exec (p d) ''decision'' (test_decide_all p b' nows) | Err _ \<Rightarrow> Panic ''unwrap'')"

definition rate_limited_answers_count_as_success :: bool where
  "rate_limited_answers_count_as_success \<longleftrightarrow>
     (case test_decide_all (\<lambda>d. \<not> is_ok d) (set_on_state_change (scripted_breaker [] StepLimit)) [0, 1, 2, 3, 4, 5, 6, 7, 8, 9] of
        Done b \<Rightarrow> scripted_calls (primary b) = 10 \<and> recorded b = Some []
      | Panic _ \<Rightarrow> False)"

definition probe_waits_for_open_for :: bool where
  "probe_waits_for_open_for \<longleftrightarrow>
     (case test_serve_all (scripted_breaker (failing 3) StepAllow) [0, 0, 0, 5 * S - 1] of
        Done b \<Rightarrow> scripted_calls (primary b) = 3 \<and>
          (case test_serve b (5 * S) of Done b' \<Rightarrow> scripted_calls (primary b') = 4 | Panic _ \<Rightarrow> False)
      | Panic _ \<Rightarrow> False)"

definition failed_probe_is_served_by_fallback_and_reopens :: bool where
  "failed_probe_is_served_by_fallback_and_reopens \<longleftrightarrow>
     (case test_serve_all (scripted_breaker (failing 4) StepAllow) [0, 0, 0, 5 * S] of
        Done b \<Rightarrow> scripted_calls (primary b) = 4 \<and>
          (case test_serve b (10 * S - 1) of
             Done b1 \<Rightarrow> scripted_calls (primary b1) = 4 \<and>
               (case test_serve b1 (10 * S) of Done b2 \<Rightarrow> scripted_calls (primary b2) = 5 | Panic _ \<Rightarrow> False)
           | Panic _ \<Rightarrow> False)
      | Panic _ \<Rightarrow> False)"

definition successful_probe_closes_and_clears_fallback :: bool where
  "successful_probe_closes_and_clears_fallback \<longleftrightarrow>
     (case test_serve_all (scripted_breaker (failing 3) StepAllow) [0, 0, 0] of
        Done b \<Rightarrow> memory_len (fallback b) = 1 \<and>
          (case test_call b (5 * S) of
             Done (Ok (Ok _), b1) \<Rightarrow> memory_len (fallback b1) = 0 \<and>
               (case test_serve b1 (5 * S + 1) of Done b2 \<Rightarrow> scripted_calls (primary b2) = 5 | Panic _ \<Rightarrow> False)
           | _ \<Rightarrow> False)
      | Panic _ \<Rightarrow> False)"

definition events_in_order :: bool where
  "events_in_order \<longleftrightarrow>
     (case test_serve_all (set_on_state_change (scripted_breaker
          [StepFail (lit ''first''), StepFail (lit ''second''), StepFail (lit ''third''), StepFail (lit ''probe'')]
          StepAllow)) [0, 0, 0, 5 * S, 10 * S] of
        Done b \<Rightarrow> recorded b = Some
          [lit ''PrimaryFailed: storage error: first'', lit ''PrimaryFailed: storage error: second'',
           lit ''PrimaryFailed: storage error: third'', lit ''Opened: storage error: third'',
           lit ''PrimaryFailed: storage error: probe'', lit ''Closed'']
      | Panic _ \<Rightarrow> False)"

definition failure_threshold_zero_panics :: bool where
  "failure_threshold_zero_panics \<longleftrightarrow>
     set_failure_threshold (scripted_breaker [] StepAllow) 0 = Panic ''failure threshold must be greater than 0''"

definition open_for_zero_panics :: bool where
  "open_for_zero_panics \<longleftrightarrow>
     set_open_for (scripted_breaker [] StepAllow) (from_secs 0) = Panic ''open_for must be non-zero''"

section \<open>They pass\<close>

lemma default_open_for: "duration_nanos DEFAULT_OPEN_FOR = 5000000000"
  by (simp add: duration_nanos_def DEFAULT_OPEN_FOR_def unat_max_word)

lemma failing_1: "failing (Suc 0) = [StepFail (lit ''redis down'')]"
  by (simp add: failing_def)

lemma failing_3: "failing 3 = [StepFail (lit ''redis down''), StepFail (lit ''redis down''), StepFail (lit ''redis down'')]"
  by (simp add: failing_def numeral_3_eq_3)

lemma failing_4: "failing 4 = StepFail (lit ''redis down'') # failing 3"
  by (simp add: failing_def flip: replicate_Suc)

lemma word_le_one_eval: "\<not> (3 :: u32) \<le> 1" "\<not> (5000000000 :: u64) \<le> 1"
  by (simp_all add: word_le_nat_alt)

text \<open>A map with one entry, as \<open>retain_active\<close> leaves it.\<close>

lemma dom_one_entry:
  "dom (\<lambda>k. case if k = x then Some t else None of None \<Rightarrow> None | Some tat \<Rightarrow> if 0 \<le> tat then Some tat else None)
     = {x}" for t :: u64
  by (auto split: if_splits option.splits)

lemmas call_eval = word_le_one_eval dom_one_entry
  test_call_def test_serve_def scripted_op_def scripted_new_def scripted_breaker_def breaker_new_def
  per_minute_three three_per_minute_limited
  breaker_check_and_update_def admit_def emit_def prune_fallback_def prune_fallback_if_due_def prune_exchange_def
  fallback_check_def storage_key_new_def assert_exec_def failing_1 failing_3 failing_4 DEFAULT_FAILURE_THRESHOLD_def default_open_for
  memory_clear_def memory_len_def set_on_state_change_def recorded_def memory_eval

lemma first_call_tests_pass:
  closed_passes_primary_results_through primary_failure_is_served_by_fallback
  by (simp_all add: closed_passes_primary_results_through_def primary_failure_is_served_by_fallback_def call_eval)

lemma setting_tests_pass: failure_threshold_zero_panics open_for_zero_panics
  by (simp_all add: failure_threshold_zero_panics_def open_for_zero_panics_def set_failure_threshold_def
      set_open_for_def assert_exec_def is_zero_def from_secs_def as_nanos_def)

lemma sequence_tests_pass:
  opens_after_threshold_and_skips_primary rate_limited_answers_count_as_success probe_waits_for_open_for
  by (simp_all add: opens_after_threshold_and_skips_primary_def rate_limited_answers_count_as_success_def
      probe_waits_for_open_for_def call_eval)

lemma probe_tests_pass:
  failed_probe_is_served_by_fallback_and_reopens successful_probe_closes_and_clears_fallback
  by (simp_all add: failed_probe_is_served_by_fallback_and_reopens_def
      successful_probe_closes_and_clears_fallback_def call_eval)

lemma event_test_passes: events_in_order
  by (simp add: events_in_order_def call_eval) (simp add: lit_def)

section \<open>Tests with calls in flight\<close>

text \<open>
  A call that waits in the test (\<open>HeldAllow\<close>, \<open>HeldFail\<close>, \<open>Never\<close>) is here a call advanced by two or more
  steps, up to the answer of the primary, and resumed or dropped later.
\<close>

definition opened_breaker :: "script_step list \<Rightarrow> script_step \<Rightarrow> scripted breaker exec" where
  "opened_breaker steps after = test_serve_all (scripted_breaker (failing 3 @ steps) after) [0, 0, 0]"

definition spawned_call :: "nanos \<Rightarrow> call exec" where
  "spawned_call now =
     bind_exec (per_minute 3) (\<lambda>quota. Done (Start (storage_key_new (lit ''u1'') (lit ''free''), quota, 1, now)))"

definition is_answered_ok :: "call \<Rightarrow> bool" where
  "is_answered_ok c = (case c of Answered (Ok _) \<Rightarrow> True | _ \<Rightarrow> False)"

definition stale_success_does_not_close :: bool where
  "stale_success_does_not_close \<longleftrightarrow>
     (case bind_exec (spawned_call 0) (\<lambda>c. run_call 2 scripted_op c
          (scripted_breaker [StepAllow] (StepFail (lit ''redis down'')))) of
        Done (slow, b) \<Rightarrow> scripted_calls (primary b) = 1 \<and>
          (case bind_exec (test_serve_all b [0, 0, 0]) (run_call 2 scripted_op slow) of
             Done (slow', b1) \<Rightarrow> is_answered_ok slow' \<and>
               (case test_serve b1 1 of Done b2 \<Rightarrow> scripted_calls (primary b2) = 4 | Panic _ \<Rightarrow> False)
           | Panic _ \<Rightarrow> False)
      | Panic _ \<Rightarrow> False)"

definition cancelled_probe_lets_the_next_request_probe :: bool where
  "cancelled_probe_lets_the_next_request_probe \<longleftrightarrow>
     (case bind_exec (opened_breaker [StepAllow] StepAllow) (\<lambda>b. bind_exec (spawned_call (5 * S)) (\<lambda>c.
          run_call 4 scripted_op c b)) of
        Done (probe, b) \<Rightarrow> \<not> is_answered_ok probe \<and> scripted_calls (primary b) = 4 \<and>
          (case test_serve (drop_call probe b) (5 * S) of
             Done b1 \<Rightarrow> scripted_calls (primary b1) = 5
           | Panic _ \<Rightarrow> False)
      | Panic _ \<Rightarrow> False)"

definition unpolled_probe_lets_the_next_request_probe :: bool where
  "unpolled_probe_lets_the_next_request_probe \<longleftrightarrow>
     (case bind_exec (opened_breaker [] StepAllow) (\<lambda>b. bind_exec (spawned_call (5 * S)) (\<lambda>c.
          run_call 1 scripted_op c b)) of
        Done (probe, b) \<Rightarrow> scripted_calls (primary b) = 3 \<and>
          (case test_serve (drop_call probe b) (5 * S) of
             Done b1 \<Rightarrow> scripted_calls (primary b1) = 4
           | Panic _ \<Rightarrow> False)
      | Panic _ \<Rightarrow> False)"

lemma run_call_eval:
  "run_call 2 = run_call (Suc (Suc 0))" "run_call 4 = run_call (Suc (Suc (Suc (Suc 0))))"
  by (simp_all add: eval_nat_numeral)

lemmas flight_eval =
  opened_breaker_def spawned_call_def is_answered_ok_def drop_call_def drop_guard_def run_action_def
  run_call_eval call_eval

lemma in_flight_tests_pass:
  stale_success_does_not_close cancelled_probe_lets_the_next_request_probe unpolled_probe_lets_the_next_request_probe
  by (simp_all add: stale_success_does_not_close_def cancelled_probe_lets_the_next_request_probe_def
      unpolled_probe_lets_the_next_request_probe_def flight_eval)

text \<open>Several calls, advanced in order by the same number of steps.\<close>

fun advance_each :: "nat \<Rightarrow> call list \<Rightarrow> scripted breaker \<Rightarrow> (call list \<times> scripted breaker) exec" where
  "advance_each n [] b = Done ([], b)"
| "advance_each n (c # cs) b =
     bind_exec (run_call n scripted_op c b) (\<lambda>(c', b1).
     map_exec (\<lambda>(cs', b2). (c' # cs', b2)) (advance_each n cs b1))"

definition event_name :: "breaker_event \<Rightarrow> string" where
  "event_name ev =
     (case ev of PrimaryFailed _ \<Rightarrow> ''PrimaryFailed'' | Opened _ \<Rightarrow> ''Opened'' | ClosedEvent \<Rightarrow> ''Closed'')"

definition in_flight_failures_emit_one_opened :: bool where
  "in_flight_failures_emit_one_opened \<longleftrightarrow>
     (case bind_exec (spawned_call 0) (\<lambda>c. advance_each 2 (replicate 10 c)
          (set_on_state_change (scripted_breaker (replicate 10 (StepFail (lit ''in flight''))) StepAllow))) of
        Done (waiting, b) \<Rightarrow> scripted_calls (primary b) = 10 \<and>
          (case advance_each 8 waiting b of
             Done (finished, b1) \<Rightarrow> list_all is_answered_ok finished \<and>
               map_option (\<lambda>evs. (length (filter (\<lambda>ev. event_name ev = ''PrimaryFailed'') evs),
                                   length (filter (\<lambda>ev. event_name ev = ''Opened'') evs))) (on_state_change b1)
                 = Some (10, 1) \<and>
               (case test_serve b1 (5 * S - 1) of
                  Done b2 \<Rightarrow> scripted_calls (primary b2) = 10 \<and>
                    (case test_serve b2 (5 * S) of Done b3 \<Rightarrow> scripted_calls (primary b3) = 11 | Panic _ \<Rightarrow> False)
                | Panic _ \<Rightarrow> False)
           | Panic _ \<Rightarrow> False)
      | Panic _ \<Rightarrow> False)"

lemma ten_eval:
  "replicate 10 x = [x, x, x, x, x, x, x, x, x, x]"
  "advance_each 8 = advance_each (Suc (Suc (Suc (Suc (Suc (Suc (Suc (Suc 0))))))))"
  "advance_each 2 = advance_each (Suc (Suc 0))"
  by (simp_all add: eval_nat_numeral)

lemma in_flight_failures_test_passes: in_flight_failures_emit_one_opened
  by (simp add: in_flight_failures_emit_one_opened_def ten_eval event_name_def flight_eval)

text \<open>
  The callback of this test makes a call when it is told that the probe failed, and keeps the future without
  polling it: the step that creates a call, taken right after the event.
\<close>

definition finished_probe_does_not_release_a_newer_probe :: bool where
  "finished_probe_does_not_release_a_newer_probe \<longleftrightarrow>
     (case bind_exec (set_failure_threshold (scripted_breaker [StepFail (lit ''first''), StepFail (lit ''probe'')] StepAllow) 1)
          (\<lambda>b. bind_exec (set_open_for b (from_nanos 1))
          (\<lambda>b. bind_exec (test_serve (set_on_state_change b) 0)
          (\<lambda>b. bind_exec (spawned_call 10) (\<lambda>c. run_call 6 scripted_op c b)))) of
        Done (probe, b) \<Rightarrow> recorded b = Some [lit ''PrimaryFailed: storage error: first'', lit ''Opened: storage error: first'',
            lit ''PrimaryFailed: storage error: probe''] \<and>
          (case bind_exec (spawned_call 20) (\<lambda>c. run_call 1 scripted_op c b) of
             Done (newer, b1) \<Rightarrow> probing newer \<and>
               (case run_call 8 scripted_op probe b1 of
                  Done (finished, b2) \<Rightarrow> is_answered_ok finished \<and> state b2 = HalfOpen \<and>
                    (case test_serve b2 30 of Done b3 \<Rightarrow> scripted_calls (primary b3) = 2 | Panic _ \<Rightarrow> False)
                | Panic _ \<Rightarrow> False)
           | Panic _ \<Rightarrow> False)
      | Panic _ \<Rightarrow> False)"

lemma probe_run_eval:
  "run_call 6 = run_call (Suc (Suc (Suc (Suc (Suc (Suc 0))))))"
  "run_call 8 = run_call (Suc (Suc (Suc (Suc (Suc (Suc (Suc (Suc 0))))))))"
  by (simp_all add: eval_nat_numeral)

lemma one_nano: "duration_nanos (from_nanos 1) = 1" "\<not> is_zero (from_nanos 1)"
  by (simp_all add: duration_nanos_def is_zero_iff unat_max_word)

lemma newer_probe_test_passes: finished_probe_does_not_release_a_newer_probe
  by (simp add: finished_probe_does_not_release_a_newer_probe_def probe_run_eval one_nano set_failure_threshold_def
      set_open_for_def flight_eval) (simp add: lit_def)

section \<open>Redis behind the breaker\<close>

definition redis_test_call :: "digest_fn \<Rightarrow> unit redis_conn \<Rightarrow> redis_storage \<Rightarrow> unit breaker \<Rightarrow> unit breaker exec" where
  "redis_test_call sha1 conn st b =
     bind_exec (per_minute 3) (\<lambda>quota.
     bind_exec (breaker_check_and_update (redis_check_and_update sha1 conn st) b
         (storage_key_new (lit ''u1'') (lit ''free'')) quota 1 0)
       (\<lambda>(decision, b'). assert_exec (is_ok decision) ''decision'' (Done b')))"

definition refused_redis_opens_the_breaker :: "digest_fn \<Rightarrow> bool" where
  "refused_redis_opens_the_breaker sha1 \<longleftrightarrow>
     (let call = redis_test_call sha1 refused redis_new;
          b0 = set_on_state_change (breaker_new () memory_new)
      in case bind_exec (bind_exec (bind_exec (call b0) call) call) call of
           Done b \<Rightarrow> map_option (map event_name) (on_state_change b)
             = Some [''PrimaryFailed'', ''PrimaryFailed'', ''PrimaryFailed'', ''Opened'']
         | Panic _ \<Rightarrow> False)"

lemma refused_redis_test_passes: "refused_redis_opens_the_breaker sha1"
  by (simp add: refused_redis_opens_the_breaker_def redis_test_call_def redis_check_and_update_def
      make_call_eq [OF three_per_minute_limited] refused_def event_name_def call_eval)

end
