(* ===== verification/Concurrent_Limiter.thy ===== *)
theory Concurrent_Limiter
  imports Rate_Tier
begin

text \<open>
  \<open>RateTier::check\<close> (\<open>src/tier.rs\<close>) by many threads at once, on the built-in storage with its collector running
  (\<open>src/gc.rs\<close>, \<open>src/storage/memory.rs\<close>). A check reads the clock first and reaches the storage later: in between
  other checks, the collector and the clock go on, so the storage sees clock readings out of order. A pass of
  the collector reads the clock once and then looks at one entry after another (\<open>DashMap::retain\<close> locks one
  shard at a time). Each step below is one atomic operation of the sources.
\<close>

section \<open>A check in steps\<close>

text \<open>Not polled yet; the clock has been read; the collector has been started if it had to be; finished.\<close>

datatype check_call =
    CheckStart rstring rstring u32
  | CheckTimed storage_key quota u32 nanos
  | CheckReady storage_key quota u32 nanos
  | CheckDone "(decision, check_error) result"
  | CheckDropped

fun check_step ::
  "'c storage_op \<Rightarrow> ('k clock_ref \<Rightarrow> nanos) \<Rightarrow> bool \<Rightarrow> check_call \<Rightarrow> ('k, 'c) rate_tier
    \<Rightarrow> (check_call \<times> ('k, 'c) rate_tier) exec" where
  "check_step custom_op clock_now in_runtime (CheckStart user_id tier_name cost) rt =
     Done (case tiers rt tier_name of
        None \<Rightarrow> CheckDone (Err (UnknownTier tier_name))
      | Some quota \<Rightarrow>
          if is_unlimited quota then
            CheckDone (Ok (Ok \<lparr>info_limit = 0, remaining = 0, info_reset_after = zero_duration\<rparr>))
          else if cost > max_burst quota then
            CheckDone (Err (CostExceedsLimit cost (max_burst quota)))
          else CheckTimed (storage_key_new user_id tier_name) quota cost (clock_now (clock rt)), rt)"
| "check_step custom_op clock_now in_runtime (CheckTimed key quota cost now) rt =
     map_exec (\<lambda>rt'. (CheckReady key quota cost now, rt')) (start_gc in_runtime rt)"
| "check_step custom_op clock_now in_runtime (CheckReady key quota cost now) rt =
     map_exec (\<lambda>(r, st). (CheckDone (map_result id check_error_from r), rt\<lparr>storage := st\<rparr>))
       (backend_op custom_op (storage rt) key quota cost now)"
| "check_step custom_op clock_now in_runtime c rt = Done (c, rt)"

primrec run_check ::
  "nat \<Rightarrow> 'c storage_op \<Rightarrow> ('k clock_ref \<Rightarrow> nanos) \<Rightarrow> bool \<Rightarrow> check_call \<Rightarrow> ('k, 'c) rate_tier
    \<Rightarrow> (check_call \<times> ('k, 'c) rate_tier) exec" where
  "run_check 0 custom_op clock_now in_runtime c rt = Done (c, rt)"
| "run_check (Suc n) custom_op clock_now in_runtime c rt =
     bind_exec (check_step custom_op clock_now in_runtime c rt)
       (\<lambda>(c', rt'). run_check n custom_op clock_now in_runtime c' rt')"

text \<open>Three steps without interruption are \<open>check\<close>.\<close>

lemma map_exec_bind: "map_exec f m = bind_exec m (\<lambda>a. Done (f a))"
  by (cases m) simp_all

lemma run_check_uninterrupted:
  "run_check 3 custom_op clock_now in_runtime (CheckStart user_id tier_name cost) rt =
     map_exec (\<lambda>(r, rt'). (CheckDone r, rt')) (check custom_op clock_now in_runtime rt user_id tier_name cost)"
  by (auto simp: numeral_3_eq_3 check_def use_storage_def Let_def map_exec_bind bind_exec_assoc split_def
      split: option.split)

section \<open>A pass of the collector, entry by entry\<close>

definition retain_entry :: "nanos \<Rightarrow> rstring \<times> rstring \<Rightarrow> memory_storage \<Rightarrow> memory_storage" where
  "retain_entry now e m =
     (case mem_state m e of
        None \<Rightarrow> m
      | Some tat \<Rightarrow> if tat \<ge> now then m else m\<lparr>mem_state := (mem_state m)(e := None)\<rparr>)"

lemma retain_entry_lookup:
  "mem_state (retain_entry now e m) e' =
     (if e' = e then mem_state (memory_retain_active m now) e else mem_state m e')"
  by (auto simp: retain_entry_def memory_retain_active_def split: option.split)

text \<open>Looking at every entry once, in any order, is \<open>retain_active\<close>.\<close>

lemma retain_entries:
  assumes "dom (mem_state m) \<subseteq> set es"
  shows "fold (retain_entry now) es m = memory_retain_active m now"
proof -
  have look: "mem_state (fold (retain_entry now) es m) e =
      (if e \<in> set es then mem_state (memory_retain_active m now) e else mem_state m e)" for e es and m :: memory_storage
    by (induction es arbitrary: m) (auto simp: retain_entry_lookup retain_active_lookup split: option.split)
  have "mem_state (fold (retain_entry now) es m) = mem_state (memory_retain_active m now)"
  proof
    fix e
    show "mem_state (fold (retain_entry now) es m) e = mem_state (memory_retain_active m now) e"
      using assms by (cases "mem_state m e") (auto simp: look retain_active_lookup)
  qed
  then show ?thesis by simp
qed

section \<open>All checks together\<close>

text \<open>
  The system has the limiter, what its clock shows, the state of every check, and the clock reading of the
  collector's pass in progress. Two fields only record what happened: the decisions of the storage, in order,
  and the entries the collector removed, each with the reading of its pass.
\<close>

record ('k, 'c) limiter_sys =
  limiter :: "('k, 'c) rate_tier"
  shown :: nat
  checks :: "nat \<Rightarrow> check_call"
  pass :: "nanos option"
  decided :: "(storage_key \<times> cell_request \<times> bool) list"
  collected :: "((rstring \<times> rstring) \<times> nat) list"

definition limiter_init :: "('k, 'c) rate_tier \<Rightarrow> (nat \<Rightarrow> check_call) \<Rightarrow> ('k, 'c) limiter_sys" where
  "limiter_init rt cs = \<lparr>limiter = rt, shown = 0, checks = cs, pass = None, decided = [], collected = []\<rparr>"

text \<open>What can happen next: time passes, a check advances or is dropped, a pass of the collector begins, looks at an
  entry or ends.\<close>

datatype limiter_move =
    PassTime nat
  | AdvanceCheck nat
  | CancelCheck nat
  | BeginPass
  | CollectEntry "rstring \<times> rstring"
  | EndPass

fun decision_of :: "check_call \<Rightarrow> check_call \<Rightarrow> (storage_key \<times> cell_request \<times> bool) list" where
  "decision_of (CheckReady key quota cost now) (CheckDone r) = [(key, (unat cost, unat now), allowed_check r)]"
| "decision_of _ _ = []"

text \<open>A check reaches the storage at most \<open>delay\<close> nanoseconds after it read the clock.\<close>

fun on_time :: "nat \<Rightarrow> nat \<Rightarrow> check_call \<Rightarrow> bool" where
  "on_time delay t (CheckReady key quota cost now) = (t \<le> unat now + delay)"
| "on_time delay t _ = True"

text \<open>One move; \<open>None\<close> when it cannot be made in this state.\<close>

fun make_move ::
  "'c storage_op \<Rightarrow> (nat \<Rightarrow> bool) \<Rightarrow> nat \<Rightarrow> ('k, 'c) limiter_sys \<Rightarrow> limiter_move \<Rightarrow> ('k, 'c) limiter_sys option" where
  "make_move custom_op in_runtime delay s (PassTime d) = Some (s\<lparr>shown := shown s + d\<rparr>)"
| "make_move custom_op in_runtime delay s (AdvanceCheck i) =
     (if on_time delay (shown s) (checks s i) then
        case check_step custom_op (\<lambda>_. of_nat (shown s)) (in_runtime i) (checks s i) (limiter s) of
          Done (c', rt') \<Rightarrow>
            Some (s\<lparr>limiter := rt', checks := (checks s)(i := c'), decided := decided s @ decision_of (checks s i) c'\<rparr>)
        | Panic _ \<Rightarrow> None
      else None)"
| "make_move custom_op in_runtime delay s (CancelCheck i) = Some (s\<lparr>checks := (checks s)(i := CheckDropped)\<rparr>)"
| "make_move custom_op in_runtime delay s BeginPass =
     (case (gc (limiter s), pass s) of
        (Some g, None) \<Rightarrow> if gc_started g then Some (s\<lparr>pass := Some (of_nat (shown s))\<rparr>) else None
      | _ \<Rightarrow> None)"
| "make_move custom_op in_runtime delay s (CollectEntry e) =
     (case (storage (limiter s), pass s) of
        (BuiltIn m, Some now) \<Rightarrow>
          Some (s\<lparr>limiter := (limiter s)\<lparr>storage := BuiltIn (retain_entry now e m)\<rparr>,
            collected := (if mem_state (retain_entry now e m) e = mem_state m e then collected s
                          else (e, unat now) # collected s)\<rparr>)
      | _ \<Rightarrow> None)"
| "make_move custom_op in_runtime delay s EndPass = Some (s\<lparr>pass := None\<rparr>)"

fun limiter_run ::
  "'c storage_op \<Rightarrow> (nat \<Rightarrow> bool) \<Rightarrow> nat \<Rightarrow> ('k, 'c) limiter_sys \<Rightarrow> limiter_move list \<Rightarrow> ('k, 'c) limiter_sys option" where
  "limiter_run custom_op in_runtime delay s [] = Some s"
| "limiter_run custom_op in_runtime delay s (mv # mvs) =
     (case make_move custom_op in_runtime delay s mv of
        None \<Rightarrow> None
      | Some t \<Rightarrow> limiter_run custom_op in_runtime delay t mvs)"

section \<open>The potential\<close>

text \<open>
  \<open>n\<close> is the cost allowed so far to requests that read the clock in \<open>[a, b]\<close>, \<open>k\<close> how often the collector removed
  the key's entry in that time, \<open>T\<close> the stored arrival time, \<open>t\<close> what the clock shows. A removal forgets at most
  \<open>delay\<close>, because every request still to come has read the clock at most \<open>delay\<close> before.
\<close>

definition potential :: "nat \<Rightarrow> nat \<Rightarrow> nat \<Rightarrow> nat \<Rightarrow> nat \<Rightarrow> nat \<Rightarrow> nat \<Rightarrow> nat \<Rightarrow> nat \<Rightarrow> bool" where
  "potential E B a b delay n k T t \<longleftrightarrow>
     (0 < n \<and> t \<le> b + delay \<longrightarrow> E * n + a \<le> max T (t - delay) + k * delay) \<and>
     E * n \<le> (b - a) + B + k * delay"

lemma potential_init: "potential E B a b delay 0 k T t"
  by (simp add: potential_def)

lemma potential_time: "potential E B a b delay n k T t \<Longrightarrow> t \<le> t' \<Longrightarrow> potential E B a b delay n k T t'"
proof -
  assume "potential E B a b delay n k T t" "t \<le> t'"
  moreover from this(2) have "max T (t - delay) \<le> max T (t' - delay)" by auto
  ultimately show "potential E B a b delay n k T t'" unfolding potential_def by auto
qed

lemma potential_request:
  assumes "potential E B a b delay n k T t" "t \<le> now + delay" "gcra_conforms E B T now c"
  shows "potential E B a b delay (n + (if a \<le> now \<and> now \<le> b then c else 0)) k (gcra_next E T now c) t"
proof (cases "a \<le> now \<and> now \<le> b")
  case True
  have le: "max T now + E * c \<le> now + B" using assms(3) by (simp add: gcra_conforms_def gcra_next_def)
  have "E * (n + c) + a \<le> max T now + E * c + k * delay"
  proof (cases "n = 0")
    case False
    then have "E * n + a \<le> max T (t - delay) + k * delay"
      using assms(1,2) True unfolding potential_def by auto
    moreover have "max T (t - delay) \<le> max T now" using assms(2) by auto
    ultimately show ?thesis by (simp add: distrib_left)
  qed (use True in auto)
  then show ?thesis using True le by (auto simp: potential_def gcra_next_def)
next
  case False
  have "max T (t - delay) \<le> max (max T now + E * c) (t - delay)" by auto
  then show ?thesis using False assms(1) by (auto simp: potential_def gcra_next_def)
qed

lemma potential_forget:
  assumes "potential E B a b delay n k T t" "T < p" "p \<le> t" "0 < n \<longrightarrow> a < p"
  shows "potential E B a b delay n (if a < p \<and> p \<le> b + delay then Suc k else k) 0 t"
proof (cases "0 < n \<and> t \<le> b + delay")
  case True
  then have "E * n + a \<le> max T (t - delay) + k * delay" "a < p" "p \<le> b + delay"
    using assms unfolding potential_def by auto
  moreover have "max T (t - delay) \<le> t - delay + delay" using assms(2,3) by auto
  ultimately show ?thesis using assms(1) True by (auto simp: potential_def)
next
  case False
  then show ?thesis using assms(1) by (auto simp: potential_def)
qed

section \<open>The invariant\<close>

text \<open>A check that read the clock is on a limited tier of the configuration, and the reading has passed.\<close>

fun check_call_ok :: "(rstring \<rightharpoonup> quota) \<Rightarrow> nat \<Rightarrow> check_call \<Rightarrow> bool" where
  "check_call_ok ts t (CheckTimed key quota cost now) =
     (ts (key_tier key) = Some quota \<and> limited_quota quota \<and> unat now \<le> t)"
| "check_call_ok ts t (CheckReady key quota cost now) =
     (ts (key_tier key) = Some quota \<and> limited_quota quota \<and> unat now \<le> t)"
| "check_call_ok ts t _ = True"

definition limiter_ok :: "(rstring \<rightharpoonup> quota) \<Rightarrow> ('k, 'c) limiter_sys \<Rightarrow> bool" where
  "limiter_ok ts s \<longleftrightarrow> rate_tier_ok (limiter s) \<and> tiers (limiter s) = ts \<and>
     (\<exists>m. storage (limiter s) = BuiltIn m) \<and> (\<forall>i. check_call_ok ts (shown s) (checks s i)) \<and>
     (\<forall>p. pass s = Some p \<longrightarrow> unat p \<le> shown s)"

lemma check_call_ok_later: "check_call_ok ts t c \<Longrightarrow> t \<le> t' \<Longrightarrow> check_call_ok ts t' c"
  by (cases "(ts, t, c)" rule: check_call_ok.cases) auto

text \<open>What a step of a check does to the limiter: nothing, it starts the collector, or it is the one access to the storage.\<close>

lemma check_step_cases:
  assumes "rate_tier_ok rt" "storage rt = BuiltIn m" "check_call_ok (tiers rt) t c"
  obtains (Quiet) c' where "check_step custom_op (\<lambda>_. of_nat t) in_rt c rt = Done (c', rt)"
      "decision_of c c' = []" "check_call_ok (tiers rt) t c'"
  | (Collector) key quota cost now g where "c = CheckTimed key quota cost now"
      "check_step custom_op (\<lambda>_. of_nat t) in_rt c rt = Done (CheckReady key quota cost now, rt\<lparr>gc := g\<rparr>)"
      "rate_tier_ok (rt\<lparr>gc := g\<rparr>)"
  | (Decided) key quota cost now d m' where "c = CheckReady key quota cost now" "limited_quota quota"
      "memory_check_and_update m key quota cost now = Done (Ok d, m')"
      "check_step custom_op (\<lambda>_. of_nat t) in_rt c rt = Done (CheckDone (Ok d), rt\<lparr>storage := BuiltIn m'\<rparr>)"
proof (cases c)
  case (CheckStart user_id tier_name cost)
  have "unat (of_nat t :: nanos) \<le> t" by (simp add: unat_of_nat take_bit_nat_less_eq_self)
  then show ?thesis
    using that(1) CheckStart tier_quota_ok [OF assms(1)]
    by (auto simp: storage_key_new_def limited_quota_def split: option.splits if_splits)
next
  case (CheckTimed key quota cost now)
  have "start_gc in_rt rt = Done (rt\<lparr>gc := map_option (\<lambda>g. g\<lparr>gc_started := gc_started g \<or> in_rt\<rparr>) (gc rt)\<rparr>)"
    using assms(1) by (intro start_gc_ok) (simp add: rate_tier_ok_def)
  moreover have "rate_tier_ok (rt\<lparr>gc := map_option (\<lambda>g. g\<lparr>gc_started := gc_started g \<or> in_rt\<rparr>) (gc rt)\<rparr>)"
    using assms(1) by (auto simp: rate_tier_ok_def)
  ultimately show ?thesis using that(2) CheckTimed by simp
next
  case (CheckReady key quota cost now)
  then have lq: "limited_quota quota" using assms(3) by simp
  obtain d m' where "memory_check_and_update m key quota cost now = Done (Ok d, m')"
    using lq by (cases rule: memory_check_cases [where m = m and key = key and now = now and cost = cost])
  then show ?thesis using that(3) CheckReady lq assms(2) by (cases d) auto
qed (use that(1) in simp_all)

lemma limiter_ok_init:
  assumes "rate_tier_ok rt" "storage rt = BuiltIn m" "\<forall>i. \<exists>user name cost. cs i = CheckStart user name cost"
  shows "limiter_ok (tiers rt) (limiter_init rt cs)"
proof -
  have "check_call_ok (tiers rt) 0 (cs i)" for i using assms(3) by (metis check_call_ok.simps(3))
  then show ?thesis using assms(1,2) by (simp add: limiter_ok_def limiter_init_def)
qed

lemma make_move_ok:
  assumes "limiter_ok ts s" "make_move custom_op in_runtime delay s mv = Some t"
  shows "limiter_ok ts t"
proof (cases mv)
  case (PassTime d)
  then show ?thesis using assms using check_call_ok_later [OF _ le_add1] by (auto simp: limiter_ok_def)
next
  case (AdvanceCheck i)
  obtain m where m: "storage (limiter s) = BuiltIn m" using assms(1) by (auto simp: limiter_ok_def)
  have rt: "rate_tier_ok (limiter s)" and c: "check_call_ok (tiers (limiter s)) (shown s) (checks s i)"
    using assms(1) by (auto simp: limiter_ok_def)
  from rt m c show ?thesis
  proof (cases rule: check_step_cases [where custom_op = custom_op and in_rt = "in_runtime i"])
    case (Decided key quota cost now d m')
    have "rate_tier_ok ((limiter s)\<lparr>storage := BuiltIn m'\<rparr>)" using rt by (auto simp: rate_tier_ok_def)
    then show ?thesis using assms AdvanceCheck Decided(4) by (auto simp: limiter_ok_def split: if_splits)
  qed (use assms AdvanceCheck c in \<open>auto simp: limiter_ok_def split: if_splits\<close>)
next
  case (CollectEntry e)
  then show ?thesis using assms by (auto simp: limiter_ok_def rate_tier_ok_def split: option.splits)
next
  case BeginPass
  have "unat (of_nat (shown s) :: nanos) \<le> shown s" by (simp add: unat_of_nat take_bit_nat_less_eq_self)
  then show ?thesis using assms BeginPass by (auto simp: limiter_ok_def split: option.splits if_splits)
qed (use assms in \<open>auto simp: limiter_ok_def\<close>)

text \<open>What the storage did for one key: the cost it allowed to readings in \<open>[a, b]\<close>, and the removals that count.\<close>

definition allowed_in :: "nat \<Rightarrow> nat \<Rightarrow> storage_key \<Rightarrow> (storage_key \<times> cell_request \<times> bool) list \<Rightarrow> nat" where
  "allowed_in a b key tr = admitted_between a b (requests_of key tr) (decisions_of key tr)"

lemma allowed_in_append: "allowed_in a b key (tr @ tr') = allowed_in a b key tr + allowed_in a b key tr'"
proof -
  have "length (requests_of key tr) = length (decisions_of key tr)" by (simp add: requests_of_def decisions_of_def)
  then show ?thesis
    using admitted_between_append [of "requests_of key tr" "decisions_of key tr" a b]
    by (simp add: allowed_in_def requests_of_def decisions_of_def)
qed

lemma allowed_in_single [simp]:
  "allowed_in a b key [(key', (c, t), d)] = (if key' = key \<and> d \<and> a \<le> t \<and> t \<le> b then c else 0)"
  by (simp add: allowed_in_def)

lemma allowed_in_Nil [simp]: "allowed_in a b key [] = 0"
  by (simp add: allowed_in_def)

lemma allowed_in_Cons: "allowed_in a b key (x # tr) = allowed_in a b key [x] + allowed_in a b key tr"
  using allowed_in_append [of a b key "[x]" tr] by simp

definition removals :: "nat \<Rightarrow> nat \<Rightarrow> storage_key \<Rightarrow> ((rstring \<times> rstring) \<times> nat) list \<Rightarrow> nat" where
  "removals lo hi key xs = length (filter (\<lambda>(e, p). e = entry_of key \<and> lo < p \<and> p \<le> hi) xs)"

lemma removals_Cons [simp]:
  "removals lo hi key ((e, p) # xs) =
     (if e = entry_of key \<and> lo < p \<and> p \<le> hi then Suc (removals lo hi key xs) else removals lo hi key xs)"
  by (simp add: removals_def)

definition stored_tat :: "('k, 'c) limiter_sys \<Rightarrow> storage_key \<Rightarrow> nat" where
  "stored_tat s key = (case storage (limiter s) of BuiltIn m \<Rightarrow> mem_tat m key | Custom c \<Rightarrow> 0)"

definition key_inv :: "nat \<Rightarrow> nat \<Rightarrow> nat \<Rightarrow> nat \<Rightarrow> nat \<Rightarrow> storage_key \<Rightarrow> ('k, 'c) limiter_sys \<Rightarrow> bool" where
  "key_inv E B a b delay key s \<longleftrightarrow>
     (\<forall>(e, p) \<in> set (collected s). p \<le> shown s \<and> (\<forall>now. pass s = Some now \<longrightarrow> p \<le> unat now)) \<and>
     (0 < allowed_in a b key (decided s) \<longrightarrow>
       a \<le> stored_tat s key \<or> (\<exists>p. (entry_of key, p) \<in> set (collected s) \<and> a < p)) \<and>
     potential E B a b delay (allowed_in a b key (decided s)) (removals a (b + delay) key (collected s))
       (stored_tat s key) (shown s)"

lemma key_inv_init: "key_inv E B a b delay key (limiter_init rt cs)"
  by (simp add: key_inv_def limiter_init_def allowed_in_def potential_init)

text \<open>A check that decides for another key leaves this one alone.\<close>

lemma other_key_tat:
  assumes "memory_check_and_update m key' q c now = Done (r, m')" "limited_quota q" "key' \<noteq> key"
  shows "mem_tat m' key = mem_tat m key"
  using assms(2)
  by (cases rule: memory_check_cases [where m = m and key = key' and now = now and cost = c])
    (use assms(1,3) in \<open>auto simp: mem_tat_def entry_of_inj\<close>)

lemma decided_step:
  assumes "key_inv E B a b delay key s" "storage (limiter s) = BuiltIn m"
    and "memory_check_and_update m key q c now = Done (Ok d, m')" "limited_quota q"
    and "unat now + bo_nat q < u64_max" "shown s \<le> unat now + delay" "E = ei_nat q" "B = bo_nat q"
  shows "key_inv E B a b delay key
    (s\<lparr>limiter := (limiter s)\<lparr>storage := BuiltIn m'\<rparr>, checks := cs,
       decided := decided s @ [(key, (unat c, unat now), allowed_check (Ok d))]\<rparr>)"
proof -
  have c: "unat c \<le> u32_max" by (rule unat_u32_bound)
  have step: "mem_step (\<lambda>_. q) m key (unat c) (unat now) = (allowed_check (Ok d), m')"
    using assms(3) by (cases d) (simp_all add: mem_step_def)
  have v: "mem_valid (\<lambda>_. q) key (unat c) (unat now)" using assms(4,5) c by (simp add: mem_valid_def)
  have T: "stored_tat s key = mem_tat m key" using assms(2) by (simp add: stored_tat_def)
  from v show ?thesis
  proof (cases rule: mem_step_cases [where m = m])
    case (Allowed m1)
    then have m1: "m1 = m'" "allowed_check (Ok d)" using step by auto
    have "potential E B a b delay (allowed_in a b key (decided s) + (if a \<le> unat now \<and> unat now \<le> b then unat c else 0))
        (removals a (b + delay) key (collected s)) (mem_tat m' key) (shown s)"
      using potential_request [OF _ assms(6), of E B a b] assms(1,7,8) Allowed(2,3) m1 T
      by (simp add: key_inv_def)
    moreover have "mem_tat m key \<le> mem_tat m' key" "unat now \<le> mem_tat m' key"
      using Allowed(3) m1 by (simp_all add: gcra_next_def)
    ultimately show ?thesis
      using assms(1) m1 T by (auto simp: key_inv_def allowed_in_append stored_tat_def)
  next
    case Denied
    then have "m' = m" "\<not> allowed_check (Ok d)" using step by auto
    then show ?thesis
      using assms(1) T by (auto simp: key_inv_def allowed_in_append stored_tat_def)
  qed
qed

lemma collect_step:
  assumes "key_inv E B a b delay key s" "storage (limiter s) = BuiltIn m" "pass s = Some now" "unat now \<le> shown s"
  shows "key_inv E B a b delay key
    (s\<lparr>limiter := (limiter s)\<lparr>storage := BuiltIn (retain_entry now e m)\<rparr>,
       collected := (if mem_state (retain_entry now e m) e = mem_state m e then collected s
                     else (e, unat now) # collected s)\<rparr>)"
proof (cases "mem_state (retain_entry now e m) e = mem_state m e")
  case True
  then have "mem_state (retain_entry now e m) = mem_state m" by (auto simp: retain_entry_lookup)
  then show ?thesis using assms(1,2) True by (simp add: key_inv_def stored_tat_def mem_tat_def)
next
  case False
  then obtain tat where tat: "mem_state m e = Some tat" "unat tat < unat now" "mem_state (retain_entry now e m) e = None"
    by (auto simp: retain_entry_def word_le_nat_alt split: option.splits if_splits)
  have coll: "\<forall>(e, p) \<in> set (collected s). p \<le> unat now" using assms(1,3) by (auto simp: key_inv_def)
  show ?thesis
  proof (cases "e = entry_of key")
    case True
    have T: "stored_tat s key = unat tat" using assms(2) tat(1) True by (simp add: stored_tat_def mem_tat_def tat_nat_def)
    have "0 < allowed_in a b key (decided s) \<longrightarrow> a < unat now"
      using assms(1) coll T tat(2) by (fastforce simp: key_inv_def)
    have "potential E B a b delay (allowed_in a b key (decided s)) (removals a (b + delay) key (collected s))
        (unat tat) (shown s)" using assms(1) T by (simp add: key_inv_def)
    from potential_forget [OF this tat(2) assms(4) \<open>0 < _ \<longrightarrow> _\<close>]
    have "potential E B a b delay (allowed_in a b key (decided s))
        (removals a (b + delay) key ((e, unat now) # collected s)) 0 (shown s)"
      using True by simp
    moreover have "0 < allowed_in a b key (decided s) \<longrightarrow> a < unat now" by fact
    ultimately show ?thesis
      using assms(1,3,4) False True tat(3) coll by (auto simp: key_inv_def stored_tat_def mem_tat_def)
  next
    case other: False
    then have "mem_state (retain_entry now e m) (entry_of key) = mem_state m (entry_of key)"
      by (simp add: retain_entry_lookup)
    then show ?thesis
      using assms False other coll by (auto simp: key_inv_def stored_tat_def mem_tat_def)
  qed
qed

text \<open>Every move keeps the invariant of a key, as long as the clock is one burst before the end of \<open>u64\<close>.\<close>

lemma make_move_key:
  assumes "limiter_ok ts s" "ts (key_tier key) = Some q" "key_inv (ei_nat q) (bo_nat q) a b delay key s"
    and "make_move custom_op in_runtime delay s mv = Some t" "shown t + bo_nat q < u64_max"
  shows "key_inv (ei_nat q) (bo_nat q) a b delay key t"
proof (cases mv)
  case (PassTime d)
  then have t: "t = s\<lparr>shown := shown s + d\<rparr>" using assms(4) by simp
  then show ?thesis
    using assms(3) potential_time [OF _ le_add1] by (fastforce simp: key_inv_def stored_tat_def)
next
  case (AdvanceCheck i)
  obtain m where m: "storage (limiter s) = BuiltIn m" using assms(1) by (auto simp: limiter_ok_def)
  have rt: "rate_tier_ok (limiter s)" and c: "check_call_ok (tiers (limiter s)) (shown s) (checks s i)"
    and ts: "tiers (limiter s) = ts" using assms(1) by (auto simp: limiter_ok_def)
  from rt m c show ?thesis
  proof (cases rule: check_step_cases [where custom_op = custom_op and in_rt = "in_runtime i"])
    case (Decided key' quota cost now d m')
    have t: "t = s\<lparr>limiter := (limiter s)\<lparr>storage := BuiltIn m'\<rparr>, checks := (checks s)(i := CheckDone (Ok d)),
        decided := decided s @ [(key', (unat cost, unat now), allowed_check (Ok d))]\<rparr>"
      and late: "shown s \<le> unat now + delay"
      using assms(4) AdvanceCheck Decided(1,4) by (auto split: if_splits)
    have now: "unat now \<le> shown s" and q': "ts (key_tier key') = Some quota" using c ts Decided(1) by auto
    show ?thesis
    proof (cases "key' = key")
      case True
      then have q: "quota = q" using q' assms(2) by simp
      have "unat now + bo_nat q < u64_max" using assms(5) now t by simp
      from decided_step [OF assms(3) m Decided(3,2) [unfolded True q] this late refl refl]
      show ?thesis unfolding t True .
    next
      case False
      have "mem_tat m' key = mem_tat m key" by (rule other_key_tat [OF Decided(3,2) False])
      then show ?thesis using assms(3) t m False by (simp add: key_inv_def stored_tat_def allowed_in_append)
    qed
  qed (use assms(3,4) AdvanceCheck in \<open>auto simp: key_inv_def stored_tat_def split: if_splits\<close>)
next
  case (CollectEntry e)
  obtain m now where m: "storage (limiter s) = BuiltIn m" "pass s = Some now"
    using CollectEntry assms(4) by (auto split: backend.splits option.splits)
  then have now: "unat now \<le> shown s" using assms(1) by (auto simp: limiter_ok_def)
  have "t = s\<lparr>limiter := (limiter s)\<lparr>storage := BuiltIn (retain_entry now e m)\<rparr>,
       collected := (if mem_state (retain_entry now e m) e = mem_state m e then collected s
                     else (e, unat now) # collected s)\<rparr>"
    using CollectEntry assms(4) m by simp
  then show ?thesis using collect_step [OF assms(3) m now] by metis
next
  case BeginPass
  then have t: "t = s\<lparr>pass := Some (of_nat (shown s))\<rparr>" using assms(4) by (auto split: option.splits if_splits)
  then have "unat (of_nat (shown s) :: nanos) = shown s" using assms(5) by (intro unat_of_nat_u64) simp
  then show ?thesis using assms(3) t by (auto simp: key_inv_def stored_tat_def)
qed (use assms(3,4) in \<open>auto simp: key_inv_def stored_tat_def\<close>)

lemma make_move_shown: "make_move custom_op in_runtime delay s mv = Some t \<Longrightarrow> shown s \<le> shown t"
  by (cases mv) (auto split: option.splits backend.splits exec.splits if_splits prod.splits)

lemma limiter_run_shown: "limiter_run custom_op in_runtime delay s mvs = Some t \<Longrightarrow> shown s \<le> shown t"
proof (induction mvs arbitrary: s)
  case (Cons mv mvs)
  then show ?case by (fastforce split: option.splits dest: make_move_shown)
qed simp

lemma limiter_run_inv:
  assumes "limiter_run custom_op in_runtime delay s mvs = Some t" "limiter_ok ts s" "ts (key_tier key) = Some q"
    and "key_inv (ei_nat q) (bo_nat q) a b delay key s" "shown t + bo_nat q < u64_max"
  shows "limiter_ok ts t \<and> key_inv (ei_nat q) (bo_nat q) a b delay key t"
  using assms(1,2,4)
proof (induction mvs arbitrary: s)
  case (Cons mv mvs)
  obtain u where u: "make_move custom_op in_runtime delay s mv = Some u"
    and run: "limiter_run custom_op in_runtime delay u mvs = Some t"
    using Cons.prems(1) by (auto split: option.splits)
  have "shown u + bo_nat q < u64_max" using limiter_run_shown [OF run] assms(5) by simp
  then show ?case
    using Cons.IH [OF run make_move_ok [OF Cons.prems(2) u]
        make_move_key [OF Cons.prems(2) assms(3) Cons.prems(3) u]] by simp
qed simp

section \<open>A limiter to run\<close>

definition collecting_limiter :: "(unit, unit) rate_tier" where
  "collecting_limiter =
     \<lparr>tiers = [lit ''free'' \<mapsto> three_per_minute], default_tier = None, on_missing = MissingUseDefault,
      on_unknown_tier = UnknownUseDefault, storage = BuiltIn memory_new, clock = SystemClock,
      gc = Some \<lparr>lazy_interval = from_secs 60, gc_started = True\<rparr>\<rparr>"

lemma collecting_limiter_ok: "rate_tier_ok collecting_limiter"
  using three_per_minute_ok by (auto simp: collecting_limiter_def rate_tier_ok_def is_zero_iff split: if_splits)

definition free_check :: "u32 \<Rightarrow> nat \<Rightarrow> check_call" where
  "free_check cost _ = CheckStart (lit ''u1'') (lit ''free'') cost"

text \<open>Check 0 reads the clock at 5 and check 1 at 10, but check 1 reaches the storage first.\<close>

definition overtaking_moves :: "limiter_move list" where
  "overtaking_moves = [PassTime 5, AdvanceCheck 0, PassTime 5, AdvanceCheck 1, AdvanceCheck 1, AdvanceCheck 1,
     CancelCheck 2, AdvanceCheck 0, AdvanceCheck 0]"

text \<open>Two checks for the whole burst read the clock at 0. One is stored; a minute later its entry has expired and
  a pass removes it; then the other is stored.\<close>

definition forgetting_moves :: "limiter_move list" where
  "forgetting_moves = [AdvanceCheck 0, AdvanceCheck 1, AdvanceCheck 0, AdvanceCheck 1, AdvanceCheck 1,
     PassTime 60000000001, BeginPass, CollectEntry (entry_of demo_key), AdvanceCheck 0]"

lemma three_burst: "max_burst three_per_minute = 3"
  by (simp add: three_per_minute_def)

lemmas limiter_eval =
  limiter_init_def collecting_limiter_def free_check_def start_gc_def ensure_started_def retain_entry_def
  three_not_unlimited three_burst demo_key_def allowed_in_Cons [of _ _ _ _ "x # tr" for x tr] memory_eval

lemma overtaking_run:
  "\<exists>s. limiter_run demo_custom (\<lambda>_. True) 10 (limiter_init collecting_limiter (free_check 1)) overtaking_moves = Some s \<and>
     shown s = 10 \<and> collected s = [] \<and> allowed_in 5 10 demo_key (decided s) = 2"
  by (simp add: overtaking_moves_def limiter_eval)

lemma forgetting_run:
  "\<exists>s. limiter_run demo_custom (\<lambda>_. True) 60000000001 (limiter_init collecting_limiter (free_check 3)) forgetting_moves = Some s \<and>
     shown s = 60000000001 \<and> allowed_in 0 0 demo_key (decided s) = 6"
  by (simp add: forgetting_moves_def limiter_eval)

section \<open>The guarantee\<close>

text \<open>C2: the rate guarantee of \<open>RateTier::check\<close> under concurrency. Any number of checks run at once on the
  built-in storage while time passes, the collector makes its passes entry by entry and checks are cancelled, in
  any interleaving in which a check reaches the storage at most \<open>delay\<close> after it read the clock. No step ever
  panics. For every user and tier and any span of time, the emission interval times the cost allowed to
  the checks that read the clock in that span, in whatever order they reached the storage, is at most the span plus
  one burst, plus one \<open>delay\<close> for each time the collector removed the key's entry in that span (a check that
  read the clock before the pass finds nothing of what was forgotten).\<close>

theorem concurrent_rate_guarantee:
  assumes "rate_tier_ok rt" "storage rt = BuiltIn m" "\<forall>i. \<exists>user name cost. cs i = CheckStart user name cost"
    and "limiter_run custom_op in_runtime delay (limiter_init rt cs) mvs = Some s"
    and "tiers rt (key_tier key) = Some q" "shown s + bo_nat q < u64_max"
  shows "ei_nat q * allowed_in a b key (decided s)
      \<le> (b - a) + bo_nat q + removals a (b + delay) key (collected s) * delay \<and>
    returns (check_step custom_op (\<lambda>_. of_nat (shown s)) (in_runtime i) (checks s i) (limiter s))"
proof
  have inv: "limiter_ok (tiers rt) s \<and> key_inv (ei_nat q) (bo_nat q) a b delay key s"
    using limiter_run_inv [OF assms(4) limiter_ok_init [OF assms(1-3)] assms(5) key_inv_init assms(6)] .
  then show "ei_nat q * allowed_in a b key (decided s)
      \<le> (b - a) + bo_nat q + removals a (b + delay) key (collected s) * delay"
    by (simp add: key_inv_def potential_def)
  obtain m' where "rate_tier_ok (limiter s)" "storage (limiter s) = BuiltIn m'"
    "check_call_ok (tiers (limiter s)) (shown s) (checks s i)"
    using inv by (auto simp: limiter_ok_def)
  then show "returns (check_step custom_op (\<lambda>_. of_nat (shown s)) (in_runtime i) (checks s i) (limiter s))"
    by (cases rule: check_step_cases [where custom_op = custom_op and in_rt = "in_runtime i"]) simp_all
qed

text \<open>The witness has one check overtake another; the second bound of it shows that the term for the removals is
  needed: without it twice the burst would not be allowed.\<close>

theorem concurrent_rate_guarantee_witness:
  "\<exists>s s'. limiter_run demo_custom (\<lambda>_. True) 10 (limiter_init collecting_limiter (free_check 1)) overtaking_moves = Some s \<and>
    20000000000 * allowed_in 5 10 demo_key (decided s) \<le> 5 + 60000000000 \<and>
    limiter_run demo_custom (\<lambda>_. True) 60000000001 (limiter_init collecting_limiter (free_check 3)) forgetting_moves = Some s' \<and>
    20000000000 * 6 \<le> 60000000000 + removals 0 60000000001 demo_key (collected s') * 60000000001"
proof -
  have starts: "\<forall>i. \<exists>user name c. free_check cost i = CheckStart user name c" for cost by (simp add: free_check_def)
  have st: "storage collecting_limiter = BuiltIn memory_new" and ts: "tiers collecting_limiter (key_tier demo_key) = Some three_per_minute"
    by (simp_all add: collecting_limiter_def demo_key_def storage_key_new_def)
  obtain s where s: "limiter_run demo_custom (\<lambda>_. True) 10 (limiter_init collecting_limiter (free_check 1)) overtaking_moves = Some s"
    "shown s = 10" "collected s = []" using overtaking_run by blast
  obtain s' where s': "limiter_run demo_custom (\<lambda>_. True) 60000000001 (limiter_init collecting_limiter (free_check 3)) forgetting_moves = Some s'"
    "shown s' = 60000000001" "allowed_in 0 0 demo_key (decided s') = 6" using forgetting_run by blast
  show ?thesis
    using concurrent_rate_guarantee [OF collecting_limiter_ok st starts s(1) ts, of 5 10]
      concurrent_rate_guarantee [OF collecting_limiter_ok st starts s'(1) ts, of 0 0] s s'
    by (simp add: three_per_minute_nat removals_def)
qed

end
