(* ===== verification/Service.thy ===== *)
theory Service
  imports Check
begin

text \<open>
  \<open>src/service.rs\<close>, the middleware service, with \<open>TierLimitLayer\<close>'s \<open>layer\<close> of \<open>src/layer.rs\<close> and the cost
  layer of \<open>src/cost.rs\<close>. The inner service is a parameter: a function of the request and the world that
  returns a response or its own error.

  \<open>service_call\<close> follows the source line by line. \<open>gate\<close> is what it promises: a decision, taken
  before and independently of the inner service, to forward the request once and unchanged or to
  answer it; \<open>service_call_gate\<close> shows that the code implements it. The properties are then about the gate.
\<close>

section \<open>The environment and the service\<close>

text \<open>What the service uses besides its own state: the \<open>http\<close> crate, the conversion of a text into the
  response body type, the custom storage's operation, the clocks and whether a Tokio runtime is
  there.\<close>

record ('h, 'b, 'w, 'k, 'c) env =
  env_http :: "'h http_lib"
  env_from :: "rstring \<Rightarrow> 'b"
  env_custom :: "'c storage_op"
  env_clock :: "'w \<Rightarrow> 'k clock_ref \<Rightarrow> nanos"
  env_system_time :: "'w \<Rightarrow> system_time"
  env_runtime :: bool

type_synonym ('h, 'x, 'i, 'b, 'e, 'w) inner =
  "('h, 'x, 'i) request \<Rightarrow> 'w \<Rightarrow> (('h, 'b) response, 'e) result \<times> 'w"

type_synonym ('h, 'b, 'e, 'w, 'k, 'c) call_result =
  "((('h, 'b) response, 'e) result \<times> ('k, 'c) rate_tier \<times> 'w) exec"

record ('h, 'x, 'i, 'b, 'e, 'w, 'k, 'c) tier_limit_service =
  svc_inner :: "('h, 'x, 'i, 'b, 'e, 'w) inner"
  svc_rate_tier :: "('k, 'c) rate_tier"
  svc_settings :: "('h, 'x, 'w) settings"

definition layer_service ::
  "('h, 'x, 'w, 'k, 'c) tier_limit_layer \<Rightarrow> ('h, 'x, 'i, 'b, 'e, 'w) inner
    \<Rightarrow> ('h, 'x, 'i, 'b, 'e, 'w, 'k, 'c) tier_limit_service" where
  "layer_service l inner = \<lparr>svc_inner = inner, svc_rate_tier = rate_tier l, svc_settings = settings l\<rparr>"

text \<open>\<open>TierCostService\<close>: the cost layer sets the extension and forwards.\<close>

definition tier_cost_call ::
  "u32 \<Rightarrow> (('h, 'x, 'i) request \<Rightarrow> 'a) \<Rightarrow> ('h, 'x, 'i) request \<Rightarrow> 'a" where
  "tier_cost_call cost inner req =
     inner (req\<lparr>req_parts := (req_parts req)\<lparr>tier_cost_ext := Some cost\<rparr>\<rparr>)"

section \<open>The call\<close>

text \<open>The last step of a call that goes on to the inner service without headers.\<close>

definition forward ::
  "('h, 'x, 'i, 'b, 'e, 'w) inner \<Rightarrow> ('h, 'x, 'i) request \<Rightarrow> ('k, 'c) rate_tier \<Rightarrow> 'w
    \<Rightarrow> ('h, 'b, 'e, 'w, 'k, 'c) call_result" where
  "forward inner req rt w = (case inner req w of (r, w') \<Rightarrow> Done (r, rt, w'))"

definition forward_with_headers ::
  "'h http_lib \<Rightarrow> ('h, 'x, 'i, 'b, 'e, 'w) inner \<Rightarrow> ('h, 'x, 'i) request \<Rightarrow> rate_limit_info \<Rightarrow> system_time
    \<Rightarrow> ('k, 'c) rate_tier \<Rightarrow> 'w \<Rightarrow> ('h, 'b, 'e, 'w, 'k, 'c) call_result" where
  "forward_with_headers L inner req info checked_at rt w =
     (case inner req w of
        (Ok resp, w') \<Rightarrow> Done (Ok (inject_headers L resp info checked_at), rt, w')
      | (Err e, w') \<Rightarrow> Done (Err e, rt, w'))"

definition service_call ::
  "('h, 'b, 'w, 'k, 'c) env \<Rightarrow> ('h, 'x, 'i, 'b, 'e, 'w, 'k, 'c) tier_limit_service \<Rightarrow> ('h, 'x, 'i) request
    \<Rightarrow> 'w \<Rightarrow> ('h, 'b, 'e, 'w, 'k, 'c) call_result" where
  "service_call env svc req w =
     (let rt = svc_rate_tier svc; st = svc_settings svc; inner = svc_inner svc; L = env_http env;
          answer = (\<lambda>resp rt' w'. Done (Ok (map_response (env_from env) resp), rt', w'));
          (ident, w1) = identify (id_source st) (req_headers (req_parts req)) w
      in case resolve_identity L ident rt of
           Err PassThrough \<Rightarrow> forward inner req rt w1
         | Err (Deny resp) \<Rightarrow> answer resp rt w1
         | Err (Allow _) \<Rightarrow> Panic ''internal error: entered unreachable code''
         | Ok (user, tier_name) \<Rightarrow>
             (case resolve_quota L rt user tier_name st w1 of
                (Err PassThrough, w2) \<Rightarrow> forward inner req rt w2
              | (Err (Deny resp), w2) \<Rightarrow> answer resp rt w2
              | (Err (Allow _), w2) \<Rightarrow> Panic ''internal error: entered unreachable code''
              | (Ok (tier_name', quota), w2) \<Rightarrow>
                  (let (cost, w3) = request_cost (req_parts req) st w2 in
                   case reject_cost_over_limit L cost quota user tier_name' st w3 of
                     (Some resp, w4) \<Rightarrow> answer resp rt w4
                   | (None, w4) \<Rightarrow>
                       let now = env_clock env w4 (clock rt); key = storage_key_new user tier_name' in
                       bind_exec (use_storage (env_custom env) (env_runtime env) rt key quota cost now)
                         (\<lambda>(result, rt1).
                          let checked_at = env_system_time env w4 in
                          case process_result L result user tier_name' st checked_at w4 of
                            (Allow info, w5) \<Rightarrow> forward_with_headers L inner req info checked_at rt1 w5
                          | (Deny resp, w5) \<Rightarrow> answer resp rt1 w5
                          | (PassThrough, w5) \<Rightarrow> forward inner req rt1 w5))))"

section \<open>The gate\<close>

text \<open>The promise: forward once, with headers to inject or without, or answer.\<close>

datatype 'h verdict = Forward "(rate_limit_info \<times> system_time) option" | Answer "('h, rstring) response"

fun verdict_of :: "'h check_outcome \<Rightarrow> system_time \<Rightarrow> 'h verdict" where
  "verdict_of (Allow info) t = Forward (Some (info, t))"
| "verdict_of PassThrough t = Forward None"
| "verdict_of (Deny resp) t = Answer resp"

definition limit_request ::
  "('h, 'b, 'w, 'k, 'c) env \<Rightarrow> ('k, 'c) rate_tier \<Rightarrow> ('h, 'x, 'w) settings \<Rightarrow> rstring \<Rightarrow> rstring \<Rightarrow> quota
    \<Rightarrow> ('h, 'x) parts \<Rightarrow> 'w \<Rightarrow> ('h verdict \<times> ('k, 'c) rate_tier \<times> 'w) exec" where
  "limit_request env rt st user name quota ps w =
     (case request_cost ps st w of (cost, w3) \<Rightarrow>
      case reject_cost_over_limit (env_http env) cost quota user name st w3 of
        (Some resp, w4) \<Rightarrow> Done (Answer resp, rt, w4)
      | (None, w4) \<Rightarrow>
          map_exec (\<lambda>(result, rt1).
              case process_result (env_http env) result user name st (env_system_time env w4) w4 of
                (oc, w5) \<Rightarrow> (verdict_of oc (env_system_time env w4), rt1, w5))
            (use_storage (env_custom env) (env_runtime env) rt (storage_key_new user name) quota cost
              (env_clock env w4 (clock rt))))"

definition gate ::
  "('h, 'b, 'w, 'k, 'c) env \<Rightarrow> ('k, 'c) rate_tier \<Rightarrow> ('h, 'x, 'w) settings \<Rightarrow> tier_identity option
    \<Rightarrow> ('h, 'x) parts \<Rightarrow> 'w \<Rightarrow> ('h verdict \<times> ('k, 'c) rate_tier \<times> 'w) exec" where
  "gate env rt st ident ps w =
     (case resolve_identity (env_http env) ident rt of
        Err oc \<Rightarrow> Done (verdict_of oc 0, rt, w)
      | Ok (user, name) \<Rightarrow>
          (case resolve_quota (env_http env) rt user name st w of
             (Err oc, w2) \<Rightarrow> Done (verdict_of oc 0, rt, w2)
           | (Ok (name', quota), w2) \<Rightarrow> limit_request env rt st user name' quota ps w2))"

definition carry_out ::
  "('h, 'b, 'w, 'k, 'c) env \<Rightarrow> ('h, 'x, 'i, 'b, 'e, 'w) inner \<Rightarrow> ('h, 'x, 'i) request
    \<Rightarrow> 'h verdict \<times> ('k, 'c) rate_tier \<times> 'w \<Rightarrow> ('h, 'b, 'e, 'w, 'k, 'c) call_result" where
  "carry_out env inner req v =
     (case v of
        (Forward None, rt, w) \<Rightarrow> forward inner req rt w
      | (Forward (Some (info, t)), rt, w) \<Rightarrow> forward_with_headers (env_http env) inner req info t rt w
      | (Answer resp, rt, w) \<Rightarrow> Done (Ok (map_response (env_from env) resp), rt, w))"

lemma resolve_identity_cases:
  obtains (Id) u n where "resolve_identity L ident rt = Ok (u, n)"
  | (Pass) "resolve_identity L ident rt = Err PassThrough"
  | (Refuse) resp where "resolve_identity L ident rt = Err (Deny resp)"
  using resolve_identity_not_Allow [of L ident rt]
  by (metis check_outcome.exhaust result.exhaust surj_pair)

lemma resolve_quota_cases:
  obtains (Quota) n q w' where "resolve_quota L rt user name st w = (Ok (n, q), w')"
  | (Pass) w' where "resolve_quota L rt user name st w = (Err PassThrough, w')"
  | (Refuse) resp w' where "resolve_quota L rt user name st w = (Err (Deny resp), w')"
  using resolve_quota_not_Allow [of L rt user name st w]
  by (metis check_outcome.exhaust result.exhaust surj_pair fst_conv)

lemma carry_out_simps [simp]:
  "carry_out env inner req (Forward None, rt, w) = forward inner req rt w"
  "carry_out env inner req (Forward (Some (info, t)), rt, w) =
     forward_with_headers (env_http env) inner req info t rt w"
  "carry_out env inner req (Answer resp, rt, w) = Done (Ok (map_response (env_from env) resp), rt, w)"
  by (simp_all add: carry_out_def)

text \<open>From a resolved quota on, the service limits and carries out.\<close>

lemma service_call_limits:
  fixes env :: "('h, 'b, 'w, 'k, 'c) env" and rt :: "('k, 'c) rate_tier"
  shows "(let (cost, w3) = request_cost (req_parts req) st wq in
     case reject_cost_over_limit (env_http env) cost quota user name st w3 of
       (Some resp, w4) \<Rightarrow> Done (Ok (map_response (env_from env) resp), rt, w4)
     | (None, w4) \<Rightarrow>
         let now = env_clock env w4 (clock rt); key = storage_key_new user name in
         bind_exec (use_storage (env_custom env) (env_runtime env) rt key quota cost now)
           (\<lambda>(result, rt1).
            let checked_at = env_system_time env w4 in
            case process_result (env_http env) result user name st checked_at w4 of
              (Allow info, w5) \<Rightarrow> forward_with_headers (env_http env) inner req info checked_at rt1 w5
            | (Deny resp, w5) \<Rightarrow> Done (Ok (map_response (env_from env) resp), rt1, w5)
            | (PassThrough, w5) \<Rightarrow> forward inner req rt1 w5))
   = bind_exec (limit_request env rt st user name quota (req_parts req) wq) (carry_out env inner req)"
proof -
  obtain cost w3 where c: "request_cost (req_parts req) st wq = (cost, w3)" by fastforce
  obtain rej w4 where r: "reject_cost_over_limit (env_http env) cost quota user name st w3 = (rej, w4)" by fastforce
  show ?thesis
  proof (cases rej)
    case (Some resp)
    then show ?thesis by (simp add: c r limit_request_def)
  next
    case None
    let ?s = "use_storage (env_custom env) (env_runtime env) rt (storage_key_new user name) quota cost
      (env_clock env w4 (clock rt))"
    show ?thesis
    proof (cases ?s)
      case (Done x)
      obtain result rt1 where x: "x = (result, rt1)" by fastforce
      obtain oc w5 where p: "process_result (env_http env) result user name st (env_system_time env w4) w4 = (oc, w5)"
        by fastforce
      show ?thesis using None Done x p by (cases oc) (simp_all add: c r limit_request_def Let_def)
    qed (use None in \<open>simp add: c r limit_request_def Let_def\<close>)
  qed
qed

lemma service_call_gate:
  "service_call env svc req w =
     (case identify (id_source (svc_settings svc)) (req_headers (req_parts req)) w of (ident, w1) \<Rightarrow>
      bind_exec (gate env (svc_rate_tier svc) (svc_settings svc) ident (req_parts req) w1)
        (carry_out env (svc_inner svc) req))"
proof -
  let ?rt = "svc_rate_tier svc" and ?st = "svc_settings svc" and ?L = "env_http env"
  obtain ident w1 where i: "identify (id_source ?st) (req_headers (req_parts req)) w = (ident, w1)" by fastforce
  show ?thesis
  proof (cases rule: resolve_identity_cases [where L = ?L and ident = ident and rt = ?rt])
    case (Id u n)
    show ?thesis
    proof (cases rule: resolve_quota_cases [where L = ?L and rt = ?rt and user = u and name = n
          and st = ?st and w = w1])
      case (Quota n' q w')
      then show ?thesis
        using Id service_call_limits [where req = req and st = ?st and wq = w' and env = env and quota = q
            and user = u and name = n' and rt = ?rt and inner = "svc_inner svc"]
        by (simp add: service_call_def gate_def i Let_def)
    qed (use Id in \<open>simp_all add: service_call_def gate_def i Let_def\<close>)
  qed (simp_all add: service_call_def gate_def i Let_def)
qed

section \<open>What lets a request through\<close>

text \<open>The tier a request asks for: the identified one, or the default for an unidentified request.
  The tier whose quota applies: that one, or the default when it is not configured.\<close>

definition claimed_tier :: "('k, 'c) rate_tier \<Rightarrow> tier_identity option \<Rightarrow> (rstring \<times> rstring) option" where
  "claimed_tier rt ident =
     (case ident of
        Some i \<Rightarrow> Some (user_id i, tier i)
      | None \<Rightarrow> if on_missing rt = MissingUseDefault
                then map_option (\<lambda>d. (lit ''__anonymous__'', d)) (default_tier rt) else None)"

definition effective_tier :: "('k, 'c) rate_tier \<Rightarrow> rstring \<Rightarrow> rstring option" where
  "effective_tier rt name =
     (if tiers rt name \<noteq> None then Some name
      else if on_unknown_tier rt = UnknownUseDefault then default_tier rt else None)"

lemma resolve_identity_claimed:
  "resolve_identity L ident rt = Ok (u, n) \<longleftrightarrow> claimed_tier rt ident = Some (u, n)"
  by (auto simp: resolve_identity_def claimed_tier_def split: option.split on_missing.split)

lemma resolve_quota_effective:
  assumes "resolve_quota L rt user name st w = (Ok (name', q), w')"
  shows "effective_tier rt name = Some name'" "tiers rt name' = Some q" "\<not> is_unlimited q"
  using assms
  by (auto simp: resolve_quota_def effective_tier_def get_quota_def Let_def Option.bind_eq_Some_conv
      split: option.splits on_unknown_tier.splits if_splits)

text \<open>A verdict on a limited request comes from the storage or from the cost rule.\<close>

lemma limit_request_cases:
  assumes "limit_request env rt st user name q ps w = Done (v, rt', w')"
  obtains (TooCostly) cost w3 where "request_cost ps st w = (cost, w3)" "max_burst q < cost" "rt' = rt"
      "v = Answer (cost_exceeds_limit_response (env_http env) name cost (max_burst q))"
      "w' = notify (on_event st) (EventCostExceedsLimit user name cost (max_burst q)) w3"
  | (Checked) cost w3 result oc where "request_cost ps st w = (cost, w3)" "cost \<le> max_burst q"
      "use_storage (env_custom env) (env_runtime env) rt (storage_key_new user name) q cost
         (env_clock env w3 (clock rt)) = Done (result, rt')"
      "process_result (env_http env) result user name st (env_system_time env w3) w3 = (oc, w')"
      "v = verdict_of oc (env_system_time env w3)"
proof -
  obtain cost w3 where c: "request_cost ps st w = (cost, w3)" by fastforce
  show thesis
  proof (cases "cost \<le> max_burst q")
    case True
    then obtain result rt1 where use: "use_storage (env_custom env) (env_runtime env) rt
        (storage_key_new user name) q cost (env_clock env w3 (clock rt)) = Done (result, rt1)"
      using assms by (auto simp: limit_request_def c reject_cost_over_limit_def Let_def map_exec_Done_iff)
    obtain oc w5 where "process_result (env_http env) result user name st (env_system_time env w3) w3 = (oc, w5)"
      by fastforce
    then show ?thesis
      using that(2) [OF c True] use assms True
      by (simp add: limit_request_def c reject_cost_over_limit_def Let_def)
  next
    case False
    then show ?thesis
      using assms that(1) c by (auto simp: limit_request_def reject_cost_over_limit_def Let_def)
  qed
qed

lemma process_result_verdict:
  assumes "process_result L result user name st t w = (oc, w')" "verdict_of oc t = Forward hdrs"
  shows "(\<exists>info. result = Ok (Ok info) \<and> hdrs = Some (info, t) \<and> w' = w) \<or>
    (\<exists>e. result = Err e \<and> on_storage_error st = StorageErrorAllow \<and> hdrs = None)"
  using assms
  by (auto simp: process_result_def Let_def split: result.splits on_storage_error.splits prod.splits option.splits)

text \<open>Inversion of a gate that forwards.\<close>

lemma gate_forward_cases:
  assumes "gate env rt st ident ps w = Done (Forward hdrs, rt', w')"
  obtains (Unidentified) "ident = None" "on_missing rt = MissingAllow" "hdrs = None" "rt' = rt"
  | (Unknown) user name where "claimed_tier rt ident = Some (user, name)" "tiers rt name = None"
      "on_unknown_tier rt = UnknownAllow" "hdrs = None" "rt' = rt"
  | (Unlimited) user name name' q where "claimed_tier rt ident = Some (user, name)"
      "effective_tier rt name = Some name'" "tiers rt name' = Some q" "is_unlimited q" "hdrs = None" "rt' = rt"
  | (Limited) user name name' q w2 where "claimed_tier rt ident = Some (user, name)"
      "effective_tier rt name = Some name'" "tiers rt name' = Some q" "\<not> is_unlimited q"
      "limit_request env rt st user name' q ps w2 = Done (Forward hdrs, rt', w')"
proof (cases rule: resolve_identity_cases [where L = "env_http env" and ident = ident and rt = rt])
  case (Id u n)
  have claimed: "claimed_tier rt ident = Some (u, n)" using Id by (simp add: resolve_identity_claimed)
  show ?thesis
  proof (cases rule: resolve_quota_cases [where L = "env_http env" and rt = rt and user = u and name = n
        and st = st and w = w])
    case (Quota n' q w2)
    then show ?thesis
      using that(4) [OF claimed resolve_quota_effective [OF Quota]] assms Id by (simp add: gate_def)
  next
    case (Pass w2)
    have pass: "fst (resolve_quota (env_http env) rt u n st w) = Err PassThrough" using Pass by simp
    have res: "hdrs = None" "rt' = rt" using assms Id Pass by (simp_all add: gate_def)
    show ?thesis
    proof (cases "tiers rt n")
      case (Some q)
      then show ?thesis
        using pass res by (intro that(3) [OF claimed, of n q]) (simp_all add: resolve_quota_PassThrough effective_tier_def)
    next
      case None
      show ?thesis
      proof (cases "on_unknown_tier rt = UnknownAllow")
        case True
        then show ?thesis using res None by (intro that(2) [OF claimed])
      next
        case False
        then obtain d q where "on_unknown_tier rt = UnknownUseDefault" "default_tier rt = Some d"
          "tiers rt d = Some q" "is_unlimited q"
          using pass None by (auto simp: resolve_quota_PassThrough)
        then show ?thesis
          using res None by (intro that(3) [OF claimed, of d q]) (simp_all add: effective_tier_def)
      qed
    qed
  next
    case (Refuse resp w2)
    then show ?thesis using assms Id by (simp add: gate_def)
  qed
next
  case Pass
  have "hdrs = None" "rt' = rt" using assms Pass by (simp_all add: gate_def)
  then show ?thesis using Pass that(1) unfolding resolve_identity_PassThrough by blast
next
  case (Refuse resp)
  then show ?thesis using assms by (simp add: gate_def)
qed

section \<open>Totality and agreement with the programmatic check\<close>

lemma limit_request_built_in:
  assumes "rate_tier_ok rt" "storage rt = BuiltIn m" "tiers rt name = Some q" "\<not> is_unlimited q"
  shows "\<exists>v rt' w'. limit_request env rt st user name q ps w = Done (v, rt', w') \<and> rate_tier_ok rt' \<and>
    tiers rt' = tiers rt \<and> (\<exists>m'. storage rt' = BuiltIn m')"
proof -
  obtain cost w3 where c: "request_cost ps st w = (cost, w3)" by fastforce
  have lq: "limited_quota q" using tier_quota_ok [OF assms(1,3)] assms(4) by (simp add: limited_quota_def)
  obtain d m' where mem: "memory_check_and_update m (storage_key_new user name) q cost
      (env_clock env w3 (clock rt)) = Done (Ok d, m')"
    using lq by (cases rule: memory_check_cases [where m = m and key = "storage_key_new user name"
          and now = "env_clock env w3 (clock rt)" and cost = cost])
  obtain oc w5 where p: "process_result (env_http env) (Ok d) user name st (env_system_time env w3) w3 = (oc, w5)"
    by fastforce
  show ?thesis
    using assms mem p rate_tier_ok_after_use [OF assms(1)]
    by (cases "cost \<le> max_burst q")
      (simp_all add: limit_request_def c reject_cost_over_limit_def use_storage_ok Let_def)
qed

lemma gate_built_in:
  assumes "rate_tier_ok rt" "storage rt = BuiltIn m"
  shows "\<exists>v rt' w'. gate env rt st ident ps w = Done (v, rt', w') \<and> rate_tier_ok rt' \<and>
    tiers rt' = tiers rt \<and> (\<exists>m'. storage rt' = BuiltIn m')"
proof (cases rule: resolve_identity_cases [where L = "env_http env" and ident = ident and rt = rt])
  case (Id u n)
  show ?thesis
  proof (cases rule: resolve_quota_cases [where L = "env_http env" and rt = rt and user = u and name = n
        and st = st and w = w])
    case (Quota n' q w2)
    then show ?thesis
      using Id limit_request_built_in [OF assms resolve_quota_effective(2,3) [OF Quota]]
      by (simp add: gate_def)
  qed (use assms Id in \<open>simp_all add: gate_def\<close>)
qed (use assms in \<open>simp_all add: gate_def\<close>)

section \<open>Properties\<close>

text \<open>A concrete middleware for the witnesses: the demo limiter, a header that names the user, an inner
  service that counts its calls in the world.\<close>

definition demo_env :: "((rstring \<times> rstring) list, rstring, nat, unit, unit) env" where
  "demo_env = \<lparr>env_http = list_http, env_from = (\<lambda>s. s), env_custom = demo_custom,
     env_clock = (\<lambda>_ _. 5), env_system_time = (\<lambda>_. 0), env_runtime = False\<rparr>"

definition demo_settings :: "((rstring \<times> rstring) list, unit, nat) settings" where
  "demo_settings = \<lparr>id_source = closure_identifier (\<lambda>h w. (map_option (\<lambda>u. \<lparr>user_id = u, tier = lit ''free''\<rparr>)
       (map_of h (lit ''x-user'')), w)),
     on_storage_error = StorageErrorDeny, on_limited = None, limited_response = None, on_event = None,
     cost_fn = None\<rparr>"

definition demo_parts :: "u32 option \<Rightarrow> ((rstring \<times> rstring) list, unit) parts" where
  "demo_parts c = \<lparr>req_headers = [(lit ''x-user'', lit ''u1'')], tier_cost_ext = c, req_rest = ()\<rparr>"

definition demo_identity :: tier_identity where
  "demo_identity = tier_identity_new (lit ''u1'') (lit ''free'')"

definition demo_strict :: "(unit, unit) rate_tier" where
  "demo_strict = demo_rate_tier\<lparr>tiers := [lit ''free'' \<mapsto> three_per_minute]\<rparr>"

lemma demo_strict_simps [simp]:
  "tiers demo_strict = [lit ''free'' \<mapsto> three_per_minute]" "storage demo_strict = BuiltIn memory_new"
  "on_missing demo_strict = MissingUseDefault" "on_unknown_tier demo_strict = UnknownUseDefault"
  "default_tier demo_strict = Some (lit ''free'')"
  by (simp_all add: demo_strict_def demo_rate_tier_def)

lemma demo_env_simps [simp]:
  "env_custom demo_env = demo_custom" "env_runtime demo_env = False" "env_clock demo_env w c = 5"
  "env_system_time demo_env w = 0"
  "on_storage_error demo_settings = StorageErrorDeny" "cost_fn demo_settings = None"
  by (simp_all add: demo_env_def demo_settings_def)

lemma demo_strict_ok: "rate_tier_ok demo_strict"
  using demo_rate_tier_ok by (auto simp: demo_strict_def rate_tier_ok_def demo_rate_tier_def
      three_per_minute_ok)

text \<open>C6: the service implements the gate. Whatever the inner service is, the call identifies the
  request, decides, and then either passes the unchanged request to the inner service exactly once
  and as the last thing it does (returning its result, with the rate limit headers when the storage
  allowed the request), or answers without calling it. In particular the inner service has no
  influence on the decision and a rejected request never reaches it.\<close>

theorem service_implements_gate:
  "service_call env svc req w =
     (case identify (id_source (svc_settings svc)) (req_headers (req_parts req)) w of (ident, w1) \<Rightarrow>
      bind_exec (gate env (svc_rate_tier svc) (svc_settings svc) ident (req_parts req) w1)
        (\<lambda>v. case v of
           (Forward None, rt, w2) \<Rightarrow>
             (case svc_inner svc req w2 of (r, w3) \<Rightarrow> Done (r, rt, w3))
         | (Forward (Some (info, t)), rt, w2) \<Rightarrow>
             (case svc_inner svc req w2 of
                (Ok resp, w3) \<Rightarrow> Done (Ok (inject_headers (env_http env) resp info t), rt, w3)
              | (Err e, w3) \<Rightarrow> Done (Err e, rt, w3))
         | (Answer resp, rt, w2) \<Rightarrow> Done (Ok (map_response (env_from env) resp), rt, w2)))"
  unfolding service_call_gate carry_out_def forward_def forward_with_headers_def by (rule refl)

text \<open>C7: no silent bypass. A request is forwarded only if the storage allowed it (under the user and the
  tier whose quota applies, at the request's cost, which is within the tier's burst), or one of four
  things was configured: \<open>OnMissing::Allow\<close> for a request without identity, \<open>OnUnknownTier::Allow\<close> for
  a tier that is not configured, an unlimited quota for the tier that applies, or
  \<open>OnStorageError::Allow\<close> when the storage failed.\<close>

theorem forwarded_only_when_permitted:
  assumes "gate env rt st ident ps w = Done (Forward hdrs, rt', w')"
  shows "(\<exists>user name name' q info cost now. hdrs \<noteq> None \<and> fst (the hdrs) = info \<and>
      claimed_tier rt ident = Some (user, name) \<and> effective_tier rt name = Some name' \<and>
      tiers rt name' = Some q \<and> cost \<le> max_burst q \<and>
      use_storage (env_custom env) (env_runtime env) rt (storage_key_new user name') q cost now
        = Done (Ok (Ok info), rt')) \<or>
    (ident = None \<and> on_missing rt = MissingAllow) \<or>
    (\<exists>user name. claimed_tier rt ident = Some (user, name) \<and> tiers rt name = None \<and>
      on_unknown_tier rt = UnknownAllow) \<or>
    (\<exists>user name name' q. claimed_tier rt ident = Some (user, name) \<and>
      effective_tier rt name = Some name' \<and> tiers rt name' = Some q \<and> is_unlimited q) \<or>
    (on_storage_error st = StorageErrorAllow \<and>
      (\<exists>key q cost now e. use_storage (env_custom env) (env_runtime env) rt key q cost now = Done (Err e, rt')))"
proof (cases rule: gate_forward_cases [OF assms])
  case (4 user name name' q w2)
  from 4(5) show ?thesis
  proof (cases rule: limit_request_cases)
    case (Checked cost w3 result oc)
    then show ?thesis
      using process_result_verdict [OF Checked(4), of hdrs] 4 by fastforce
  qed simp
qed blast+

text \<open>A deny-by-default configuration has no hole. With no \<open>Allow\<close> policy and no unlimited tier, a
  request is forwarded only if the storage allowed it.\<close>

theorem fail_closed_configuration:
  assumes "on_missing rt \<noteq> MissingAllow" "on_unknown_tier rt \<noteq> UnknownAllow"
    and "on_storage_error st = StorageErrorDeny" "\<forall>name q. tiers rt name = Some q \<longrightarrow> \<not> is_unlimited q"
    and "gate env rt st ident ps w = Done (Forward hdrs, rt', w')"
  shows "\<exists>user name q cost now info. tiers rt name = Some q \<and>
    use_storage (env_custom env) (env_runtime env) rt (storage_key_new user name) q cost now
      = Done (Ok (Ok info), rt')"
proof (cases rule: gate_forward_cases [OF assms(5)])
  case (4 user name name' q w2)
  from 4(5) show ?thesis
  proof (cases rule: limit_request_cases)
    case (Checked cost w3 result oc)
    then show ?thesis
      using process_result_verdict [OF Checked(4), of hdrs] 4 assms(3) by fastforce
  qed simp
qed (use assms(1,2,4) in auto)

text \<open>Evaluation of the demo middleware: its first request is allowed.\<close>

lemma demo_use:
  "\<exists>info rt'. use_storage demo_custom False demo_strict (storage_key_new (lit ''u1'') (lit ''free''))
     three_per_minute 1 5 = Done (Ok (Ok info), rt')"
proof -
  have "\<exists>info m'. memory_check_and_update memory_new demo_key three_per_minute 1 5 = Done (Ok (Ok info), m')"
    by (simp add: memory_eval)
  then show ?thesis by (auto simp: use_storage_ok [OF demo_strict_ok] demo_key_def)
qed

lemma demo_gate:
  "\<exists>info rt'. gate demo_env demo_strict demo_settings (Some demo_identity) (demo_parts None) w
     = Done (Forward (Some (info, 0)), rt', w)"
proof -
  have "1 \<le> max_burst three_per_minute" by (simp add: three_per_minute_def)
  then show ?thesis
    using demo_use three_not_unlimited
    by (auto simp: gate_def resolve_identity_def demo_identity_def tier_identity_new_def resolve_quota_def
        get_quota_def limit_request_def request_cost_def demo_parts_def reject_cost_over_limit_def
        process_result_def)
qed

theorem forwarded_only_when_permitted_witness:
  "\<exists>info rt'. gate demo_env demo_strict demo_settings (Some demo_identity) (demo_parts None) 0
      = Done (Forward (Some (info, 0)), rt', 0) \<and>
    (\<exists>user name' cost now. use_storage demo_custom False demo_strict (storage_key_new user name')
      three_per_minute cost now = Done (Ok (Ok info), rt'))"
proof -
  obtain info rt' where g: "gate demo_env demo_strict demo_settings (Some demo_identity) (demo_parts None) 0
      = Done (Forward (Some (info, 0)), rt', 0)"
    using demo_gate by blast
  have "effective_tier demo_strict n = Some (lit ''free'')" for n by (simp add: effective_tier_def)
  then show ?thesis
    using g forwarded_only_when_permitted [OF g] three_not_unlimited by (auto split: if_splits)
qed

theorem fail_closed_configuration_witness:
  "\<exists>hdrs rt' w' user name q cost now info.
    gate demo_env demo_strict demo_settings (Some demo_identity) (demo_parts None) 0 = Done (Forward hdrs, rt', w') \<and>
    use_storage demo_custom False demo_strict (storage_key_new user name) q cost now = Done (Ok (Ok info), rt')"
proof -
  obtain info rt' where g: "gate demo_env demo_strict demo_settings (Some demo_identity) (demo_parts None) 0
      = Done (Forward (Some (info, 0)), rt', 0)"
    using demo_gate by blast
  have "\<forall>name q. tiers demo_strict name = Some q \<longrightarrow> \<not> is_unlimited q"
    using three_not_unlimited by simp
  then obtain user name q cost now info' where
    "use_storage demo_custom False demo_strict (storage_key_new user name) q cost now = Done (Ok (Ok info'), rt')"
    using fail_closed_configuration [OF _ _ _ _ g] by fastforce
  then show ?thesis using g by blast
qed

text \<open>C31: with the built-in storage the middleware always answers. For every limiter \<open>build\<close> returned,
  every request, settings and inner service, the call returns (no panic, the \<open>unreachable!()\<close> arms
  included) and leaves a limiter with the same tiers that satisfies the same invariant.\<close>

theorem service_total_built_in:
  assumes "rate_tier_ok (svc_rate_tier svc)" "storage (svc_rate_tier svc) = BuiltIn m"
  shows "\<exists>r rt' w'. service_call env svc req w = Done (r, rt', w') \<and> rate_tier_ok rt' \<and>
    tiers rt' = tiers (svc_rate_tier svc) \<and> (\<exists>m'. storage rt' = BuiltIn m')"
proof -
  obtain ident w1 where i: "identify (id_source (svc_settings svc)) (req_headers (req_parts req)) w = (ident, w1)"
    by fastforce
  obtain v rt' w' where g: "gate env (svc_rate_tier svc) (svc_settings svc) ident (req_parts req) w1 = Done (v, rt', w')"
    "rate_tier_ok rt'" "tiers rt' = tiers (svc_rate_tier svc)" "\<exists>m'. storage rt' = BuiltIn m'"
    using gate_built_in [OF assms] by metis
  have "\<exists>r w''. carry_out env (svc_inner svc) req (v, rt', w') = Done (r, rt', w'')"
    by (auto simp: carry_out_def forward_def forward_with_headers_def
        split: verdict.split option.split prod.split result.split)
  then show ?thesis using g by (auto simp: service_call_gate i)
qed

theorem service_total_built_in_witness:
  "\<exists>r rt' w'. service_call demo_env \<lparr>svc_inner = (\<lambda>req w. (Err (), Suc w)), svc_rate_tier = demo_strict,
      svc_settings = demo_settings\<rparr> \<lparr>req_parts = demo_parts None, req_body = ()\<rparr> 0 = Done (r, rt', w') \<and>
    rate_tier_ok rt'"
  using service_total_built_in [of "\<lparr>svc_inner = (\<lambda>req w. (Err (), Suc w)), svc_rate_tier = demo_strict,
      svc_settings = demo_settings\<rparr>" memory_new demo_env "\<lparr>req_parts = demo_parts None, req_body = ()\<rparr>" 0]
    demo_strict_ok
  by fastforce

text \<open>What the middleware makes of the result of \<open>check\<close> on the tier that applies: the storage error policy and the
  custom response are the only things it adds. \<open>t\<close> is the wall clock, \<open>w\<close> the world the callbacks see.\<close>

definition check_verdict ::
  "'h http_lib \<Rightarrow> ('h, 'x, 'w) settings \<Rightarrow> rstring \<Rightarrow> rstring \<Rightarrow> quota \<Rightarrow> system_time \<Rightarrow> 'w
    \<Rightarrow> (decision, check_error) result \<Rightarrow> 'h verdict" where
  "check_verdict L st user name q t w r =
     (case r of
        Ok (Ok info) \<Rightarrow> if is_unlimited q then Forward None else Forward (Some (info, t))
      | Ok (Err limited) \<Rightarrow> Answer (case limited_response st of
            None \<Rightarrow> rate_limited_response L limited name t
          | Some respond \<Rightarrow> fst (respond user name limited
              (case on_limited st of None \<Rightarrow> w | Some cb \<Rightarrow> cb user name limited w)))
      | Err (CostExceedsLimit cost limit) \<Rightarrow> Answer (cost_exceeds_limit_response L name cost limit)
      | Err (StorageFailed e) \<Rightarrow>
          if on_storage_error st = StorageErrorAllow then Forward None else Answer (storage_error_response L)
      | Err (UnknownTier _) \<Rightarrow> Answer (deny_response L FORBIDDEN))"

text \<open>The world after the quota was resolved: an unknown tier has been reported.\<close>

definition resolved_world ::
  "('k, 'c) rate_tier \<Rightarrow> ('h, 'x, 'w) settings \<Rightarrow> rstring \<Rightarrow> rstring \<Rightarrow> 'w \<Rightarrow> 'w" where
  "resolved_world rt st user name w =
     (if tiers rt name = None then notify (on_event st) (EventUnknownTier user name) w else w)"

lemma resolve_quota_result:
  assumes "effective_tier rt name = Some name'" "tiers rt name' = Some q"
  shows "resolve_quota L rt user name st w =
    (if is_unlimited q then Err PassThrough else Ok (name', q), resolved_world rt st user name w)"
  using assms
  by (cases "tiers rt name")
    (auto simp: effective_tier_def resolve_quota_def get_quota_def resolved_world_def Let_def split: if_splits)

text \<open>From a limited quota on, the gate and \<open>check\<close> do the same.\<close>

lemma limit_request_check:
  assumes "tiers rt name = Some q" "\<not> is_unlimited q" "request_cost ps st w = (cost, w3)"
    and "check (env_custom env) (env_clock env w3) (env_runtime env) rt user name cost = Done (r, rt1)"
  shows "\<exists>w'. limit_request env rt st user name q ps w =
    Done (check_verdict (env_http env) st user name q (env_system_time env w3) w3 r, rt1, w')"
proof (cases "max_burst q < cost")
  case True
  then show ?thesis
    using assms by (auto simp: check_def limit_request_def reject_cost_over_limit_def check_verdict_def Let_def)
next
  case False
  then obtain out where use: "use_storage (env_custom env) (env_runtime env) rt (storage_key_new user name) q cost
      (env_clock env w3 (clock rt)) = Done (out, rt1)" and r: "r = map_result id check_error_from out"
    using assms by (auto simp: check_def Let_def map_exec_Done_iff)
  obtain oc w' where p: "process_result (env_http env) out user name st (env_system_time env w3) w3 = (oc, w')"
    by fastforce
  have "verdict_of oc (env_system_time env w3) = check_verdict (env_http env) st user name q (env_system_time env w3) w3 r"
    using p r assms(2)
    by (auto simp: process_result_def check_verdict_def check_error_from_def Let_def
        split: result.splits prod.splits option.splits on_storage_error.splits)
  then show ?thesis
    using use p assms(3) False by (auto simp: limit_request_def reject_cost_over_limit_def Let_def)
qed

text \<open>C21: the middleware decides as \<open>RateTier::check\<close> does and counts against the same limits. For every request that
  claims a user and a tier, let a tier apply to it (the claimed one, or the default for an unknown one) and
  let \<open>check\<close> for that user, that tier and the request's cost, at the same clock reading, give any result. Then the gate
  forwards with the rate limit information of an allowed request, forwards a request on an unlimited tier as it
  is, answers a limited one and one that costs too much, and treats a storage error by the
  configured policy; and both leave the limiter in the same state. Only the fallback to the default tier is the middleware's own:
  for an unknown tier \<open>check\<close> itself is an error.\<close>

theorem middleware_agrees_with_check:
  assumes "claimed_tier rt ident = Some (user, name)" "effective_tier rt name = Some name'" "tiers rt name' = Some q"
    and "request_cost ps st (resolved_world rt st user name w) = (cost, w3)"
    and "check (env_custom env) (env_clock env w3) (env_runtime env) rt user name' cost = Done (r, rt1)"
  shows "(\<exists>w'. gate env rt st ident ps w =
      Done (check_verdict (env_http env) st user name' q (env_system_time env w3) w3 r, rt1, w')) \<and>
    (name' \<noteq> name \<longrightarrow>
      check (env_custom env) (env_clock env w3) (env_runtime env) rt user name cost = Done (Err (UnknownTier name), rt))"
proof
  have id: "resolve_identity (env_http env) ident rt = Ok (user, name)"
    using assms(1) by (simp add: resolve_identity_claimed)
  note quota = resolve_quota_result [OF assms(2,3), of "env_http env" user st w]
  show "\<exists>w'. gate env rt st ident ps w =
      Done (check_verdict (env_http env) st user name' q (env_system_time env w3) w3 r, rt1, w')"
  proof (cases "is_unlimited q")
    case True
    then have "r = Ok (Ok \<lparr>info_limit = 0, remaining = 0, info_reset_after = zero_duration\<rparr>)" "rt1 = rt"
      using assms(3,5) by (simp_all add: check_def)
    then show ?thesis using True by (simp add: gate_def id quota check_verdict_def)
  next
    case False
    then show ?thesis using limit_request_check [OF assms(3) False assms(4,5)] by (simp add: gate_def id quota)
  qed
  show "name' \<noteq> name \<longrightarrow>
      check (env_custom env) (env_clock env w3) (env_runtime env) rt user name cost = Done (Err (UnknownTier name), rt)"
    using assms(2) by (auto simp: effective_tier_def check_def split: if_splits)
qed

theorem middleware_agrees_with_check_witness:
  "\<exists>d rt1 w'. check demo_custom (\<lambda>_. 5) False demo_strict (lit ''u1'') (lit ''free'') 1 = Done (Ok (Ok d), rt1) \<and>
    gate demo_env demo_strict demo_settings (Some demo_identity) (demo_parts None) 0
      = Done (Forward (Some (d, 0)), rt1, w')"
proof -
  obtain d rt1 where use: "use_storage demo_custom False demo_strict (storage_key_new (lit ''u1'') (lit ''free''))
      three_per_minute 1 5 = Done (Ok (Ok d), rt1)"
    using demo_use by blast
  have one: "1 \<le> max_burst three_per_minute" by (simp add: three_per_minute_def)
  then have chk: "check (env_custom demo_env) (env_clock demo_env 0) (env_runtime demo_env) demo_strict
      (lit ''u1'') (lit ''free'') 1 = Done (Ok (Ok d), rt1)"
    using use three_not_unlimited by (simp add: check_def not_less is_unlimited_def)
  have clk: "env_clock demo_env 0 = (\<lambda>_. 5)" by (rule ext) simp
  have known: "tiers demo_strict (lit ''free'') = Some three_per_minute" by simp
  show ?thesis
    using middleware_agrees_with_check [of demo_strict "Some demo_identity" "lit ''u1''" "lit ''free''" "lit ''free''"
        three_per_minute "demo_parts None" demo_settings 0 1 0 demo_env "Ok (Ok d)" rt1] chk three_not_unlimited known
    by (simp add: clk claimed_tier_def demo_identity_def tier_identity_new_def request_cost_def demo_parts_def
        effective_tier_def resolved_world_def check_verdict_def)
qed

end
