(* ===== verification/Breaker_Limiter.thy ===== *)
theory Breaker_Limiter
  imports Breaker_Outage Service Redis_Storage
begin

text \<open>
  A limiter whose storage is a circuit breaker (\<open>tier.rs\<close> and \<open>service.rs\<close> on \<open>storage/breaker.rs\<close>), and a breaker
  whose primary is Redis (\<open>storage/redis.rs\<close>): every request with a limited quota is answered with a
  decision, whatever the primary or the connection does, and while Redis is down the local limits
  hold.
\<close>

section \<open>A limiter behind a circuit breaker\<close>

lemma resolve_quota_of_effective:
  assumes "effective_tier rt name = Some name'" "tiers rt name' = Some q" "\<not> is_unlimited q"
  shows "\<exists>w'. resolve_quota L rt user name st w = (Ok (name', q), w')"
  using resolve_quota_result [OF assms(1,2), of L user st w] assms(3) by simp

lemma use_breaker:
  assumes "rate_tier_ok rt" "storage rt = Custom b" "breaker_idle b" "limited_quota q"
    and "primary_returns primary_op"
  shows "\<exists>d rt' b'. use_storage (breaker_check_and_update primary_op) in_runtime rt key q cost now
      = Done (Ok d, rt') \<and> storage rt' = Custom b' \<and> breaker_idle b' \<and> rt' = rt\<lparr>storage := Custom b'\<rparr>"
proof -
  obtain d b' where "breaker_check_and_update primary_op b key q cost now = Done (Ok d, b')" "breaker_idle b'"
    using answering_store.answers [OF breaker_answering [OF assms(5)] assms(3,4)] by blast
  moreover have "gc rt = None" using assms(1,2) by (cases "gc rt") (auto simp: rate_tier_ok_def)
  then have "rt\<lparr>gc := None, storage := st\<rparr> = rt\<lparr>storage := st\<rparr>" for st by (cases rt) simp
  ultimately show ?thesis using assms(1,2) \<open>gc rt = None\<close> by (simp add: use_storage_ok)
qed

text \<open>A gate on such a limiter decides every request with a limited quota.\<close>

lemma gate_on_breaker:
  assumes "rate_tier_ok rt" "storage rt = Custom b" "breaker_idle b"
    and "primary_returns primary_op"
    and "env_custom env = breaker_check_and_update primary_op"
    and "claimed_tier rt ident = Some (user, name)" "effective_tier rt name = Some name'"
    and "tiers rt name' = Some q" "\<not> is_unlimited q"
  shows "\<exists>v rt' w' b'. gate env rt st ident ps w = Done (v, rt', w') \<and> v \<noteq> Forward None \<and>
    storage rt' = Custom b' \<and> breaker_idle b' \<and> rt' = rt\<lparr>storage := Custom b'\<rparr>"
proof -
  have self: "rt = rt\<lparr>storage := Custom b\<rparr>" using assms(2) by (cases rt) simp
  obtain w2 where quota: "resolve_quota (env_http env) rt user name st w = (Ok (name', q), w2)"
    using resolve_quota_of_effective [where L = "env_http env" and user = user and st = st and w = w,
        OF assms(7-9)] by blast
  have id: "resolve_identity (env_http env) ident rt = Ok (user, name)"
    using assms(6) by (simp add: resolve_identity_claimed)
  obtain cost w3 where c: "request_cost ps st w2 = (cost, w3)" by fastforce
  have "limited_quota q" using tier_quota_ok [OF assms(1,8)] assms(9) by (simp add: limited_quota_def)
  then obtain d rt' b' where use: "use_storage (env_custom env) (env_runtime env) rt (storage_key_new user name') q cost
      (env_clock env w3 (clock rt)) = Done (Ok d, rt')" and b': "storage rt' = Custom b'" "breaker_idle b'"
    "rt' = rt\<lparr>storage := Custom b'\<rparr>"
    using use_breaker [OF assms(1-3) _ assms(4)] assms(5) by metis
  obtain oc w5 where p: "process_result (env_http env) (Ok d) user name' st (env_system_time env w3) w3 = (oc, w5)"
    by fastforce
  have "oc \<noteq> PassThrough"
    using p by (cases d) (auto simp: process_result_def Let_def split: prod.splits)
  then have "verdict_of oc (env_system_time env w3) \<noteq> Forward None" by (cases oc) auto
  then show ?thesis
    using c use p b' assms(2,3) self
    by (cases "cost \<le> max_burst q")
      (auto simp: gate_def id quota limit_request_def reject_cost_over_limit_def Let_def)
qed

text \<open>Redis behind a breaker: whatever the connection does, \<open>RedisStorage\<close> returns, so the breaker over it
  answers every request.\<close>

lemma redis_returns: "primary_returns (redis_check_and_update sha1 conn st)"
  by (simp add: primary_returns_def redis_check_and_update_def make_call_eq)

interpretation brk_red: answering_store "breaker_check_and_update (redis_check_and_update sha1 conn st)" breaker_idle
  for sha1 conn st
  by (rule breaker_answering [OF redis_returns])

text \<open>When no call is answered, it is a primary that always fails: the local limits of \<open>Breaker_Outage\<close> hold.\<close>

lemma emission_interval_returns: "\<exists>ei. emission_interval_nanos q = Done ei"
  by (auto simp: emission_interval_nanos_def replenish_interval_def duration_div_def is_unlimited_def Let_def)

lemma redis_down_fails:
  assumes "\<And>call s reply. fst (conn call s) \<noteq> Some (Ok reply)"
  shows "always_fails (redis_check_and_update sha1 conn st)"
  unfolding always_fails_def
proof (intro allI)
  fix s key q cost now
  obtain ei where "emission_interval_nanos q = Done ei" using emission_interval_returns by blast
  then obtain call where "make_call sha1 st key q cost now = Done call" by (simp add: make_call_def Let_def)
  then show "\<exists>e s'. redis_check_and_update sha1 conn st s key q cost now = Done (Err e, s')"
    using assms [of call s]
    by (cases "conn call s") (auto simp: redis_check_and_update_def split: option.split result.split)
qed

lemma redis_outage_rate_guarantee:
  assumes "sorted (map event_time es)" "\<forall>k c t. Request k c t \<in> set es \<longrightarrow> mem_valid Q k c t"
    and "\<And>call s reply. fst (conn call s) \<noteq> Some (Ok reply)" "0 < n" "i + n \<le> length (event_requests key es)"
  shows "ei_nat (Q key) * admitted_cost (take n (drop i (event_requests key es)))
      (take n (drop i (decisions_of key (store_run (outage_step (redis_check_and_update sha1 conn st) Q) (\<lambda>b _. b)
        (breaker_new server memory_new) es))))
    \<le> snd (event_requests key es ! (i + n - 1)) - snd (event_requests key es ! i) + bo_nat (Q key)"
proof -
  have "outage.proper TYPE('a) (redis_check_and_update sha1 conn st) Q es"
    using assms(1,2) redis_down_fails [OF assms(3)] by (simp add: outage.proper_def outage_valid_def)
  then show ?thesis
    using outage.window_bound [of "redis_check_and_update sha1 conn st" Q es "breaker_new server memory_new" key n i]
      breaker_new_idle [of server memory_new] assms(4,5)
    by (simp add: requests_of_run outage_tat_def breaker_new_def)
qed

text \<open>A limiter on a breaker whose primary is down, for the witnesses.\<close>

definition outage_rate_tier :: "(unit, nat breaker) rate_tier" where
  "outage_rate_tier = \<lparr>tiers = [lit ''free'' \<mapsto> three_per_minute], default_tier = None,
     on_missing = MissingUseDefault, on_unknown_tier = UnknownUseDefault,
     storage = Custom (breaker_new 0 memory_new), clock = SystemClock, gc = None\<rparr>"

definition outage_env :: "((rstring \<times> rstring) list, rstring, nat, unit, nat breaker) env" where
  "outage_env = \<lparr>env_http = list_http, env_from = (\<lambda>s. s), env_custom = breaker_check_and_update failing_primary,
     env_clock = (\<lambda>_ _. 5), env_system_time = (\<lambda>_. 0), env_runtime = False\<rparr>"

lemma outage_rate_tier_ok: "rate_tier_ok outage_rate_tier"
  by (simp add: rate_tier_ok_def outage_rate_tier_def three_per_minute_ok)

end
