(* ===== verification/Examples.thy ===== *)
theory Examples
  imports Breaker_Limiter
begin

text \<open>
  The example programs in the repository's \<open>examples/\<close>: how each identifies a request, what a route
  costs, the limiter and the layer it builds. \<open>main\<close>'s listener, its routes and its environment
  variables are I/O.

  Outside the repository and so parameters: \<open>header_str\<close> (\<open>HeaderMap::get\<close> with \<open>HeaderValue::to_str\<close>), \<open>uri_path\<close>
  (the path of the request's URI), the Redis lookup of \<open>axum_api_key.rs\<close>, base64 and JSON decoding of
  \<open>axum_jwt.rs\<close> and the connection attempt of \<open>axum_redis_fallback.rs\<close>.
\<close>

section \<open>\<open>axum_basic.rs\<close>\<close>

definition basic_tier_of :: "rstring \<Rightarrow> rstring" where
  "basic_tier_of api_key =
     (if api_key = lit ''pro-user'' then lit ''pro''
      else if api_key = lit ''enterprise-user'' then lit ''enterprise''
      else lit ''free'')"

definition basic_identify ::
  "('h \<Rightarrow> rstring \<Rightarrow> rstring option) \<Rightarrow> 'h \<Rightarrow> 'w \<Rightarrow> tier_identity option \<times> 'w" where
  "basic_identify header_str hs w =
     (map_option (\<lambda>api_key. tier_identity_new api_key (basic_tier_of api_key)) (header_str hs (lit ''x-api-key'')), w)"

definition basic_cost :: "('x \<Rightarrow> rstring) \<Rightarrow> ('h, 'x) parts \<Rightarrow> 'w \<Rightarrow> u32 \<times> 'w" where
  "basic_cost uri_path req w = (if uri_path (req_rest req) = lit ''/api/search'' then 5 else 1, w)"

definition basic_rate_tier :: "bool \<Rightarrow> ('k, 'c) rate_tier exec" where
  "basic_rate_tier in_runtime =
     bind_exec (per_minute 10) (\<lambda>free. let b1 = set_tier (lit ''free'') free builder in
     bind_exec (per_minute 100) (\<lambda>pro. let b2 = set_tier (lit ''pro'') pro b1 in
     build in_runtime
       (set_default_tier (lit ''free'')
       (set_tier (lit ''enterprise'') unlimited b2))))"

definition basic_layer ::
  "('h \<Rightarrow> rstring \<Rightarrow> rstring option) \<Rightarrow> ('x \<Rightarrow> rstring) \<Rightarrow> ('k, 'c) rate_tier \<Rightarrow> ('h, 'x, 'w, 'k, 'c) tier_limit_layer" where
  "basic_layer header_str uri_path rt =
     layer_cost_fn (basic_cost uri_path) (layer_identifier_fn (basic_identify header_str) (layer_new rt))"

section \<open>\<open>axum_jwt.rs\<close>\<close>

text \<open>\<open>str::strip_prefix\<close> and \<open>str::split\<close> of the standard library.\<close>

definition strip_prefix :: "rstring \<Rightarrow> rstring \<Rightarrow> rstring option" where
  "strip_prefix p s = (if take (length p) s = p then Some (drop (length p) s) else None)"

fun split_on :: "nat \<Rightarrow> rstring \<Rightarrow> rstring list" where
  "split_on c [] = [[]]"
| "split_on c (x # xs) = (if x = c then [] # split_on c xs else (x # hd (split_on c xs)) # tl (split_on c xs))"

text \<open>The decoders: the bytes of a base64 text, the JSON value of bytes, and a member that is a string.\<close>

record 'v jwt_lib =
  b64_decode :: "rstring \<Rightarrow> bytes option"
  from_slice :: "bytes \<Rightarrow> 'v option"
  str_claim :: "'v \<Rightarrow> rstring \<Rightarrow> rstring option"

definition jwt_identity ::
  "('h \<Rightarrow> rstring \<Rightarrow> rstring option) \<Rightarrow> 'v jwt_lib \<Rightarrow> 'h \<Rightarrow> tier_identity option" where
  "jwt_identity header_str J hs =
     Option.bind (header_str hs (lit ''authorization'')) (\<lambda>auth.
     Option.bind (strip_prefix (lit ''Bearer '') auth) (\<lambda>token.
     let parts = split_on 46 token in
     if length parts \<noteq> 3 then None
     else
       Option.bind (b64_decode J (parts ! 1)) (\<lambda>payload.
       Option.bind (from_slice J payload) (\<lambda>claims.
       Option.bind (str_claim J claims (lit ''user_id'')) (\<lambda>user.
       let tier_name = (case str_claim J claims (lit ''tier'') of Some t \<Rightarrow> t | None \<Rightarrow> lit ''free'')
       in Some (tier_identity_new user tier_name))))))"

definition jwt_identifier ::
  "('h \<Rightarrow> rstring \<Rightarrow> rstring option) \<Rightarrow> 'v jwt_lib \<Rightarrow> ('h, 'w) tier_identifier" where
  "jwt_identifier header_str J = header_identifier (\<lambda>hs w. (jwt_identity header_str J hs, w))"

definition jwt_rate_tier :: "bool \<Rightarrow> ('k, 'c) rate_tier exec" where
  "jwt_rate_tier in_runtime =
     bind_exec (per_minute 10) (\<lambda>free. let b1 = set_tier (lit ''free'') free builder in
     bind_exec (per_minute 100) (\<lambda>pro. let b2 = set_tier (lit ''pro'') pro b1 in
     build in_runtime
       (set_default_tier (lit ''free'')
       (set_tier (lit ''enterprise'') unlimited b2))))"

definition jwt_layer ::
  "('h \<Rightarrow> rstring \<Rightarrow> rstring option) \<Rightarrow> 'v jwt_lib \<Rightarrow> ('k, 'c) rate_tier \<Rightarrow> ('h, 'x, 'w, 'k, 'c) tier_limit_layer" where
  "jwt_layer header_str J rt = layer_identifier (jwt_identifier header_str J) (layer_new rt)"

section \<open>\<open>axum_api_key.rs\<close>\<close>

text \<open>How a Redis lookup under the timeout of 100 ms ends.\<close>

datatype lookup_end = LookupTimedOut | LookupFailed | LookupAnswered "rstring option"

definition UNAUTHORIZED :: status_code where "UNAUTHORIZED = 401"

definition api_key_identify ::
  "('h \<Rightarrow> rstring \<Rightarrow> rstring option) \<Rightarrow> (rstring \<Rightarrow> 'w \<Rightarrow> lookup_end \<times> 'w) \<Rightarrow> 'h \<Rightarrow> 'w
    \<Rightarrow> tier_identity option \<times> 'w" where
  "api_key_identify header_str redis_get hs w =
     (case header_str hs (lit ''x-api-key'') of
        None \<Rightarrow> (None, w)
      | Some api_key \<Rightarrow>
          (case redis_get (lit ''tier:'' @ api_key) w of
             (LookupTimedOut, w') \<Rightarrow> (None, w')
           | (LookupFailed, w') \<Rightarrow> (None, w')
           | (LookupAnswered None, w') \<Rightarrow> (None, w')
           | (LookupAnswered (Some t), w') \<Rightarrow> (Some (tier_identity_new api_key t), w')))"

definition api_key_identifier ::
  "('h \<Rightarrow> rstring \<Rightarrow> rstring option) \<Rightarrow> (rstring \<Rightarrow> 'w \<Rightarrow> lookup_end \<times> 'w) \<Rightarrow> ('h, 'w) tier_identifier" where
  "api_key_identifier header_str redis_get = header_identifier (api_key_identify header_str redis_get)"

definition api_key_storage :: "rstring option \<Rightarrow> redis_storage" where
  "api_key_storage env_secret =
     (case env_secret of None \<Rightarrow> redis_new | Some s \<Rightarrow> key_secret redis_new (utf8 s))"

definition api_key_rate_tier :: "bool \<Rightarrow> 'c \<Rightarrow> ('k, 'c) rate_tier exec" where
  "api_key_rate_tier in_runtime server =
     bind_exec (per_minute 10) (\<lambda>free. let b1 = set_tier (lit ''free'') free builder in
     bind_exec (per_minute 100) (\<lambda>pro. let b2 = set_tier (lit ''pro'') pro b1 in
     build in_runtime
       (set_storage server
       (set_on_missing (MissingDeny UNAUTHORIZED)
       (set_default_tier (lit ''free'')
       (set_tier (lit ''enterprise'') unlimited b2))))))"

definition api_key_cost :: "('x \<Rightarrow> rstring) \<Rightarrow> ('h, 'x) parts \<Rightarrow> 'w \<Rightarrow> u32 \<times> 'w" where
  "api_key_cost uri_path req w = (if uri_path (req_rest req) = lit ''/api/export'' then 5 else 1, w)"

definition api_key_layer ::
  "('h \<Rightarrow> rstring \<Rightarrow> rstring option) \<Rightarrow> (rstring \<Rightarrow> 'w \<Rightarrow> lookup_end \<times> 'w) \<Rightarrow> ('x \<Rightarrow> rstring)
    \<Rightarrow> ('k, 'c) rate_tier \<Rightarrow> ('h, 'x, 'w, 'k, 'c) tier_limit_layer" where
  "api_key_layer header_str redis_get uri_path rt =
     layer_cost_fn (api_key_cost uri_path) (layer_identifier (api_key_identifier header_str redis_get) (layer_new rt))"

section \<open>\<open>axum_redis_fallback.rs\<close>\<close>

definition fallback_tier_of :: "rstring \<Rightarrow> rstring option" where
  "fallback_tier_of api_key =
     (if api_key = lit ''key_free'' then Some (lit ''free'')
      else if api_key = lit ''key_pro'' then Some (lit ''pro'')
      else None)"

definition fallback_identify ::
  "('h \<Rightarrow> rstring \<Rightarrow> rstring option) \<Rightarrow> 'h \<Rightarrow> 'w \<Rightarrow> tier_identity option \<times> 'w" where
  "fallback_identify header_str hs w =
     (Option.bind (header_str hs (lit ''x-api-key'')) (\<lambda>api_key.
      map_option (tier_identity_new api_key) (fallback_tier_of api_key)), w)"

text \<open>The check at start-up: how the one connection attempt ends within two seconds.\<close>

datatype 'e connect_end = ConnectTimedOut | ConnectFailed 'e | Connected

definition check_redis :: "('e \<Rightarrow> bool) \<Rightarrow> 'e connect_end \<Rightarrow> (unit, 'e) result" where
  "check_redis is_io_error attempt =
     (case attempt of
        ConnectFailed e \<Rightarrow> if \<not> is_io_error e then Err e else Ok ()
      | ConnectTimedOut \<Rightarrow> Ok ()
      | Connected \<Rightarrow> Ok ())"

definition fallback_log :: "breaker_event \<Rightarrow> rstring option" where
  "fallback_log event =
     (case event of
        Opened e \<Rightarrow> Some (lit ''rate limiter: redis down, limiting locally: '' @ display_storage_error e)
      | ClosedEvent \<Rightarrow> Some (lit ''rate limiter: redis back'')
      | PrimaryFailed e \<Rightarrow> None)"

definition fallback_breaker :: "'s \<Rightarrow> 's breaker" where
  "fallback_breaker server = set_on_state_change (breaker_new server memory_new)"

definition fallback_rate_tier :: "bool \<Rightarrow> 's \<Rightarrow> ('k, 's breaker) rate_tier exec" where
  "fallback_rate_tier in_runtime server =
     bind_exec (per_minute 5) (\<lambda>free. let b1 = set_tier (lit ''free'') free builder in
     bind_exec (per_minute 100) (\<lambda>pro. let b2 = set_tier (lit ''pro'') pro b1 in
     build in_runtime
       (set_storage (fallback_breaker server)
       (set_on_missing (MissingDeny UNAUTHORIZED) b2))))"

definition fallback_layer ::
  "('h \<Rightarrow> rstring \<Rightarrow> rstring option) \<Rightarrow> ('k, 'c) rate_tier \<Rightarrow> ('h, 'x, 'w, 'k, 'c) tier_limit_layer" where
  "fallback_layer header_str rt = layer_identifier_fn (fallback_identify header_str) (layer_new rt)"

section \<open>What is built\<close>

lemma per_minute_value: "0 < c \<Longrightarrow> unat c \<le> 60000000000 \<Longrightarrow> per_minute c = Done \<lparr>max_burst = c, window = from_secs 60\<rparr>"
  by (simp add: per_minute_def with_window_def assert_exec_def is_zero_iff)

definition per_minute_quota :: "u32 \<Rightarrow> quota" where
  "per_minute_quota c = \<lparr>max_burst = c, window = from_secs 60\<rparr>"

lemma example_quotas [simp]:
  "per_minute 5 = Done (per_minute_quota 5)" "per_minute 10 = Done (per_minute_quota 10)"
  "per_minute 100 = Done (per_minute_quota 100)"
  by (simp_all add: per_minute_value per_minute_quota_def)

lemma example_quotas_limited [simp]:
  "limited_quota (per_minute_quota 5)" "limited_quota (per_minute_quota 10)" "limited_quota (per_minute_quota 100)"
  by (simp_all add: per_minute_quota_def limited_quota_def quota_ok_def is_unlimited_def)

lemma example_unlimited [simp]: "quota_ok unlimited" "is_unlimited unlimited"
  by (simp_all add: quota_ok_def is_unlimited_def unlimited_def)

definition basic_tiers :: "rstring \<rightharpoonup> quota" where
  "basic_tiers = [lit ''free'' \<mapsto> per_minute_quota 10, lit ''pro'' \<mapsto> per_minute_quota 100, lit ''enterprise'' \<mapsto> unlimited]"

definition fallback_tiers :: "rstring \<rightharpoonup> quota" where
  "fallback_tiers = [lit ''free'' \<mapsto> per_minute_quota 5, lit ''pro'' \<mapsto> per_minute_quota 100]"

lemmas build_eval =
  builder_setters builder_def builder_default_def build_def assert_exec_def start_gc_ok is_zero_iff Let_def lit_def

text \<open>The limiters \<open>build\<close> returns.\<close>

definition basic_limiter :: "bool \<Rightarrow> ('k, 'c) rate_tier" where
  "basic_limiter in_runtime =
     \<lparr>tiers = basic_tiers, default_tier = Some (lit ''free''), on_missing = MissingUseDefault,
      on_unknown_tier = UnknownUseDefault, storage = BuiltIn memory_new, clock = SystemClock,
      gc = Some \<lparr>lazy_interval = from_secs 60, gc_started = in_runtime\<rparr>\<rparr>"

definition api_key_limiter :: "'c \<Rightarrow> ('k, 'c) rate_tier" where
  "api_key_limiter server =
     \<lparr>tiers = basic_tiers, default_tier = Some (lit ''free''), on_missing = MissingDeny UNAUTHORIZED,
      on_unknown_tier = UnknownUseDefault, storage = Custom server, clock = SystemClock, gc = None\<rparr>"

definition fallback_limiter :: "'s \<Rightarrow> ('k, 's breaker) rate_tier" where
  "fallback_limiter server =
     \<lparr>tiers = fallback_tiers, default_tier = None, on_missing = MissingDeny UNAUTHORIZED,
      on_unknown_tier = UnknownUseDefault, storage = Custom (fallback_breaker server), clock = SystemClock, gc = None\<rparr>"

lemma basic_built: "basic_rate_tier in_runtime = Done (basic_limiter in_runtime)"
  by (simp add: basic_rate_tier_def build_eval basic_limiter_def basic_tiers_def on_missing_default_def
      on_unknown_tier_default_def)

lemma jwt_built: "jwt_rate_tier in_runtime = Done (basic_limiter in_runtime)"
  using basic_built by (simp add: jwt_rate_tier_def basic_rate_tier_def)

lemma api_key_built: "api_key_rate_tier in_runtime server = Done (api_key_limiter server)"
  by (simp add: api_key_rate_tier_def build_eval api_key_limiter_def basic_tiers_def on_unknown_tier_default_def)

lemma fallback_built: "fallback_rate_tier in_runtime server = Done (fallback_limiter server)"
  by (simp add: fallback_rate_tier_def build_eval fallback_limiter_def fallback_tiers_def on_unknown_tier_default_def)

lemma example_limiters_ok:
  "rate_tier_ok (basic_limiter in_runtime)" "rate_tier_ok (api_key_limiter c)" "rate_tier_ok (fallback_limiter s)"
  using example_quotas_limited
  by (auto simp: rate_tier_ok_def basic_limiter_def api_key_limiter_def fallback_limiter_def basic_tiers_def
      fallback_tiers_def limited_quota_def is_zero_iff split: if_splits)

section \<open>Splitting a token\<close>

lemma split_on_not_Nil [simp]: "split_on c s \<noteq> []"
  by (cases s) auto

lemma split_on_plain: "c \<notin> set s \<Longrightarrow> split_on c s = [s]"
  by (induction s) auto

lemma split_on_step: "c \<notin> set a \<Longrightarrow> split_on c (a @ c # t) = a # split_on c t"
  by (induction a) auto

lemma split_on_cases:
  obtains (Plain) "c \<notin> set s" "split_on c s = [s]"
  | (Step) a t where "s = a @ c # t" "c \<notin> set a" "split_on c s = a # split_on c t"
proof (cases "c \<in> set s")
  case True
  then obtain a t where "s = a @ c # t" "c \<notin> set a" by (meson split_list_first)
  then show ?thesis using that(2) split_on_step [of c a t] by blast
next
  case False
  then show ?thesis using that(1) split_on_plain by blast
qed

lemma split_on_three:
  "split_on c s = [a, p, d] \<longleftrightarrow> s = a @ c # p @ c # d \<and> c \<notin> set a \<and> c \<notin> set p \<and> c \<notin> set d"
proof
  assume split: "split_on c s = [a, p, d]"
  then obtain t where s: "s = a @ c # t" "c \<notin> set a" "split_on c t = [p, d]"
    by (cases rule: split_on_cases [of c s]) auto
  then obtain u where t: "t = p @ c # u" "c \<notin> set p" "split_on c u = [d]"
    by (cases rule: split_on_cases [of c t]) auto
  then have "u = d \<and> c \<notin> set d"
    by (cases rule: split_on_cases [of c u]) (auto dest: sym)
  then show "s = a @ c # p @ c # d \<and> c \<notin> set a \<and> c \<notin> set p \<and> c \<notin> set d" using s t by simp
qed (simp add: split_on_step split_on_plain)

lemma strip_prefix_Some: "strip_prefix p s = Some t \<longleftrightarrow> s = p @ t"
  by (auto simp: strip_prefix_def split: if_splits) (metis append_take_drop_id)

section \<open>Properties\<close>

text \<open>The JWT example accepts exactly well-formed tokens. A request is identified if and only if its
  \<open>authorization\<close> header is \<open>Bearer\<close> and a token of three parts without further dots whose middle part
  decodes to a JSON object with a text \<open>User_id\<close>; the identity is that user with the text of the \<open>tier\<close>
  claim, or \<open>free\<close> when there is none.\<close>

theorem jwt_identity_exact:
  "jwt_identity header_str J hs = Some i \<longleftrightarrow>
     (\<exists>hd p sig payload claims.
        header_str hs (lit ''authorization'') = Some (lit ''Bearer '' @ hd @ 46 # p @ 46 # sig) \<and>
        46 \<notin> set hd \<and> 46 \<notin> set p \<and> 46 \<notin> set sig \<and>
        b64_decode J p = Some payload \<and> from_slice J payload = Some claims \<and>
        str_claim J claims (lit ''user_id'') = Some (user_id i) \<and>
        tier i = (case str_claim J claims (lit ''tier'') of Some t \<Rightarrow> t | None \<Rightarrow> lit ''free''))"
proof -
  have three: "length xs = 3 \<longleftrightarrow> (\<exists>a b c. xs = [a, b, c])" for xs :: "rstring list"
    by (auto simp: numeral_3_eq_3 length_Suc_conv)
  have eta: "i = tier_identity_new u t \<longleftrightarrow> user_id i = u \<and> tier i = t" for u t
    by (cases i) (auto simp: tier_identity_new_def)
  have steps: "jwt_identity header_str J hs = Some i \<longleftrightarrow>
      (\<exists>token hd p sig. header_str hs (lit ''authorization'') = Some (lit ''Bearer '' @ token) \<and>
        split_on 46 token = [hd, p, sig] \<and>
        (\<exists>payload claims u. b64_decode J p = Some payload \<and> from_slice J payload = Some claims \<and>
          str_claim J claims (lit ''user_id'') = Some u \<and>
          i = tier_identity_new u (case str_claim J claims (lit ''tier'') of Some t \<Rightarrow> t | None \<Rightarrow> lit ''free'')))"
    (is "_ \<longleftrightarrow> ?tokens")
  proof
    assume "jwt_identity header_str J hs = Some i"
    then show "?tokens"
      by (auto simp: jwt_identity_def Option.bind_eq_Some_conv strip_prefix_Some three Let_def split: if_splits)
  next
    assume "?tokens"
    then show "jwt_identity header_str J hs = Some i"
      by (auto simp: jwt_identity_def strip_prefix_def Let_def)
  qed
  show ?thesis
    by (simp add: steps split_on_three eta) blast
qed

text \<open>The limiters of the examples are built. No builder chain of the examples panics, with or without a
  Tokio runtime, each limiter satisfies the invariant of \<open>build\<close>, and no route costs more than a tier's
  burst, so that the cost rule rejects none of their requests.\<close>

theorem example_limiters_built:
  "(\<exists>rt. basic_rate_tier in_runtime = Done rt \<and> jwt_rate_tier in_runtime = Done rt \<and> rate_tier_ok rt \<and>
      gc rt = Some \<lparr>lazy_interval = from_secs 60, gc_started = in_runtime\<rparr> \<and>
      Ball (ran (tiers rt)) (\<lambda>q. is_unlimited q \<or> fst (basic_cost uri_path ps w) \<le> max_burst q)) \<and>
   (\<exists>rt. api_key_rate_tier in_runtime server = Done rt \<and> rate_tier_ok rt \<and> storage rt = Custom server \<and>
      Ball (ran (tiers rt)) (\<lambda>q. is_unlimited q \<or> fst (api_key_cost uri_path ps w) \<le> max_burst q)) \<and>
   (\<exists>rt. fallback_rate_tier in_runtime srv = Done rt \<and> rate_tier_ok rt \<and> storage rt = Custom (fallback_breaker srv) \<and>
      Ball (ran (tiers rt)) (\<lambda>q. limited_quota q))"
proof -
  have basic: "ran basic_tiers = {unlimited, per_minute_quota 100, per_minute_quota 10}"
    by (simp add: basic_tiers_def lit_def)
  have fallback: "ran fallback_tiers = {per_minute_quota 100, per_minute_quota 5}"
    by (simp add: fallback_tiers_def lit_def)
  have cheap: "is_unlimited q \<or> c \<le> max_burst q" if "c = 5 \<or> c = 1" "q \<in> ran basic_tiers" for q and c :: u32
    using that by (auto simp: basic per_minute_quota_def)
  have costs: "is_unlimited q \<or> fst (basic_cost uri_path ps w) \<le> max_burst q"
    "is_unlimited q \<or> fst (api_key_cost uri_path ps w) \<le> max_burst q" if "q \<in> ran basic_tiers" for q
    by (rule cheap [OF _ that], simp add: basic_cost_def api_key_cost_def)+
  show ?thesis
    using example_limiters_ok costs
    by (auto simp: basic_built jwt_built api_key_built fallback_built basic_limiter_def api_key_limiter_def
        fallback_limiter_def fallback)
qed

text \<open>The API key example gives no tier to a key it could not look up. A request without the header, with a
  key Redis does not know, or whose lookup fails or takes longer than the timeout is answered 401: no
  storage is asked, the limiter is unchanged and the inner service is not called.\<close>

theorem api_key_example_rejects_unidentified:
  assumes "api_key_rate_tier in_runtime server = Done rt0" "on_missing rt = on_missing rt0"
    and "case header_str (req_headers (req_parts req)) (lit ''x-api-key'') of
        None \<Rightarrow> wl = w
      | Some key \<Rightarrow> (\<exists>r. redis_get (lit ''tier:'' @ key) w = (r, wl) \<and> \<not> (\<exists>t. r = LookupAnswered (Some t)))"
  shows "service_call env \<lparr>svc_inner = inner, svc_rate_tier = rt,
      svc_settings = settings (api_key_layer header_str redis_get uri_path rt)\<rparr> req w
    = Done (Ok (map_response (env_from env) (deny_response (env_http env) UNAUTHORIZED)), rt, wl)"
proof -
  have missing: "on_missing rt = MissingDeny UNAUTHORIZED"
    using assms(1,2) by (simp add: api_key_built) (auto simp: api_key_limiter_def)
  have "api_key_identify header_str redis_get (req_headers (req_parts req)) w = (None, wl)"
    using assms(3) by (auto simp: api_key_identify_def split: option.splits lookup_end.splits)
  then show ?thesis
    by (simp add: service_call_gate api_key_layer_def layer_cost_fn_def layer_identifier_def layer_new_def
        api_key_identifier_def header_identifier_def gate_def resolve_identity_def missing)
qed

section \<open>The fallback example, request after request\<close>

text \<open>The verdicts on a sequence of requests, each with the world it arrives in (its clock readings).\<close>

fun serve ::
  "('h, 'b, 'w, 'k, 'c) env \<Rightarrow> ('h, 'x, 'w) settings \<Rightarrow> ('k, 'c) rate_tier \<Rightarrow> (('h, 'x) parts \<times> 'w) list
    \<Rightarrow> ('h verdict list \<times> ('k, 'c) rate_tier) exec" where
  "serve env st rt [] = Done ([], rt)"
| "serve env st rt ((ps, w) # rest) =
     (case identify (id_source st) (req_headers ps) w of (ident, w1) \<Rightarrow>
      bind_exec (gate env rt st ident ps w1) (\<lambda>(v, rt1, _).
      map_exec (\<lambda>(vs, rt2). (v # vs, rt2)) (serve env st rt1 rest)))"

text \<open>A known API key and its tier.\<close>

definition fallback_key :: "('h \<Rightarrow> rstring \<Rightarrow> rstring option) \<Rightarrow> ('h, 'x) parts \<Rightarrow> (rstring \<times> rstring) option" where
  "fallback_key header_str ps =
     Option.bind (header_str (req_headers ps) (lit ''x-api-key'')) (\<lambda>k. map_option (\<lambda>t. (k, t)) (fallback_tier_of k))"

text \<open>
  What the example promises, said on the breaker alone: no known key, 401; a cost above the tier's burst, 403;
  otherwise the breaker decides, and its decision is carried out.
\<close>

definition fallback_answer ::
  "('h, 'b, 'w, 'k, 's breaker) env \<Rightarrow> ('h \<Rightarrow> rstring \<Rightarrow> rstring option) \<Rightarrow> 's breaker \<Rightarrow> ('h, 'x) parts \<Rightarrow> 'w
    \<Rightarrow> ('h verdict \<times> 's breaker) exec" where
  "fallback_answer env header_str b ps w =
     (case fallback_key header_str ps of
        None \<Rightarrow> Done (Answer (deny_response (env_http env) UNAUTHORIZED), b)
      | Some (k, t) \<Rightarrow>
          let q = the (fallback_tiers t); cost = (case tier_cost_ext ps of None \<Rightarrow> 1 | Some c \<Rightarrow> c) in
          if cost > max_burst q then Done (Answer (cost_exceeds_limit_response (env_http env) t cost (max_burst q)), b)
          else
            map_exec (\<lambda>(out, b').
                (case out of
                   Ok (Ok info) \<Rightarrow> Forward (Some (info, env_system_time env w))
                 | Ok (Err limited) \<Rightarrow> Answer (rate_limited_response (env_http env) limited t (env_system_time env w))
                 | Err e \<Rightarrow> Forward None, b'))
              (env_custom env b (storage_key_new k t) q cost (env_clock env w SystemClock)))"

fun fallback_answers ::
  "('h, 'b, 'w, 'k, 's breaker) env \<Rightarrow> ('h \<Rightarrow> rstring \<Rightarrow> rstring option) \<Rightarrow> 's breaker \<Rightarrow> (('h, 'x) parts \<times> 'w) list
    \<Rightarrow> ('h verdict list \<times> 's breaker) exec" where
  "fallback_answers env header_str b [] = Done ([], b)"
| "fallback_answers env header_str b ((ps, w) # rest) =
     bind_exec (fallback_answer env header_str b ps w) (\<lambda>(v, b1).
     map_exec (\<lambda>(vs, b2). (v # vs, b2)) (fallback_answers env header_str b1 rest))"

definition fallback_with :: "'s breaker \<Rightarrow> ('k, 's breaker) rate_tier" where
  "fallback_with b =
     \<lparr>tiers = fallback_tiers, default_tier = None, on_missing = MissingDeny UNAUTHORIZED,
      on_unknown_tier = UnknownUseDefault, storage = Custom b, clock = SystemClock, gc = None\<rparr>"

lemma fallback_limiter_with: "fallback_limiter server = fallback_with (fallback_breaker server)"
  by (simp add: fallback_limiter_def fallback_with_def)

lemma fallback_with_clock: "clock (fallback_with b) = SystemClock"
  by (simp add: fallback_with_def)

lemma fallback_with_ok: "rate_tier_ok (fallback_with b)"
  using example_limiters_ok(3) by (auto simp: rate_tier_ok_def fallback_limiter_def fallback_with_def)

lemma fallback_breaker_idle: "breaker_idle (fallback_breaker server)"
  using breaker_new_idle [of server memory_new]
  by (simp add: fallback_breaker_def set_on_state_change_def breaker_idle_def)

lemma fallback_tier_quota:
  assumes "fallback_tier_of k = Some t"
  obtains q where "fallback_tiers t = Some q" "limited_quota q"
  using assms by (auto simp: fallback_tier_of_def fallback_tiers_def lit_def split: if_splits)

text \<open>One request.\<close>

lemma fallback_gate:
  fixes env :: "('h, 'b, 'w, 'k, 's breaker) env"
  assumes "breaker_idle b" "primary_returns primary_op" "env_custom env = breaker_check_and_update primary_op"
    and "st = settings (fallback_layer header_str rt0)"
  obtains v b' where
    "gate env (fallback_with b) st (fst (fallback_identify header_str (req_headers ps) w)) ps w = Done (v, fallback_with b', w)"
    "fallback_answer env header_str b ps w = Done (v, b')" "breaker_idle b'"
    "fallback_key header_str ps \<noteq> None \<Longrightarrow> v \<noteq> Forward None"
proof (cases "fallback_key header_str ps")
  case None
  then have "fst (fallback_identify header_str (req_headers ps) w) = None"
    by (auto simp: fallback_identify_def fallback_key_def Option.bind_eq_None_conv split: option.splits)
  then show thesis
    using that None assms(1) by (simp add: gate_def resolve_identity_def fallback_answer_def fallback_with_def)
next
  case (Some kt)
  obtain k t where kt: "kt = (k, t)" by fastforce
  then have id: "fst (fallback_identify header_str (req_headers ps) w) = Some (tier_identity_new k t)"
    and tier: "fallback_tier_of k = Some t"
    using Some by (auto simp: fallback_identify_def fallback_key_def Option.bind_eq_Some_conv)
  obtain q where q: "fallback_tiers t = Some q" "limited_quota q" by (rule fallback_tier_quota [OF tier])
  define cost where "cost = (case tier_cost_ext ps of None \<Rightarrow> 1 | Some c \<Rightarrow> c)"
  have st: "on_event st = None" "on_limited st = None" "limited_response st = None" "cost_fn st = None"
    by (simp_all add: assms(4) fallback_layer_def layer_identifier_fn_def layer_new_def)
  have cost: "request_cost ps st w = (cost, w)" by (simp add: request_cost_def st(4) cost_def split: option.split)
  have limit: "gate env (fallback_with b) st (Some (tier_identity_new k t)) ps w = limit_request env (fallback_with b) st k t q ps w"
    using q by (simp add: gate_def resolve_identity_def resolve_quota_def get_quota_def tier_identity_new_def
        fallback_with_def limited_quota_def)
  show thesis
  proof (cases "max_burst q < cost")
    case True
    let ?v = "Answer (cost_exceeds_limit_response (env_http env) t cost (max_burst q)) :: 'h verdict"
    have "\<not> cost \<le> max_burst q" using True by (simp add: not_le)
    then have "gate env (fallback_with b) st (Some (tier_identity_new k t)) ps w = Done (?v, fallback_with b, w)"
      using limit cost by (simp add: limit_request_def reject_cost_over_limit_def notify_def st(1) Let_def)
    moreover have "fallback_answer env header_str b ps w = Done (?v, b)"
      using Some kt q(1) True by (simp add: fallback_answer_def cost_def Let_def)
    ultimately show thesis using that [of ?v b] assms(1) id by simp
  next
    case False
    obtain d b' where call: "env_custom env b (storage_key_new k t) q cost (env_clock env w SystemClock) = Done (Ok d, b')"
      and idle: "breaker_idle b'"
      using answering_store.answers [OF breaker_answering [OF assms(2)] assms(1) q(2)] unfolding assms(3) by metis
    have use: "use_storage (env_custom env) (env_runtime env) (fallback_with b :: ('k, 's breaker) rate_tier)
        (storage_key_new k t) q cost (env_clock env w SystemClock) = Done (Ok d, fallback_with b')"
      using call by (simp add: use_storage_def start_gc_def fallback_with_def)
    define v where "v = (case d of Ok info \<Rightarrow> Forward (Some (info, env_system_time env w))
      | Err limited \<Rightarrow> Answer (rate_limited_response (env_http env) limited t (env_system_time env w)))"
    have "cost \<le> max_burst q" using False by (simp add: not_less)
    then have "gate env (fallback_with b) st (Some (tier_identity_new k t)) ps w = Done (v, fallback_with b', w)"
      using limit cost use
      by (cases d) (simp_all add: limit_request_def reject_cost_over_limit_def process_result_def st v_def Let_def
          fallback_with_clock)
    moreover have "fallback_answer env header_str b ps w = Done (v, b')"
      using Some kt q(1) call False
      by (cases d) (simp_all add: fallback_answer_def cost_def v_def Let_def)
    moreover have "v \<noteq> Forward None" by (cases d) (simp_all add: v_def)
    ultimately show thesis using that idle id by metis
  qed
qed

lemma fallback_serve:
  assumes "breaker_idle b" "primary_returns primary_op" "env_custom env = breaker_check_and_update primary_op"
    and st: "st = settings (fallback_layer header_str rt0)"
  shows "\<exists>vs b'. serve env st (fallback_with b) reqs = Done (vs, fallback_with b') \<and>
    fallback_answers env header_str b reqs = Done (vs, b') \<and>
    list_all2 (\<lambda>(ps, w) v. fallback_key header_str ps \<noteq> None \<longrightarrow> v \<noteq> Forward None) reqs vs"
  using assms(1)
proof (induction reqs arbitrary: b)
  case (Cons r reqs)
  obtain ps w where r: "r = (ps, w)" by fastforce
  from fallback_gate [OF Cons.prems assms(2,3) st, where ps = ps and w = w]
  obtain v b1 where g: "gate env (fallback_with b) st
      (fst (fallback_identify header_str (req_headers ps) w)) ps w = Done (v, fallback_with b1, w)"
    "fallback_answer env header_str b ps w = Done (v, b1)" "breaker_idle b1"
    "fallback_key header_str ps \<noteq> None \<Longrightarrow> v \<noteq> Forward None" by blast
  have "identify (id_source st) (req_headers ps) w
      = (fst (fallback_identify header_str (req_headers ps) w), w)"
    by (simp add: st fallback_layer_def layer_identifier_fn_def closure_identifier_def header_identifier_def fallback_identify_def)
  moreover obtain vs b' where "serve env st (fallback_with b1) reqs = Done (vs, fallback_with b')"
    "fallback_answers env header_str b1 reqs = Done (vs, b')"
    "list_all2 (\<lambda>(ps, w) v. fallback_key header_str ps \<noteq> None \<longrightarrow> v \<noteq> Forward None) reqs vs"
    using Cons.IH [OF g(3)] by blast
  ultimately show ?case using g(1,2,4) by (simp add: r)
qed simp

text \<open>C20: in the fallback example the limit survives any outage. Whatever Redis answers, late, wrongly or not at
  all, every sequence of requests is served without a panic, and exactly as said on the breaker alone: a request without a
  known API key is answered 401, one that costs more than its tier's burst is answered 403, and every other
  is forwarded or limited as the circuit breaker decides on the key's tier, one decision after the other. In
  particular none with a known key is forwarded without a decision (the default fail-open policy for storage
  errors has no effect).\<close>

theorem fallback_example_always_limits:
  assumes "fallback_rate_tier in_runtime server = Done rt"
    and "env_custom env = breaker_check_and_update (redis_check_and_update sha1 conn redis)"
  shows "\<exists>vs b. serve env (settings (fallback_layer header_str rt)) rt reqs = Done (vs, rt\<lparr>storage := Custom b\<rparr>) \<and>
    fallback_answers env header_str (fallback_breaker server) reqs = Done (vs, b) \<and>
    list_all2 (\<lambda>(ps, w) v. fallback_key header_str ps \<noteq> None \<longrightarrow> v \<noteq> Forward None) reqs vs"
proof -
  have rt: "rt = fallback_with (fallback_breaker server)"
    using assms(1) by (simp add: fallback_built fallback_limiter_with)
  have upd: "rt\<lparr>storage := Custom b\<rparr> = fallback_with b" for b by (simp add: rt fallback_with_def)
  show ?thesis
    using fallback_serve [OF fallback_breaker_idle [of server] redis_returns assms(2) refl,
        where reqs = reqs and header_str = header_str and ?rt0.0 = rt]
    unfolding upd rt [symmetric] .
qed

text \<open>A deployment whose Redis never answers, and two requests.\<close>

definition down_env :: "((rstring \<times> rstring) list, rstring, nat, unit, unit breaker) env" where
  "down_env = \<lparr>env_http = list_http, env_from = (\<lambda>s. s),
     env_custom = breaker_check_and_update (redis_check_and_update demo_sha1 (\<lambda>_ s. (None, s)) redis_new),
     env_clock = (\<lambda>_ _. 5), env_system_time = (\<lambda>_. 0), env_runtime = False\<rparr>"

definition keyed_parts :: "rstring \<Rightarrow> ((rstring \<times> rstring) list, unit) parts" where
  "keyed_parts k = \<lparr>req_headers = [(lit ''x-api-key'', k)], tier_cost_ext = None, req_rest = ()\<rparr>"

definition down_limiter :: "(unit, unit breaker) rate_tier" where
  "down_limiter = fallback_limiter ()"

definition key_limiter :: "(unit, unit) rate_tier" where
  "key_limiter = api_key_limiter ()"

theorem fallback_example_always_limits_witness:
  "\<exists>v b. serve down_env (settings (fallback_layer map_of down_limiter)) down_limiter
      [(keyed_parts (lit ''key_free''), 0), (keyed_parts (lit ''stranger''), 1)]
    = Done ([v, Answer (deny_response list_http UNAUTHORIZED)], down_limiter\<lparr>storage := Custom b\<rparr>) \<and> v \<noteq> Forward None"
proof -
  have env: "env_custom down_env = breaker_check_and_update (redis_check_and_update demo_sha1 (\<lambda>_ s. (None, s)) redis_new)"
    "env_http down_env = list_http"
    by (simp_all add: down_env_def)
  have keys: "fallback_key map_of (keyed_parts (lit ''key_free'')) = Some (lit ''key_free'', lit ''free'')"
    "fallback_key map_of (keyed_parts (lit ''stranger'')) = None"
    by (simp_all add: fallback_key_def keyed_parts_def fallback_tier_of_def lit_def)
  have built: "fallback_rate_tier False () = Done down_limiter" by (simp add: down_limiter_def fallback_built)
  let ?reqs = "[(keyed_parts (lit ''key_free''), 0 :: nat), (keyed_parts (lit ''stranger''), 1)]"
  obtain vs b where s: "serve down_env (settings (fallback_layer map_of down_limiter)) down_limiter ?reqs
      = Done (vs, down_limiter\<lparr>storage := Custom b\<rparr>)"
    "fallback_answers down_env map_of (fallback_breaker ()) ?reqs = Done (vs, b)"
    "list_all2 (\<lambda>(ps, w) v. fallback_key map_of ps \<noteq> None \<longrightarrow> v \<noteq> Forward None) ?reqs vs"
    using fallback_example_always_limits [OF built env(1), where header_str = map_of and reqs = ?reqs] by blast
  then obtain v where vs: "vs = [v, Answer (deny_response list_http UNAUTHORIZED)]" "v \<noteq> Forward None"
    by (auto simp: list_all2_Cons1 keys env(2) fallback_answer_def [of _ _ _ "keyed_parts (lit ''stranger'')"]
        bind_exec_Done_iff map_exec_Done_iff)
  then show ?thesis using s(1) by blast
qed

theorem api_key_example_rejects_unidentified_witness:
  "service_call demo_env \<lparr>svc_inner = (\<lambda>req w. (Err (), w)), svc_rate_tier = key_limiter,
      svc_settings = settings (api_key_layer map_of (\<lambda>_ w. (LookupTimedOut, Suc w)) (\<lambda>_. lit ''/'') key_limiter)\<rparr>
    \<lparr>req_parts = keyed_parts (lit ''k1''), req_body = ()\<rparr> 0
   = Done (Ok (map_response (env_from demo_env) (deny_response list_http UNAUTHORIZED)), key_limiter, 1)"
  using api_key_example_rejects_unidentified [of False "()" key_limiter key_limiter, where
      header_str = map_of and redis_get = "\<lambda>_ w. (LookupTimedOut, Suc w)" and w = 0 and wl = 1 and env = demo_env
      and req = "\<lparr>req_parts = keyed_parts (lit ''k1''), req_body = ()\<rparr>" and uri_path = "\<lambda>_. lit ''/''"
      and inner = "\<lambda>req w. (Err (), w)"]
  by (simp add: keyed_parts_def demo_env_def key_limiter_def api_key_built)

end
