(* ===== verification/Buffered.thy ===== *)
theory Buffered
  imports Service
begin

text \<open>
  \<open>src/buffered.rs\<close>: the middleware that reads the request body before it identifies the request. A body
  (the \<open>http_body\<close> crate) is what it delivers when it is read: a declared lower bound of its length
  and then chunks, ending well or with an error. \<open>Limited\<close> from \<open>http_body_util\<close> is a parameter:
  \<open>collect_limited\<close> gives the bytes of a body, a length-limit error or another error.
  What is relied on is \<open>collect_ok\<close>: at most the limit is ever returned, a body that fits is returned
  whole, one that does not is a length-limit error, and a body that fails before that is another error.
\<close>

section \<open>Bodies\<close>

datatype collect_error = LengthLimitError | BodyError

record request_body =
  size_hint_lower :: u64
  chunks :: "bytes list"
  body_fails :: bool

text \<open>The bytes read before the limit is crossed.\<close>

definition collect_ok :: "(request_body \<Rightarrow> nat \<Rightarrow> (bytes, collect_error) result) \<Rightarrow> bool" where
  "collect_ok collect_limited \<longleftrightarrow>
     (\<forall>b limit. collect_limited b limit =
        (if length (concat (chunks b)) > limit then Err LengthLimitError
         else if body_fails b then Err BodyError
         else Ok (concat (chunks b))))"

section \<open>The service\<close>

type_synonym ('h, 'x, 'b, 'e, 'w) buffered_inner = "('h, 'x, bytes, 'b, 'e, 'w) inner"

record ('h, 'x, 'w, 'k, 'c) buffered_layer =
  buf_rate_tier :: "('k, 'c) rate_tier"
  buf_settings :: "('h, 'x, 'w) settings"
  max_body_size :: u64

definition buffer_body :: "('h, 'x, 'w, 'k, 'c) tier_limit_layer \<Rightarrow> ('h, 'x, 'w, 'k, 'c) buffered_layer" where
  "buffer_body l = \<lparr>buf_rate_tier = rate_tier l, buf_settings = settings l, max_body_size = 64 * 1024\<rparr>"

definition set_max_body_size ::
  "u64 \<Rightarrow> ('h, 'x, 'w, 'k, 'c) buffered_layer \<Rightarrow> ('h, 'x, 'w, 'k, 'c) buffered_layer" where
  "set_max_body_size sz l = l\<lparr>max_body_size := sz\<rparr>"

record ('h, 'x, 'b, 'e, 'w, 'k, 'c) buffered_service =
  bsvc_inner :: "('h, 'x, 'b, 'e, 'w) buffered_inner"
  bsvc_rate_tier :: "('k, 'c) rate_tier"
  bsvc_settings :: "('h, 'x, 'w) settings"
  bsvc_max_body_size :: u64

definition buffered_layer_service ::
  "('h, 'x, 'w, 'k, 'c) buffered_layer \<Rightarrow> ('h, 'x, 'b, 'e, 'w) buffered_inner
    \<Rightarrow> ('h, 'x, 'b, 'e, 'w, 'k, 'c) buffered_service" where
  "buffered_layer_service l inner =
     \<lparr>bsvc_inner = inner, bsvc_rate_tier = buf_rate_tier l, bsvc_settings = buf_settings l,
      bsvc_max_body_size = max_body_size l\<rparr>"

definition PAYLOAD_TOO_LARGE :: status_code where "PAYLOAD_TOO_LARGE = 413"

definition payload_too_large_response :: "'h http_lib \<Rightarrow> ('h, rstring) response" where
  "payload_too_large_response L =
     build_response L PAYLOAD_TOO_LARGE [json_header] (lit ''{\"error\":\"payload too large\"}'')"

definition buffered_call ::
  "(request_body \<Rightarrow> nat \<Rightarrow> (bytes, collect_error) result) \<Rightarrow> ('h, 'b, 'w, 'k, 'c) env
    \<Rightarrow> ('h, 'x, 'b, 'e, 'w, 'k, 'c) buffered_service \<Rightarrow> ('h, 'x, request_body) request \<Rightarrow> 'w
    \<Rightarrow> ('h, 'b, 'e, 'w, 'k, 'c) call_result" where
  "buffered_call collect_limited env svc req w =
     (let rt = bsvc_rate_tier svc; st = bsvc_settings svc; inner = bsvc_inner svc; L = env_http env;
          answer = (\<lambda>resp rt' w'. Done (Ok (map_response (env_from env) resp), rt', w'));
          ps = req_parts req; bdy = req_body req
      in if size_hint_lower bdy > bsvc_max_body_size svc then answer (payload_too_large_response L) rt w
      else case collect_limited bdy (unat (bsvc_max_body_size svc)) of
        Err LengthLimitError \<Rightarrow> answer (payload_too_large_response L) rt w
      | Err _ \<Rightarrow> answer (bad_request_response L) rt w
      | Ok body_bytes \<Rightarrow>
          (let (ident, w1) = identify_with_body (id_source st) (req_headers ps) body_bytes w;
               req' = \<lparr>req_parts = ps, req_body = body_bytes\<rparr>
           in case resolve_identity L ident rt of
                Err PassThrough \<Rightarrow> forward inner req' rt w1
              | Err (Deny resp) \<Rightarrow> answer resp rt w1
              | Err (Allow _) \<Rightarrow> Panic ''internal error: entered unreachable code''
              | Ok (user, tier_name) \<Rightarrow>
                  (case resolve_quota L rt user tier_name st w1 of
                     (Err PassThrough, w2) \<Rightarrow> forward inner req' rt w2
                   | (Err (Deny resp), w2) \<Rightarrow> answer resp rt w2
                   | (Err (Allow _), w2) \<Rightarrow> Panic ''internal error: entered unreachable code''
                   | (Ok (tier_name', quota), w2) \<Rightarrow>
                       (let (cost, w3) = request_cost ps st w2 in
                        case reject_cost_over_limit L cost quota user tier_name' st w3 of
                          (Some resp, w4) \<Rightarrow> answer resp rt w4
                        | (None, w4) \<Rightarrow>
                            let now = env_clock env w4 (clock rt); key = storage_key_new user tier_name' in
                            bind_exec (use_storage (env_custom env) (env_runtime env) rt key quota cost now)
                              (\<lambda>(result, rt1).
                               let checked_at = env_system_time env w4 in
                               case process_result L result user tier_name' st checked_at w4 of
                                 (Allow info, w5) \<Rightarrow> forward_with_headers L inner req' info checked_at rt1 w5
                               | (Deny resp, w5) \<Rightarrow> answer resp rt1 w5
                               | (PassThrough, w5) \<Rightarrow> forward inner req' rt1 w5)))))"

section \<open>Reduction to the gate\<close>

lemma buffered_call_gate:
  assumes "size_hint_lower (req_body req) \<le> bsvc_max_body_size svc"
    and "collect_limited (req_body req) (unat (bsvc_max_body_size svc)) = Ok bs"
  shows "buffered_call collect_limited env svc req w =
     (case identify_with_body (id_source (bsvc_settings svc)) (req_headers (req_parts req)) bs w of (ident, w1) \<Rightarrow>
      bind_exec (gate env (bsvc_rate_tier svc) (bsvc_settings svc) ident (req_parts req) w1)
        (carry_out env (bsvc_inner svc) \<lparr>req_parts = req_parts req, req_body = bs\<rparr>))"
proof -
  let ?rt = "bsvc_rate_tier svc" and ?st = "bsvc_settings svc" and ?L = "env_http env"
  let ?req = "\<lparr>req_parts = req_parts req, req_body = bs\<rparr>"
  have size: "\<not> bsvc_max_body_size svc < size_hint_lower (req_body req)" using assms(1) by simp
  obtain ident w1 where i: "identify_with_body (id_source ?st) (req_headers (req_parts req)) bs w = (ident, w1)"
    by fastforce
  note defs = buffered_call_def gate_def i size assms(2) Let_def
  show ?thesis
  proof (cases rule: resolve_identity_cases [where L = ?L and ident = ident and rt = ?rt])
    case (Id u n)
    show ?thesis
    proof (cases rule: resolve_quota_cases [where L = ?L and rt = ?rt and user = u and name = n
          and st = ?st and w = w1])
      case (Quota n' q w')
      then show ?thesis
        using Id service_call_limits [where req = ?req and st = ?st and wq = w' and env = env and quota = q
            and user = u and name = n' and rt = ?rt and inner = "bsvc_inner svc"]
        by (simp add: defs)
    qed (use Id in \<open>simp_all add: defs\<close>)
  qed (simp_all add: defs)
qed

section \<open>Properties\<close>

text \<open>A body reader for the witnesses.\<close>

definition demo_collect :: "request_body \<Rightarrow> nat \<Rightarrow> (bytes, collect_error) result" where
  "demo_collect b limit =
     (if length (concat (chunks b)) > limit then Err LengthLimitError
      else if body_fails b then Err BodyError else Ok (concat (chunks b)))"

lemma demo_collect_ok: "collect_ok demo_collect"
  by (simp add: collect_ok_def demo_collect_def)

text \<open>C35: the buffered middleware identifies from the body, and otherwise is the same gate. A body that
  declares or turns out to have more bytes than the limit is answered with 413, and one that
  fails to be read within the limit with 400, both without identifying the request, touching the
  limiter or calling the inner service. Any other request is decided by the gate and, when
  forwarded, reaches the inner service with its parts unchanged and with exactly the bytes it was sent with.\<close>

theorem buffered_implements_gate:
  assumes "collect_ok collect_limited"
    and "length (concat (chunks (req_body req))) = n" "unat (bsvc_max_body_size svc) = limit"
  shows "buffered_call collect_limited env svc req w =
    (if limit < unat (size_hint_lower (req_body req)) \<or> limit < n then
       Done (Ok (map_response (env_from env) (payload_too_large_response (env_http env))), bsvc_rate_tier svc, w)
     else if body_fails (req_body req) then
       Done (Ok (map_response (env_from env) (bad_request_response (env_http env))), bsvc_rate_tier svc, w)
     else
       (case identify_with_body (id_source (bsvc_settings svc)) (req_headers (req_parts req))
            (concat (chunks (req_body req))) w of (ident, w1) \<Rightarrow>
        bind_exec (gate env (bsvc_rate_tier svc) (bsvc_settings svc) ident (req_parts req) w1)
          (carry_out env (bsvc_inner svc)
            \<lparr>req_parts = req_parts req, req_body = concat (chunks (req_body req))\<rparr>)))"
proof -
  have collect: "collect_limited (req_body req) limit =
      (if n > limit then Err LengthLimitError else if body_fails (req_body req) then Err BodyError
       else Ok (concat (chunks (req_body req))))"
    using assms(1,2) by (simp add: collect_ok_def)
  show ?thesis
  proof (cases "limit < unat (size_hint_lower (req_body req)) \<or> limit < n \<or> body_fails (req_body req)")
    case True
    then show ?thesis
      using assms(3) collect by (auto simp: buffered_call_def Let_def word_less_nat_alt)
  next
    case False
    then show ?thesis
      using assms(3) collect buffered_call_gate [of req svc collect_limited "concat (chunks (req_body req))" env w]
      by (simp add: word_le_nat_alt)
  qed
qed

theorem buffered_implements_gate_witness:
  "buffered_call demo_collect demo_env \<lparr>bsvc_inner = (\<lambda>req w. (Err (), Suc w)), bsvc_rate_tier = demo_strict,
      bsvc_settings = demo_settings, bsvc_max_body_size = 2\<rparr>
    \<lparr>req_parts = demo_parts None, req_body = \<lparr>size_hint_lower = 0, chunks = [[1, 2], [3]], body_fails = False\<rparr>\<rparr> 0
   = Done (Ok (payload_too_large_response list_http), demo_strict, 0)"
  using buffered_implements_gate [OF demo_collect_ok refl refl, where req = "\<lparr>req_parts = demo_parts None,
      req_body = \<lparr>size_hint_lower = 0, chunks = [[1, 2], [3]], body_fails = False\<rparr>\<rparr>"
      and svc = "\<lparr>bsvc_inner = (\<lambda>req w. (Err (), Suc w)), bsvc_rate_tier = demo_strict,
        bsvc_settings = demo_settings, bsvc_max_body_size = 2\<rparr>" and env = demo_env and w = 0]
  by (simp add: demo_env_def map_response_def payload_too_large_response_def build_response_def)

end
