(* ===== verification/Readiness.thy ===== *)
theory Readiness
  imports Buffered
begin

text \<open>
  The Tower side of the middlewares: \<open>poll_ready\<close> and the first lines of \<open>call\<close> in \<open>src/service.rs\<close>,
  \<open>src/buffered.rs\<close> and \<open>src/cost.rs\<close>. A Tower service may be called only after \<open>poll_ready\<close> on that very
  value returned \<open>Ready(Ok(()))\<close>, once per such answer; a clone of a ready service is not ready. Since
  \<open>call\<close> returns a future that calls the inner service later, \<open>call\<close> clones \<open>self.inner\<close> and swaps the two,
  so that the future owns the value that was polled.

  The inner service is a parameter (\<open>tower\<close>): how it polls, clones and answers. A \<open>handle\<close> is a value of it
  with the mark the contract speaks of: it is set when the last poll of this value said \<open>Ready(Ok(()))\<close>, and
  not set in a fresh clone. A call without the mark is an error of its own, \<open>Misused\<close>, which nothing else
  produces. The step relation interleaves any number of clones of the middleware and of pending
  futures; the caller of the middleware respects the same contract towards it.
\<close>

section \<open>The Tower contract\<close>

datatype 'a poll = Pending | Ready 'a

record ('s, 'q, 'r, 'e, 'w) tower =
  poll_op :: "'s \<Rightarrow> 'w \<Rightarrow> (unit, 'e) result poll \<times> 's \<times> 'w"
  clone_op :: "'s \<Rightarrow> 's"
  call_op :: "'s \<Rightarrow> 'q \<Rightarrow> 'w \<Rightarrow> ('r, 'e) result \<times> 'w"

datatype 'e call_error = Misused | Failed 'e

record 's handle =
  hnd_value :: 's
  hnd_ready :: bool

definition poll_handle ::
  "('s, 'q, 'r, 'e, 'w) tower \<Rightarrow> 's handle \<Rightarrow> 'w \<Rightarrow> (unit, 'e) result poll \<times> 's handle \<times> 'w" where
  "poll_handle T h w =
     (case poll_op T (hnd_value h) w of
        (p, s, w') \<Rightarrow> (p, \<lparr>hnd_value = s, hnd_ready = (case p of Ready (Ok _) \<Rightarrow> True | _ \<Rightarrow> False)\<rparr>, w'))"

definition clone_handle :: "('s, 'q, 'r, 'e, 'w) tower \<Rightarrow> 's handle \<Rightarrow> 's handle" where
  "clone_handle T h = \<lparr>hnd_value = clone_op T (hnd_value h), hnd_ready = False\<rparr>"

definition call_handle ::
  "('s, 'q, 'r, 'e, 'w) tower \<Rightarrow> 's handle \<Rightarrow> 'q \<Rightarrow> 'w \<Rightarrow> ('r, 'e call_error) result \<times> 'w" where
  "call_handle T h req w =
     (if hnd_ready h then (case call_op T (hnd_value h) req w of (r, w') \<Rightarrow> (map_result id Failed r, w'))
      else (Err Misused, w))"

section \<open>The middlewares\<close>

text \<open>\<open>poll_ready\<close> of every middleware asks its inner service. \<open>call\<close> returns the value its future owns and
  the one \<open>self\<close> keeps.\<close>

definition service_poll_ready ::
  "('s, 'q, 'r, 'e, 'w) tower \<Rightarrow> 's handle \<Rightarrow> 'w \<Rightarrow> (unit, 'e) result poll \<times> 's handle \<times> 'w" where
  "service_poll_ready T self_inner w = poll_handle T self_inner w"

definition mem_swap :: "'a \<times> 'a \<Rightarrow> 'a \<times> 'a" where
  "mem_swap p = (snd p, fst p)"

definition service_call_start :: "('s, 'q, 'r, 'e, 'w) tower \<Rightarrow> 's handle \<Rightarrow> 's handle \<times> 's handle" where
  "service_call_start T self_inner =
     (let inner = clone_handle T self_inner;
          (self_inner', inner') = mem_swap (self_inner, inner)
      in (inner', self_inner'))"

definition buffered_poll_ready ::
  "('s, 'q, 'r, 'e, 'w) tower \<Rightarrow> 's handle \<Rightarrow> 'w \<Rightarrow> (unit, 'e) result poll \<times> 's handle \<times> 'w" where
  "buffered_poll_ready T self_inner w = poll_handle T self_inner w"

definition buffered_call_start :: "('s, 'q, 'r, 'e, 'w) tower \<Rightarrow> 's handle \<Rightarrow> 's handle \<times> 's handle" where
  "buffered_call_start T self_inner =
     (let inner = clone_handle T self_inner;
          (self_inner', inner') = mem_swap (self_inner, inner)
      in (inner', self_inner'))"

text \<open>The futures: what the rest of \<open>call\<close> does with the value it owns.\<close>

definition service_future ::
  "('h, 'b, 'w, 'k, 'c) env \<Rightarrow> ('h, 'x, 'w) settings
    \<Rightarrow> ('s, ('h, 'x, 'i) request, ('h, 'b) response, 'e, 'w) tower
    \<Rightarrow> 's handle \<Rightarrow> ('h, 'x, 'i) request \<Rightarrow> ('k, 'c) rate_tier \<Rightarrow> 'w
    \<Rightarrow> ('h, 'b, 'e call_error, 'w, 'k, 'c) call_result" where
  "service_future env st T inner req rt w =
     service_call env \<lparr>svc_inner = call_handle T inner, svc_rate_tier = rt, svc_settings = st\<rparr> req w"

definition buffered_future ::
  "(request_body \<Rightarrow> nat \<Rightarrow> (bytes, collect_error) result) \<Rightarrow> ('h, 'b, 'w, 'k, 'c) env \<Rightarrow> ('h, 'x, 'w) settings
    \<Rightarrow> u64 \<Rightarrow> ('s, ('h, 'x, bytes) request, ('h, 'b) response, 'e, 'w) tower
    \<Rightarrow> 's handle \<Rightarrow> ('h, 'x, request_body) request \<Rightarrow> ('k, 'c) rate_tier \<Rightarrow> 'w
    \<Rightarrow> ('h, 'b, 'e call_error, 'w, 'k, 'c) call_result" where
  "buffered_future collect_limited env st limit T inner req rt w =
     buffered_call collect_limited env
       \<lparr>bsvc_inner = call_handle T inner, bsvc_rate_tier = rt, bsvc_settings = st, bsvc_max_body_size = limit\<rparr> req w"

text \<open>The cost layer keeps no clone: it asks and calls the value it wraps.\<close>

definition tier_cost_poll_ready :: "('t \<Rightarrow> 'w \<Rightarrow> (unit, 'e) result poll \<times> 't \<times> 'w) \<Rightarrow> 't \<Rightarrow> 'w
    \<Rightarrow> (unit, 'e) result poll \<times> 't \<times> 'w" where
  "tier_cost_poll_ready inner_poll inner w = inner_poll inner w"

definition tier_cost_future ::
  "u32 \<Rightarrow> ('t \<Rightarrow> ('h, 'x, 'i) request \<Rightarrow> 'm \<Rightarrow> 'w \<Rightarrow> 'a) \<Rightarrow> 't \<Rightarrow> ('h, 'x, 'i) request \<Rightarrow> 'm \<Rightarrow> 'w \<Rightarrow> 'a" where
  "tier_cost_future cost inner_call inner req m w = tier_cost_call cost (\<lambda>r. inner_call inner r m w) req"

section \<open>Interleaved use\<close>

text \<open>A clone of the middleware with the mark its own caller goes by, and the whole system: the clones,
  the futures that were started and not finished, the results, and what they share.\<close>

record 's clone =
  cln_granted :: bool
  cln_inner :: "'s handle"

record ('s, 'q, 'r, 'e, 'm, 'w) tower_system =
  clones :: "'s clone list"
  pending :: "('s handle \<times> 'q) list"
  results :: "('r, 'e call_error) result list"
  shared :: 'm
  world :: 'w

definition remove_nth :: "nat \<Rightarrow> 'a list \<Rightarrow> 'a list" where
  "remove_nth i xs = take i xs @ drop (Suc i) xs"

lemma set_remove_nth: "set (remove_nth i xs) \<subseteq> set xs"
  by (auto simp: remove_nth_def dest: in_set_takeD in_set_dropD)

inductive tower_step ::
  "('s handle \<Rightarrow> 's handle) \<Rightarrow> ('s handle \<Rightarrow> 'w \<Rightarrow> (unit, 'e) result poll \<times> 's handle \<times> 'w) \<Rightarrow> ('s handle \<Rightarrow> 's handle \<times> 's handle)
    \<Rightarrow> ('s handle \<Rightarrow> 'q \<Rightarrow> 'm \<Rightarrow> 'w \<Rightarrow> (('r, 'e call_error) result \<times> 'm \<times> 'w) exec)
    \<Rightarrow> ('s, 'q, 'r, 'e, 'm, 'w) tower_system \<Rightarrow> ('s, 'q, 'r, 'e, 'm, 'w) tower_system \<Rightarrow> bool"
  for copy poll start run where
  Poll: "i < length (clones sys) \<Longrightarrow> poll (cln_inner (clones sys ! i)) (world sys) = (p, h, w) \<Longrightarrow>
    tower_step copy poll start run sys
      (sys\<lparr>clones := (clones sys)[i := \<lparr>cln_granted = (p = Ready (Ok ())), cln_inner = h\<rparr>], world := w\<rparr>)"
| Clone: "i < length (clones sys) \<Longrightarrow>
    tower_step copy poll start run sys
      (sys\<lparr>clones := clones sys @ [\<lparr>cln_granted = False,
         cln_inner = copy (cln_inner (clones sys ! i))\<rparr>]\<rparr>)"
| Drop: "tower_step copy poll start run sys (sys\<lparr>clones := remove_nth i (clones sys)\<rparr>)"
| Call: "i < length (clones sys) \<Longrightarrow> cln_granted (clones sys ! i) \<Longrightarrow> start (cln_inner (clones sys ! i)) = (mine, kept) \<Longrightarrow>
    tower_step copy poll start run sys
      (sys\<lparr>clones := (clones sys)[i := \<lparr>cln_granted = False, cln_inner = kept\<rparr>], pending := pending sys @ [(mine, req)]\<rparr>)"
| Finish: "j < length (pending sys) \<Longrightarrow> pending sys ! j = (h, req) \<Longrightarrow> run h req (shared sys) (world sys) = Done (r, m, w) \<Longrightarrow>
    tower_step copy poll start run sys
      (sys\<lparr>pending := remove_nth j (pending sys), results := results sys @ [r], shared := m, world := w\<rparr>)"
| Abandon: "tower_step copy poll start run sys (sys\<lparr>pending := remove_nth j (pending sys)\<rparr>)"
| Elsewhere: "tower_step copy poll start run sys (sys\<lparr>shared := m, world := w\<rparr>)"

definition fresh_system :: "'s \<Rightarrow> 'm \<Rightarrow> 'w \<Rightarrow> ('s, 'q, 'r, 'e, 'm, 'w) tower_system" where
  "fresh_system s m w = \<lparr>clones = [\<lparr>cln_granted = False, cln_inner = \<lparr>hnd_value = s, hnd_ready = False\<rparr>\<rparr>],
     pending = [], results = [], shared = m, world = w\<rparr>"

section \<open>The invariant\<close>

text \<open>A granted clone has a ready inner value, every pending future owns one, and no call was a misuse.\<close>

definition tower_ok :: "('s, 'q, 'r, 'e, 'm, 'w) tower_system \<Rightarrow> bool" where
  "tower_ok sys \<longleftrightarrow>
     list_all (\<lambda>c. cln_granted c \<longrightarrow> hnd_ready (cln_inner c)) (clones sys) \<and>
     list_all (\<lambda>(h, _). hnd_ready h) (pending sys) \<and> Err Misused \<notin> set (results sys)"

lemma tower_ok_fresh: "tower_ok (fresh_system s m w)"
  by (simp add: tower_ok_def fresh_system_def)

lemma list_all_remove_nth: "list_all P xs \<Longrightarrow> list_all P (remove_nth i xs)"
  using set_remove_nth [of i xs] by (auto simp: list_all_iff)

lemma list_all_update: "list_all P xs \<Longrightarrow> P x \<Longrightarrow> list_all P (xs[i := x])"
  using set_update_subset_insert [of xs i x] by (auto simp: list_all_iff)

text \<open>What a middleware owes its inner service: polling sets the mark, \<open>call\<close> hands the polled value to
  its future, and the future does not misuse a ready value.\<close>

locale tower_middleware =
  fixes copy :: "'s handle \<Rightarrow> 's handle"
    and poll :: "'s handle \<Rightarrow> 'w \<Rightarrow> (unit, 'e) result poll \<times> 's handle \<times> 'w"
    and start :: "'s handle \<Rightarrow> 's handle \<times> 's handle"
    and run :: "'s handle \<Rightarrow> 'q \<Rightarrow> 'm \<Rightarrow> 'w \<Rightarrow> (('r, 'e call_error) result \<times> 'm \<times> 'w) exec"
  assumes poll_marks: "poll h w = (Ready (Ok ()), h', w') \<Longrightarrow> hnd_ready h'"
    and start_hands_over: "start h = (mine, kept) \<Longrightarrow> mine = h"
    and run_respects: "hnd_ready h \<Longrightarrow> run h req m w = Done (r, m', w') \<Longrightarrow> r \<noteq> Err Misused"
begin

lemma step_ok:
  assumes "tower_step copy poll start run sys sys'" "tower_ok sys"
  shows "tower_ok sys'"
  using assms(1)
proof cases
  case (Poll i p h w)
  then show ?thesis
    using assms(2) poll_marks by (auto simp: tower_ok_def intro!: list_all_update)
next
  case (Clone i)
  then show ?thesis using assms(2) by (simp add: tower_ok_def)
next
  case (Call i mine kept req)
  then have "hnd_ready mine"
    using assms(2) start_hands_over by (auto simp: tower_ok_def list_all_length)
  then show ?thesis
    using Call assms(2) by (auto simp: tower_ok_def intro!: list_all_update)
next
  case (Finish j h req r m w)
  have "hnd_ready h" using assms(2) Finish(2,3) by (auto simp: tower_ok_def list_all_length)
  then have "r \<noteq> Err Misused" using run_respects Finish(4) by blast
  then show ?thesis
    using Finish(1) assms(2) by (auto simp: tower_ok_def intro: list_all_remove_nth)
qed (use assms(2) in \<open>auto simp: tower_ok_def intro: list_all_remove_nth\<close>)

lemma reachable_ok:
  assumes "(tower_step copy poll start run)\<^sup>*\<^sup>* (fresh_system s m w) sys"
  shows "tower_ok sys"
  using assms by (induction rule: rtranclp_induct) (auto intro: tower_ok_fresh step_ok)

end

section \<open>The middlewares meet it\<close>

lemma poll_handle_marks: "poll_handle T h w = (Ready (Ok ()), h', w') \<Longrightarrow> hnd_ready h'"
  by (auto simp: poll_handle_def split: prod.splits)

lemma call_handle_ready: "hnd_ready h \<Longrightarrow> fst (call_handle T h req w) \<noteq> Err Misused"
  by (cases "fst (call_op T (hnd_value h) req w)") (auto simp: call_handle_def split: prod.split)

text \<open>An error of the middleware is one of its inner service.\<close>

lemma carry_out_Err:
  assumes "carry_out env inner req v = Done (Err e, rt, w)"
  shows "\<exists>w'. fst (inner req w') = Err e"
  using assms
  by (auto simp: carry_out_def forward_def forward_with_headers_def
      split: prod.splits verdict.splits option.splits result.splits) (metis fst_conv)+

lemma service_future_respects:
  assumes "hnd_ready h" "service_future env st T h req rt w = Done (r, rt', w')"
  shows "r \<noteq> Err Misused"
proof
  assume "r = Err Misused"
  then have "\<exists>w'. fst (call_handle T h req w') = Err Misused"
    using assms(2)
    by (auto simp: service_future_def service_call_gate bind_exec_Done_iff split: prod.splits dest: carry_out_Err)
  then show False by (simp add: call_handle_ready [OF assms(1)])
qed

lemma buffered_call_Err:
  assumes "buffered_call collect_limited env svc req w = Done (Err e, rt, w')"
  obtains bs where "size_hint_lower (req_body req) \<le> bsvc_max_body_size svc"
    "collect_limited (req_body req) (unat (bsvc_max_body_size svc)) = Ok bs"
proof (cases "bsvc_max_body_size svc < size_hint_lower (req_body req)")
  case True
  then show ?thesis using assms by (simp add: buffered_call_def Let_def)
next
  case False
  show ?thesis
  proof (cases "collect_limited (req_body req) (unat (bsvc_max_body_size svc))")
    case (Ok bs)
    then show ?thesis using False that by (simp add: not_less)
  next
    case (Err x)
    then show ?thesis using assms False by (cases x) (simp_all add: buffered_call_def Let_def)
  qed
qed

lemma buffered_future_respects:
  assumes "hnd_ready h" "buffered_future collect_limited env st limit T h req rt w = Done (r, rt', w')"
  shows "r \<noteq> Err Misused"
proof
  assume r: "r = Err Misused"
  let ?svc = "\<lparr>bsvc_inner = call_handle T h, bsvc_rate_tier = rt, bsvc_settings = st, bsvc_max_body_size = limit\<rparr>"
  have call: "buffered_call collect_limited env ?svc req w = Done (Err Misused, rt', w')"
    using assms(2) r by (simp add: buffered_future_def)
  obtain bs where "size_hint_lower (req_body req) \<le> limit" "collect_limited (req_body req) (unat limit) = Ok bs"
    using buffered_call_Err [OF call] by auto
  then have "\<exists>req' w''. fst (call_handle T h req' w'') = Err Misused"
    using call
    by (auto simp: buffered_call_gate bind_exec_Done_iff split: prod.splits)
      (blast dest: carry_out_Err [where inner = "call_handle T h"])
  then show False by (simp add: call_handle_ready [OF assms(1)])
qed

interpretation ready_service: tower_middleware "clone_handle T" "service_poll_ready T" "service_call_start T"
    "service_future env st T"
  for T env st
  by unfold_locales
    (auto simp: service_poll_ready_def poll_handle_marks service_call_start_def mem_swap_def Let_def
      dest: service_future_respects)

interpretation ready_buffered: tower_middleware "clone_handle T" "buffered_poll_ready T" "buffered_call_start T"
    "buffered_future collect_limited env st limit T"
  for T collect_limited env st limit
  by unfold_locales
    (auto simp: buffered_poll_ready_def poll_handle_marks buffered_call_start_def mem_swap_def Let_def
      dest: buffered_future_respects)

interpretation ready_cost: tower_middleware "clone_handle T" "tier_cost_poll_ready (service_poll_ready T)"
    "service_call_start T" "tier_cost_future cost (service_future env st T)"
  for T cost env st
  by unfold_locales
    (auto simp: tier_cost_poll_ready_def service_poll_ready_def poll_handle_marks service_call_start_def
      mem_swap_def Let_def tier_cost_future_def tier_cost_call_def dest: service_future_respects)

text \<open>The marks only watch: on a ready value the future does what the service does with the inner service as
  it is, its errors wrapped.\<close>

lemma carry_out_ready:
  assumes "hnd_ready h"
  shows "carry_out env (call_handle T h) req v =
    map_exec (\<lambda>(r, rt', w'). (map_result id Failed r, rt', w')) (carry_out env (call_op T (hnd_value h)) req v)"
proof -
  have call: "call_handle T h req w = (case call_op T (hnd_value h) req w of (r, w') \<Rightarrow> (map_result id Failed r, w'))"
    for w
    using assms by (simp add: call_handle_def)
  show ?thesis
    by (simp add: carry_out_def forward_def forward_with_headers_def call
        split: prod.split verdict.split option.split result.split)
qed

lemma service_future_ready:
  assumes "hnd_ready h"
  shows "service_future env st T h req rt w =
    map_exec (\<lambda>(r, rt', w'). (map_result id Failed r, rt', w'))
      (service_call env \<lparr>svc_inner = call_op T (hnd_value h), svc_rate_tier = rt, svc_settings = st\<rparr> req w)"
proof -
  obtain ident w1 where i: "identify (id_source st) (req_headers (req_parts req)) w = (ident, w1)" by fastforce
  show ?thesis
    by (cases "gate env rt st ident (req_parts req) w1")
      (simp_all add: service_future_def service_call_gate i carry_out_ready [OF assms])
qed

section \<open>Properties\<close>

text \<open>C19: the middleware respects Tower's contract towards the service it wraps. Starting from one fresh
  middleware, whatever the order in which its clones are polled, called, cloned and dropped, and its
  pending futures finish or are abandoned, as long as every call on the middleware follows a
  \<open>Ready(Ok(()))\<close> of that clone: every pending future owns an inner value that was polled ready and
  not called since, and no inner value is ever called without it. The same holds behind the cost layer.\<close>

theorem inner_called_only_when_ready:
  assumes "(tower_step (clone_handle T) (service_poll_ready T) (service_call_start T) (service_future env st T))\<^sup>*\<^sup>*
      (fresh_system s rt w) sys"
    and "(tower_step (clone_handle T) (tier_cost_poll_ready (service_poll_ready T)) (service_call_start T)
        (tier_cost_future cost (service_future env st T)))\<^sup>*\<^sup>* (fresh_system s rt w) sys'"
  shows "Err Misused \<notin> set (results sys) \<and> list_all (\<lambda>(h, _). hnd_ready h) (pending sys) \<and>
    Err Misused \<notin> set (results sys') \<and> list_all (\<lambda>(h, _). hnd_ready h) (pending sys')"
  using ready_service.reachable_ok [OF assms(1)] ready_cost.reachable_ok [OF assms(2)]
  by (simp add: tower_ok_def)

type_synonym 'i demo_request = "((rstring \<times> rstring) list, unit, 'i) request"
type_synonym demo_response = "((rstring \<times> rstring) list, rstring) response"

text \<open>A service that is always ready and answers every call with an error, and a middleware that lets
  unidentified requests pass, for the witnesses.\<close>

definition demo_tower_of :: "(unit, 'q, 'r, unit, nat) tower" where
  "demo_tower_of = \<lparr>poll_op = (\<lambda>s w. (Ready (Ok ()), s, w)), clone_op = (\<lambda>s. s), call_op = (\<lambda>s q w. (Err (), Suc w))\<rparr>"

definition demo_lenient :: "(unit, unit) rate_tier" where
  "demo_lenient = demo_strict\<lparr>on_missing := MissingAllow\<rparr>"

definition demo_tower :: "(unit, unit demo_request, demo_response, unit, nat) tower" where
  "demo_tower = demo_tower_of"

definition demo_body_tower :: "(unit, bytes demo_request, demo_response, unit, nat) tower" where
  "demo_body_tower = demo_tower_of"

definition demo_anonymous :: "unit demo_request" where
  "demo_anonymous = \<lparr>req_parts = \<lparr>req_headers = [], tier_cost_ext = None, req_rest = ()\<rparr>, req_body = ()\<rparr>"

definition demo_answered :: "(unit, 'q, 'r, unit, (unit, unit) rate_tier, nat) tower_system" where
  "demo_answered = \<lparr>clones = [\<lparr>cln_granted = False, cln_inner = \<lparr>hnd_value = (), hnd_ready = False\<rparr>\<rparr>],
     pending = [], results = [Err (Failed ())], shared = demo_lenient, world = 1\<rparr>"

lemma demo_future:
  "service_future demo_env demo_settings demo_tower \<lparr>hnd_value = (), hnd_ready = True\<rparr> 
     (demo_anonymous\<lparr>req_parts := (req_parts demo_anonymous)\<lparr>tier_cost_ext := c\<rparr>\<rparr>) demo_lenient 0
   = Done (Err (Failed ()), demo_lenient, 1)"
  by (simp add: service_future_def service_call_gate demo_anonymous_def demo_settings_def closure_identifier_def
      header_identifier_def
      gate_def resolve_identity_def demo_lenient_def forward_def call_handle_def demo_tower_def demo_tower_of_def)

text \<open>A poll, a call and the end of its future.\<close>

lemma tower_demo_run:
  assumes "poll \<lparr>hnd_value = (), hnd_ready = False\<rparr> 0 = (Ready (Ok ()), \<lparr>hnd_value = (), hnd_ready = True\<rparr>, 0)"
    and "start \<lparr>hnd_value = (), hnd_ready = True\<rparr> = (\<lparr>hnd_value = (), hnd_ready = True\<rparr>, \<lparr>hnd_value = (), hnd_ready = False\<rparr>)"
    and "run \<lparr>hnd_value = (), hnd_ready = True\<rparr> req demo_lenient 0 = Done (Err (Failed ()), demo_lenient, 1)"
  shows "(tower_step copy poll start run)\<^sup>*\<^sup>* (fresh_system () demo_lenient 0) demo_answered"
proof -
  let ?fresh = "fresh_system () demo_lenient 0" and ?ready = "\<lparr>hnd_value = (), hnd_ready = True\<rparr>"
  let ?polled = "?fresh\<lparr>clones := [\<lparr>cln_granted = True, cln_inner = ?ready\<rparr>]\<rparr>"
  let ?called = "?fresh\<lparr>pending := [(?ready, req)]\<rparr>"
  have "tower_step copy poll start run ?fresh ?polled"
    using tower_step.Poll [of 0 ?fresh poll "Ready (Ok ())" ?ready 0] assms(1) by (simp add: fresh_system_def)
  moreover have "tower_step copy poll start run ?polled ?called"
    using tower_step.Call [of 0 ?polled start ?ready "\<lparr>hnd_value = (), hnd_ready = False\<rparr>"] assms(2) by (simp add: fresh_system_def)
  moreover have "tower_step copy poll start run ?called demo_answered"
    using tower_step.Finish [of 0 ?called ?ready req run] assms(3)
    by (simp add: fresh_system_def demo_answered_def remove_nth_def)
  ultimately show ?thesis by (meson converse_rtranclp_into_rtranclp rtranclp.rtrancl_refl)
qed

lemma demo_poll:
  "service_poll_ready demo_tower \<lparr>hnd_value = (), hnd_ready = False\<rparr> 0
    = (Ready (Ok ()), \<lparr>hnd_value = (), hnd_ready = True\<rparr>, 0)"
  "service_call_start demo_tower \<lparr>hnd_value = (), hnd_ready = True\<rparr>
    = (\<lparr>hnd_value = (), hnd_ready = True\<rparr>, \<lparr>hnd_value = (), hnd_ready = False\<rparr>)"
  by (simp_all add: service_poll_ready_def poll_handle_def demo_tower_def demo_tower_of_def service_call_start_def mem_swap_def
      clone_handle_def)

lemma demo_cost_future:
  "tier_cost_future 5 (service_future demo_env demo_settings demo_tower) \<lparr>hnd_value = (), hnd_ready = True\<rparr>
     demo_anonymous demo_lenient 0 = Done (Err (Failed ()), demo_lenient, 1)"
  using demo_future [of "Some 5"] by (simp add: tier_cost_future_def tier_cost_call_def demo_anonymous_def)

lemma demo_service_run:
  "(tower_step (clone_handle demo_tower) (service_poll_ready demo_tower) (service_call_start demo_tower)
      (service_future demo_env demo_settings demo_tower))\<^sup>*\<^sup>* (fresh_system () demo_lenient 0) demo_answered"
  by (rule tower_demo_run [where req = demo_anonymous])
    (use demo_poll demo_future [of None] in \<open>simp_all add: demo_anonymous_def\<close>)

lemma demo_cost_run:
  "(tower_step (clone_handle demo_tower) (tier_cost_poll_ready (service_poll_ready demo_tower))
      (service_call_start demo_tower) (tier_cost_future 5 (service_future demo_env demo_settings demo_tower)))\<^sup>*\<^sup>*
     (fresh_system () demo_lenient 0) demo_answered"
  by (rule tower_demo_run [where req = demo_anonymous])
    (simp_all add: demo_poll tier_cost_poll_ready_def demo_cost_future)

theorem inner_called_only_when_ready_witness:
  "results demo_answered = [Err (Failed ())] \<and> Err Misused \<notin> set (results demo_answered)"
  using inner_called_only_when_ready [OF demo_service_run demo_cost_run] by (simp add: demo_answered_def)

text \<open>The buffered middleware respects the contract as well: it reads the body before it calls the inner
  service, and the value it then calls is the one that was polled ready.\<close>

theorem buffered_called_only_when_ready:
  assumes "(tower_step (clone_handle T) (buffered_poll_ready T) (buffered_call_start T)
      (buffered_future collect_limited env st limit T))\<^sup>*\<^sup>* (fresh_system s rt w) sys"
  shows "Err Misused \<notin> set (results sys) \<and> list_all (\<lambda>(h, _). hnd_ready h) (pending sys)"
  using ready_buffered.reachable_ok [OF assms] by (simp add: tower_ok_def)

lemma demo_buffered_run:
  "(tower_step (clone_handle demo_body_tower) (buffered_poll_ready demo_body_tower) (buffered_call_start demo_body_tower)
      (buffered_future demo_collect demo_env demo_settings 2 demo_body_tower))\<^sup>*\<^sup>*
     (fresh_system () demo_lenient 0) demo_answered"
proof (rule tower_demo_run)
  show "buffered_future demo_collect demo_env demo_settings 2 demo_body_tower \<lparr>hnd_value = (), hnd_ready = True\<rparr>
     \<lparr>req_parts = req_parts demo_anonymous, req_body = \<lparr>size_hint_lower = 0, chunks = [[1], [2]], body_fails = False\<rparr>\<rparr>
     demo_lenient 0 = Done (Err (Failed ()), demo_lenient, 1)"
    by (simp add: buffered_future_def buffered_call_gate [where bs = "[1, 2]"] demo_collect_def demo_anonymous_def
        demo_settings_def closure_identifier_def header_identifier_def gate_def resolve_identity_def
        demo_lenient_def forward_def call_handle_def demo_body_tower_def demo_tower_of_def)
qed (simp_all add: buffered_poll_ready_def poll_handle_def demo_body_tower_def demo_tower_of_def buffered_call_start_def mem_swap_def
      clone_handle_def)

theorem buffered_called_only_when_ready_witness:
  "results demo_answered = [Err (Failed ())] \<and> Err Misused \<notin> set (results demo_answered)"
  using buffered_called_only_when_ready [OF demo_buffered_run] by (simp add: demo_answered_def)

end
