(* ===== verification/Redis_Delivery.thy ===== *)
theory Redis_Delivery
  imports Redis_Storage
begin

text \<open>
  \<open>RedisStorage\<close> on a connection that fails now and then (\<open>storage/redis.rs\<close> with the connections of
  \<open>storage/redis/test_conns.rs\<close>): each call of a run may be answered, be answered too late, never arrive or be
  refused. A late call has been counted by the server although its caller saw an error, so what callers
  are told and what the server counts differ; the rate guarantee is about what callers are told.
\<close>

section \<open>Runs with failed deliveries\<close>

text \<open>One call: the server's clock says \<open>now\<close> when the call is made.\<close>

definition delivered_check ::
  "digest_fn \<Rightarrow> lua \<Rightarrow> (script_error \<Rightarrow> rstring) \<Rightarrow> redis_storage \<Rightarrow> delivery \<Rightarrow> fake_redis storage_op" where
  "delivered_check sha1 lua describe st delivery r key quota cost now =
     redis_check_and_update sha1 (fake_conn lua describe delivery) st (r\<lparr>now_us := unat (now div 1000)\<rparr>) key quota cost now"

lemma delivered_is_redis_op: "delivered_check sha1 lua describe st Delivered = redis_op sha1 lua describe st"
  by (simp add: fun_eq_iff delivered_check_def redis_op_def)

text \<open>What the callers of a run are told, in order.\<close>

fun delivery_run ::
  "digest_fn \<Rightarrow> lua \<Rightarrow> (script_error \<Rightarrow> rstring) \<Rightarrow> redis_storage \<Rightarrow> (storage_key \<Rightarrow> quota) \<Rightarrow> fake_redis
    \<Rightarrow> (storage_key store_event \<times> delivery) list \<Rightarrow> (storage_key \<times> cell_request \<times> storage_outcome) list exec" where
  "delivery_run sha1 lua describe st Q r [] = Done []"
| "delivery_run sha1 lua describe st Q r ((Request key c t, delivery) # es) =
     bind_exec (delivered_check sha1 lua describe st delivery r key (Q key) (of_nat c) (of_nat (t * 1000))) (\<lambda>(out, r').
     map_exec (\<lambda>outs. (key, (c, t), out) # outs) (delivery_run sha1 lua describe st Q r' es))"
| "delivery_run sha1 lua describe st Q r ((Maintain t, delivery) # es) =
     delivery_run sha1 lua describe st Q (red_tick r t) es"

definition told_allowed :: "storage_key \<Rightarrow> nat \<Rightarrow> nat \<Rightarrow> (storage_key \<times> cell_request \<times> storage_outcome) list \<Rightarrow> nat" where
  "told_allowed key lo hi outs =
     (\<Sum>(k, (c, t), out) \<leftarrow> outs. if k = key \<and> reported_allowed out \<and> lo \<le> t \<and> t \<le> hi then c else 0)"

text \<open>The events that reach the server.\<close>

fun arrives :: "storage_key store_event \<times> delivery \<Rightarrow> bool" where
  "arrives (Maintain t, d) = True"
| "arrives (Request k c t, Delivered) = True"
| "arrives (Request k c t, LateAnswer) = True"
| "arrives (Request k c t, NeverAnswers) = False"
| "arrives (Request k c t, Refused e) = False"

definition arrived :: "(storage_key store_event \<times> delivery) list \<Rightarrow> storage_key store_event list" where
  "arrived es = map fst (filter arrives es)"

lemma arrived_simps [simp]:
  "arrived [] = []"
  "arrived (x # es) = (if arrives x then fst x # arrived es else arrived es)"
  by (simp_all add: arrived_def)

lemma set_arrived: "set (arrived es) \<subseteq> fst ` set es"
  by (auto simp: arrived_def)

lemma arrived_event: "e \<in> set (arrived es) \<Longrightarrow> e \<in> fst ` set es"
  using set_arrived by blast

lemma sorted_arrived: "sorted (map (event_time \<circ> fst) es) \<Longrightarrow> sorted (map event_time (arrived es))"
  by (induction es) (auto dest!: subsetD [OF set_arrived])

section \<open>What callers are told and what the server counts\<close>

lemma delivered_check_now [simp]:
  "delivered_check sha1 lua describe st d (r\<lparr>now_us := x\<rparr>) = delivered_check sha1 lua describe st d r"
  by (simp add: fun_eq_iff delivered_check_def)

lemma red_tick_now [simp]: "red_tick (r\<lparr>now_us := x\<rparr>) t = red_tick r t"
  by (simp add: red_tick_def)

lemma delivered_check_cases:
  assumes "limited_quota q"
  obtains out r' where "delivered_check sha1 lua describe st Delivered r key q cost now = Done (out, r')"
    "\<exists>e. delivered_check sha1 lua describe st LateAnswer r key q cost now = Done (Err e, r')"
    "\<exists>e. delivered_check sha1 lua describe st NeverAnswers r key q cost now = Done (Err e, r\<lparr>now_us := unat (now div 1000)\<rparr>)"
    "\<And>msg. \<exists>e. delivered_check sha1 lua describe st (Refused msg) r key q cost now
      = Done (Err e, r\<lparr>now_us := unat (now div 1000)\<rparr>)"
proof -
  have "\<exists>out r'. delivered_check sha1 lua describe st Delivered r key q cost now = Done (out, r')"
    by (auto simp: delivered_check_def redis_check_and_update_def make_call_eq [OF assms] fake_conn_def
        split: prod.split result.split)
  then obtain out r' where d: "delivered_check sha1 lua describe st Delivered r key q cost now = Done (out, r')"
    by blast
  show thesis
    by (rule that [OF d]; use d in \<open>auto simp: delivered_check_def redis_check_and_update_def make_call_eq [OF assms]
        fake_conn_def split: prod.splits result.splits\<close>)
qed

definition limited_requests :: "(storage_key \<Rightarrow> quota) \<Rightarrow> storage_key store_event list \<Rightarrow> bool" where
  "limited_requests Q es \<longleftrightarrow> (\<forall>k c t. Request k c t \<in> set es \<longrightarrow> limited_quota (Q k))"

lemma red_step_delivered:
  assumes "limited_quota (Q key)"
    and "delivered_check sha1 lua describe st Delivered r key (Q key) (of_nat c) (of_nat (t * 1000)) = Done (out, r')"
  shows "red_step sha1 lua describe st Q r key c t = (reported_allowed out, r')"
  using assms(2) unfolding red_step_def delivered_is_redis_op
  by (cases out) (auto split: result.split)

lemma store_run_now:
  assumes "limited_requests Q es"
  shows "store_run (red_step sha1 lua describe st Q) red_tick (r\<lparr>now_us := x\<rparr>) es
    = store_run (red_step sha1 lua describe st Q) red_tick r es"
proof (cases es)
  case (Cons e es')
  show ?thesis
  proof (cases e)
    case (Request k c t)
    then have lq: "limited_quota (Q k)" using assms Cons by (simp add: limited_requests_def)
    then obtain out r' where d: "delivered_check sha1 lua describe st Delivered r k (Q k) (of_nat c) (of_nat (t * 1000))
        = Done (out, r')"
      using delivered_check_cases by metis
    show ?thesis
      using red_step_delivered [where r = r and Q = Q and key = k, OF lq d] red_step_delivered [where r = "r\<lparr>now_us := x\<rparr>" and Q = Q and key = k and c = c and t = t and out = out
          and r' = r', OF lq, unfolded delivered_check_now, OF d]
      by (simp add: Cons Request)
  qed (simp add: Cons)
qed simp

text \<open>What the callers are told to be allowed is part of what the server admits to the calls that arrive.\<close>

lemma told_within_counted:
  assumes "limited_requests Q (map fst es)"
  shows "\<exists>outs. delivery_run sha1 lua describe st Q r es = Done outs \<and> told_allowed key lo hi outs
    \<le> admitted_between lo hi (requests_of key (store_run (red_step sha1 lua describe st Q) red_tick r (arrived es)))
        (decisions_of key (store_run (red_step sha1 lua describe st Q) red_tick r (arrived es)))"
  using assms
proof (induction es arbitrary: r)
  case Nil
  then show ?case by (simp add: told_allowed_def)
next
  case (Cons x es)
  obtain e dl where x: "x = (e, dl)" by fastforce
  have rest: "limited_requests Q (map fst es)" and arr: "limited_requests Q (arrived es)"
    using Cons.prems arrived_event unfolding limited_requests_def by fastforce+
  note IH = Cons.IH [OF rest]
  show ?case
  proof (cases e)
    case (Maintain t)
    then show ?thesis using IH [of "red_tick r t"] x by simp
  next
    case (Request k c t)
    then have lq: "limited_quota (Q k)" using Cons.prems x by (simp add: limited_requests_def)
    obtain out r' where d: "delivered_check sha1 lua describe st Delivered r k (Q k) (of_nat c) (of_nat (t * 1000))
        = Done (out, r')"
      "\<exists>e. delivered_check sha1 lua describe st LateAnswer r k (Q k) (of_nat c) (of_nat (t * 1000)) = Done (Err e, r')"
      "\<exists>e. delivered_check sha1 lua describe st NeverAnswers r k (Q k) (of_nat c) (of_nat (t * 1000))
        = Done (Err e, r\<lparr>now_us := unat (of_nat (t * 1000) div 1000 :: u64)\<rparr>)"
      "\<And>msg. \<exists>e. delivered_check sha1 lua describe st (Refused msg) r k (Q k) (of_nat c) (of_nat (t * 1000))
        = Done (Err e, r\<lparr>now_us := unat (of_nat (t * 1000) div 1000 :: u64)\<rparr>)"
      using delivered_check_cases [OF lq] by metis
    note step = red_step_delivered [where r = r and Q = Q and key = k, OF lq d(1)]
    show ?thesis
    proof (cases dl)
      case Delivered
      then show ?thesis using IH [of r'] d(1) step x Request by (auto simp: told_allowed_def)
    next
      case LateAnswer
      then show ?thesis using IH [of r'] d(2) step x Request by (fastforce simp: told_allowed_def)
    next
      case NeverAnswers
      then show ?thesis
        using IH [of "r\<lparr>now_us := unat (of_nat (t * 1000) div 1000 :: u64)\<rparr>"] d(3) x Request
        by (auto simp: told_allowed_def store_run_now [OF arr])
    next
      case (Refused msg)
      then show ?thesis
        using IH [of "r\<lparr>now_us := unat (of_nat (t * 1000) div 1000 :: u64)\<rparr>"] d(4) [of msg] x Request
        by (auto simp: told_allowed_def store_run_now [OF arr])
    qed
  qed
qed

section \<open>Properties\<close>

text \<open>C4: the rate guarantee of \<open>RedisStorage\<close> on an unreliable connection. Take any sequence of requests at
  non-decreasing times on an empty server, where each call may be answered, answered after the
  timeout, lost or refused, and Redis evicts expired keys at any points. The run never panics, and in
  any span of time the cost its callers are told to be allowed for a key, times the quota's own emission interval, is at most the
  span plus the quota's burst: failed calls never make room for more.\<close>

theorem delivery_rate_guarantee:
  assumes "lua_ok lua" "inj_on (redis_key sha1 st) K"
    and "sorted (map (event_time \<circ> fst) es)" "red_requests_ok K Q (map fst es)"
    and "limited_quota (Q key)" "2 * bo_us (Q key) \<le> 2 ^ 53"
  shows "\<exists>outs. delivery_run sha1 lua describe st Q fake_redis_default es = Done outs \<and>
    ei_nat (Q key) * told_allowed key lo hi outs \<le> 1000 * (hi - lo) + bo_nat (Q key)"
proof -
  have ok: "red_requests_ok K Q (arrived es)"
    using assms(4) by (auto simp: red_requests_ok_def dest!: arrived_event)
  have "limited_requests Q (map fst es)" using assms(4) by (auto simp: limited_requests_def red_requests_ok_def)
  then obtain outs where outs: "delivery_run sha1 lua describe st Q fake_redis_default es = Done outs"
    "told_allowed key lo hi outs \<le> admitted_between lo hi
        (requests_of key (store_run (red_step sha1 lua describe st Q) red_tick fake_redis_default (arrived es)))
        (decisions_of key (store_run (red_step sha1 lua describe st Q) red_tick fake_redis_default (arrived es)))"
      (is "_ \<le> ?counted")
    using told_within_counted by metis
  have "ei_us (Q key) * ?counted \<le> hi - lo + bo_us (Q key)"
    using red.span_bound [OF red_proper [OF assms(1,2) sorted_arrived [OF assms(3)] ok],
        where s = fake_redis_default and k = key and describe = describe and ?t0.0 = lo and ?t1.0 = hi] by simp
  then have "ei_us (Q key) * told_allowed key lo hi outs \<le> hi - lo + bo_us (Q key)"
    using outs(2) by (meson le_trans mult_le_mono2)
  moreover have q: "0 + 2 * bo_us (Q key) \<le> exact" using assms(6) by simp
  ultimately have "ei_nat (Q key) * told_allowed key lo hi outs \<le> 1000 * (hi - lo) + bo_nat (Q key)"
    unfolding bo_nat_of_us [OF assms(5) q] call_ok_us(2) [OF assms(5) le0 q]
    by - (rule microsecond_bound, assumption, rule ei_us_covers(1))
  then show ?thesis using outs(1) by blast
qed

text \<open>Four requests of which the first is lost and the second answered late: the server counts three.\<close>

definition demo_deliveries :: "(storage_key store_event \<times> delivery) list" where
  "demo_deliveries = [(Request demo_key 1 1, NeverAnswers), (Request demo_key 1 2, LateAnswer),
     (Request demo_key 1 3, Delivered), (Request demo_key 1 4, Delivered)]"

theorem delivery_rate_guarantee_witness:
  "\<exists>outs. delivery_run demo_sha1 reference_lua (\<lambda>_. []) demo_redis (\<lambda>_. three_per_minute) fake_redis_default
      demo_deliveries = Done outs \<and>
    20000000000 * told_allowed demo_key 0 4 outs \<le> 1000 * (4 - 0) + 60000000000"
proof -
  have "red_requests_ok UNIV (\<lambda>_. three_per_minute) (map fst demo_deliveries)"
    using three_per_minute_limited
    by (auto simp: red_requests_ok_def demo_deliveries_def three_per_minute_us) (simp_all add: three_per_minute_def)
  then show ?thesis
    using delivery_rate_guarantee [OF reference_lua_ok demo_redis_inj, where es = demo_deliveries and K = UNIV and
        Q = "\<lambda>_. three_per_minute" and key = demo_key and describe = "\<lambda>_. []" and lo = 0 and hi = 4]
      three_per_minute_limited
    by (simp add: three_per_minute_nat three_per_minute_us demo_deliveries_def)
qed

end
