(* ===== verification/Redis_Memory.thy ===== *)
theory Redis_Memory
  imports Redis_Storage
begin

text \<open>
  \<open>RedisStorage\<close> and \<open>MemoryStorage\<close> side by side: a simulation between the server's keyspace, in
  microseconds, and the in-memory map, in nanoseconds. Where quotas and times are whole microseconds the
  two storages give the same answers; this is what the repository's test suites compare on samples.
\<close>

section \<open>The simulation\<close>

text \<open>A check of \<open>MemoryStorage\<close> when the quota and the times are whole microseconds.\<close>

lemma memory_op_micros:
  assumes q: "limited_quota q" "ei_nat q = 1000 * e" "bo_nat q = 1000 * b" "b = e * unat (max_burst q)"
    and now: "unat now = 1000 * t" and cost: "unat cost = c"
    and L: "max (mem_tat m key) (1000 * t) = 1000 * L" and small: "1000 * (L + e * c) \<le> u64_max"
  defines "new \<equiv> L + e * c"
  shows "memory_check_and_update m key q cost now = Done (
    if new \<le> t + b
    then (Ok (Ok \<lparr>info_limit = max_burst q, remaining = of_nat ((b - (new - t)) div e),
                  info_reset_after = duration_of_nanos ((new - t) * 1000)\<rparr>),
          m\<lparr>mem_state := (mem_state m)(entry_of key \<mapsto> of_nat (1000 * new))\<rparr>)
    else (Ok (Err \<lparr>lim_limit = max_burst q, retry_after = duration_of_nanos ((new - b - t) * 1000),
                  lim_reset_after = duration_of_nanos ((L - t) * 1000)\<rparr>), m))"
proof -
  have e: "0 < e" using ei_nat_pos [OF q(1)] q(2) by simp
  have tL: "t \<le> L" using L by linarith
  have nt: "sat_next (1000 * e) (mem_tat m key) (1000 * t) c = 1000 * new"
    using L small by (simp add: sat_next_def gcra_next_def new_def distrib_left)
  have nat: "unat (of_nat (1000 * e) :: u64) = 1000 * e" "unat (of_nat (1000 * b) :: u64) = 1000 * b"
    using unat_ei_nat [of q] unat_bo_nat [of q] q by simp_all
  have limit: "(ucast (of_nat (1000 * b) div of_nat (1000 * e) :: u64) :: u32) = max_burst q"
  proof (rule word_eq_unatI)
    have "unat (of_nat (1000 * b) div of_nat (1000 * e) :: u64) = 1000 * b div (1000 * e)"
      by (simp only: unat_div nat)
    also have "\<dots> = unat (max_burst q)" using e unfolding q(4) by simp
    finally show "unat (ucast (of_nat (1000 * b) div of_nat (1000 * e) :: u64) :: u32) = unat (max_burst q)"
      using unat_u32_bound [of "max_burst q"] by (simp add: unat_u64_to_u32)
  qed
  have dur: "from_nanos (of_nat (1000 * x)) = duration_of_nanos (x * 1000)" if "x \<le> L + e * c" for x
    using that small by (simp only: from_nanos_def) (subst unat_of_nat_u64, auto simp: mult.commute)
  have rem: "(1000 * t + 1000 * b - 1000 * new) div (1000 * e) = (b - (new - t)) div e" if "t \<le> new"
  proof -
    have "1000 * t + 1000 * b - 1000 * new = 1000 * (b - (new - t))" using that by simp
    then show ?thesis by (simp only: div_mult_mult1)
  qed
  have diffs: "1000 * new - 1000 * t = 1000 * (new - t)" "1000 * new - 1000 * b - 1000 * t = 1000 * (new - b - t)"
    "max (mem_tat m key) (1000 * t) - 1000 * t = 1000 * (L - t)"
    using L by (simp_all add: diff_mult_distrib2)
  have ds: "from_nanos (of_nat (1000 * (new - t))) = duration_of_nanos ((new - t) * 1000)"
    "from_nanos (of_nat (1000 * (new - b - t))) = duration_of_nanos ((new - b - t) * 1000)"
    "from_nanos (of_nat (1000 * (L - t))) = duration_of_nanos ((L - t) * 1000)"
    by (rule dur, simp add: new_def)+
  have le: "1000 * new \<le> 1000 * t + 1000 * b \<longleftrightarrow> new \<le> t + b" by linarith
  have nz: "(of_nat (1000 * e) :: u64) \<noteq> 0" using nat(1) e by auto
  note eq = check_gcra_eq [where tat = "mem_state m (entry_of key)" and now = now and cost = cost
        and bo = "of_nat (1000 * b)", OF nz, unfolded nat now cost mem_tat_def [symmetric],
      unfolded nt diffs limit le]
  have tn: "t \<le> new" using tL by (simp add: new_def)
  show ?thesis
    unfolding memory_check_limited [OF q(1)] q(2,3) eq ds
    using rem [OF tn] by (simp del: of_nat_mult of_nat_diff)
qed

text \<open>The calls both storages are compared on: quotas whose interval is a whole number of microseconds, at
  times that are, and within the range of \<open>red_requests_ok\<close>.\<close>

definition micros_calls_ok ::
  "storage_key set \<Rightarrow> (storage_key \<Rightarrow> quota) \<Rightarrow> (storage_key \<times> quota \<times> u32 \<times> nanos) list \<Rightarrow> bool" where
  "micros_calls_ok K Q calls \<longleftrightarrow> list_all (\<lambda>(key, q, cost, now).
     key \<in> K \<and> q = Q key \<and> limited_quota q \<and> 1000 dvd ei_nat q \<and> cost \<le> max_burst q \<and>
     1000 dvd unat now \<and> unat now div 1000 + 2 * bo_us q \<le> 2 ^ 53) calls"

definition call_time :: "storage_key \<times> quota \<times> u32 \<times> nanos \<Rightarrow> nat" where
  "call_time call = (case call of (key, q, cost, now) \<Rightarrow> unat now)"

text \<open>Both storages hold the same arrival times, as far as they lie after \<open>t\<close> microseconds.\<close>

definition same_state ::
  "digest_fn \<Rightarrow> redis_storage \<Rightarrow> storage_key set \<Rightarrow> (storage_key \<Rightarrow> quota) \<Rightarrow> nat \<Rightarrow> fake_redis \<Rightarrow> memory_storage \<Rightarrow> bool" where
  "same_state sha1 st K Q t r m \<longleftrightarrow> red_inv sha1 st K r \<and>
     (\<forall>key \<in> K. max (mem_tat m key) (1000 * t) = 1000 * max (red_tat sha1 st K r key) t \<and>
        red_tat sha1 st K r key \<le> t + bo_us (Q key))"

lemma same_state_later:
  assumes "same_state sha1 st K Q t r m" "t \<le> t'"
  shows "same_state sha1 st K Q t' r m"
  unfolding same_state_def
proof (intro conjI ballI)
  show "red_inv sha1 st K r" using assms(1) by (simp add: same_state_def)
  fix key assume "key \<in> K"
  then have "max (mem_tat m key) (1000 * t) = 1000 * max (red_tat sha1 st K r key) t"
    "red_tat sha1 st K r key \<le> t + bo_us (Q key)"
    using assms(1) by (auto simp: same_state_def)
  then show "max (mem_tat m key) (1000 * t') = 1000 * max (red_tat sha1 st K r key) t'"
    "red_tat sha1 st K r key \<le> t' + bo_us (Q key)"
    using assms(2) by linarith+
qed

lemma same_state_step:
  assumes valid: "red_valid sha1 lua st K Q key c t" and same: "same_state sha1 st K Q t r m"
    and dvd: "1000 dvd ei_nat (Q key)" and now: "unat now = 1000 * t" and cost: "unat cost = c"
  shows "\<exists>d r' m'. redis_op sha1 lua describe st r key (Q key) cost now = Done (Ok d, r') \<and>
    memory_check_and_update m key (Q key) cost now = Done (Ok d, m') \<and> same_state sha1 st K Q t r' m'"
proof -
  define e b T where "e = ei_us (Q key)" and "b = bo_us (Q key)" and "T = red_tat sha1 st K r key"
  define L new where "L = max T t" and "new = L + e * c"
  have v: "inj_on (redis_key sha1 st) K" "key \<in> K" "limited_quota (Q key)" "c \<le> unat (max_burst (Q key))"
    "t + 2 * b \<le> exact"
    using valid by (auto simp: red_valid_def b_def)
  have inv: "red_inv sha1 st K r" using same by (simp add: same_state_def)
  have ei: "ei_nat (Q key) = 1000 * e" using dvd by (simp add: e_def ei_us_def div_up_def)
  have b: "b = e * unat (max_burst (Q key))"
    using call_ok_us(2) [OF v(3,4) v(5) [unfolded b_def]] by (simp add: b_def e_def)
  have bo: "bo_nat (Q key) = 1000 * b"
    using bo_nat_of_us [OF v(3) v(5) [unfolded b_def]] ei b by simp
  have T: "T \<le> t + b" and L: "max (mem_tat m key) (1000 * t) = 1000 * L"
    using same v(2) by (auto simp: same_state_def T_def b_def L_def)
  have cap: "min (max T t) (t + b) = L" "\<not> t + b < T" using T by (auto simp: L_def)
  have ec: "e * c \<le> b" unfolding b using v(4) by (rule mult_le_mono2)
  have small: "1000 * (L + e * c) \<le> u64_max" using T ec v(5) by (auto simp: L_def)
  have nd: "unat now div 1000 = t" using now by simp
  note red = redis_op_eq [where describe = describe, OF valid inv nd cost,
      folded T_def e_def b_def, unfolded cap(1), folded new_def]
  note mem = memory_op_micros [OF v(3) ei bo b now cost L small, folded new_def]
  let ?r = "r\<lparr>now_us := t\<rparr>" and ?rk = "redis_key sha1 st key"
  let ?m = "m\<lparr>mem_state := (mem_state m)(entry_of key \<mapsto> of_nat (1000 * new))\<rparr>"
  have same_r: "same_state sha1 st K Q t ?r m" using same by (simp add: same_state_def)
  show ?thesis
  proof (cases "new \<le> t + b")
    case False
    then show ?thesis using red mem cap(2) same_r by auto
  next
    case True
    have mem_tat: "mem_tat ?m k = (if k = key then 1000 * new else mem_tat m k)" for k
      using small by (simp add: mem_tat_def entry_of_inj new_def unat_of_nat_u64 del: of_nat_mult of_nat_add)
    have tn: "t \<le> new" by (simp add: new_def L_def)
    define r' where "r' = (if t < new then set_key ?r ?rk (decimal new) (Some (div_up (new - t) 1000)) else ?r)"
    have "red_inv sha1 st K r'"
      using inv True v(5) div_up_covers(1) [of 1000 "new - t"] unfolding r'_def by (auto intro!: red_inv_set)
    moreover have red_tat: "red_tat sha1 st K r' k = (if k = key \<and> t < new then new else red_tat sha1 st K r k)" for k
      unfolding r'_def by (auto simp: red_tat_set [OF v(1,2)])
    moreover have "T \<le> new" by (simp add: new_def L_def)
    then have "max (if t < new then new else T) t = new" "(if t < new then new else T) \<le> t + b"
      using tn True by (auto simp: max_def)
    ultimately have "same_state sha1 st K Q t r' ?m"
      using same unfolding same_state_def mem_tat
      by (simp add: red_tat max_absorb1 T_def b_def split: if_splits)
    then show ?thesis using red mem True by (auto simp: r'_def [symmetric])
  qed
qed

lemma same_runs:
  assumes "lua_ok lua" "inj_on (redis_key sha1 st) K" "micros_calls_ok K Q calls"
    and "sorted (map call_time calls)" "\<forall>call \<in> set calls. 1000 * t \<le> call_time call"
    and "same_state sha1 st K Q t r m"
  shows "\<exists>outs r' m'. storage_calls (redis_op sha1 lua describe st) r calls = Done (outs, r') \<and>
    storage_calls memory_check_and_update m calls = Done (outs, m') \<and> list_all is_ok outs \<and>
    length outs = length calls"
  using assms(3-6)
proof (induction calls arbitrary: t r m)
  case (Cons call calls)
  obtain key q cost now where call: "call = (key, q, cost, now)" by (cases call)
  have c: "key \<in> K" "q = Q key" "limited_quota q" "1000 dvd ei_nat q" "cost \<le> max_burst q"
    "1000 dvd unat now" "unat now div 1000 + 2 * bo_us q \<le> 2 ^ 53" and calls: "micros_calls_ok K Q calls"
    using Cons.prems(1) by (auto simp: call micros_calls_ok_def)
  define t' where "t' = unat now div 1000"
  have now: "unat now = 1000 * t'" using c(6) by (simp add: t'_def)
  have "t \<le> t'" using Cons.prems(3) by (simp add: call call_time_def now)
  then have same: "same_state sha1 st K Q t' r m" using Cons.prems(4) same_state_later by blast
  have "red_valid sha1 lua st K Q key (unat cost) t'"
    using assms(1,2) c by (simp add: red_valid_def t'_def word_le_nat_alt)
  then obtain d r1 m1 where step: "redis_op sha1 lua describe st r key (Q key) cost now = Done (Ok d, r1)"
    "memory_check_and_update m key (Q key) cost now = Done (Ok d, m1)" "same_state sha1 st K Q t' r1 m1"
    using same_state_step [where describe = describe, OF _ same _ now refl] c(2,4) by blast
  have "\<forall>call \<in> set calls. 1000 * t' \<le> call_time call"
    using Cons.prems(2) by (auto simp: call call_time_def now)
  then obtain outs r' m' where "storage_calls (redis_op sha1 lua describe st) r1 calls = Done (outs, r')"
    "storage_calls memory_check_and_update m1 calls = Done (outs, m')" "list_all is_ok outs" "length outs = length calls"
    using Cons.IH [OF calls _ _ step(3)] Cons.prems(2) by auto
  then show ?case using step c(2) by (simp add: call)
qed simp

lemma same_state_new: "same_state sha1 st K Q 0 fake_redis_default memory_new"
  by (simp add: same_state_def)

section \<open>Properties\<close>

text \<open>C8: \<open>RedisStorage\<close> gives the same answers as \<open>MemoryStorage\<close>. On any sequence of calls at non-decreasing
  times, with quotas and times in whole microseconds and costs within the burst, both storages, started
  empty, answer every call, and answer it alike: the same decision, limit, remaining requests, wait and
  reset time. Lua's doubles, the expiry of keys and the conversions through texts change nothing.\<close>

theorem redis_matches_memory:
  assumes "lua_ok lua" "inj_on (redis_key sha1 st) K" "micros_calls_ok K Q calls"
    and "sorted (map call_time calls)"
  shows "\<exists>outs r m. storage_calls (redis_op sha1 lua describe st) fake_redis_default calls = Done (outs, r) \<and>
    storage_calls memory_check_and_update memory_new calls = Done (outs, m) \<and>
    length outs = length calls \<and> (\<forall>out \<in> set outs. is_ok out)"
  using same_runs [where describe = describe, OF assms _ same_state_new] by (auto simp: list_all_iff)

theorem redis_matches_memory_witness:
  "\<exists>outs r m. storage_calls (redis_op demo_sha1 reference_lua (\<lambda>_. []) demo_redis) fake_redis_default
      [(demo_key, three_per_minute, 2, 5000), (demo_key, three_per_minute, 2, 7000)] = Done (outs, r) \<and>
    storage_calls memory_check_and_update memory_new
      [(demo_key, three_per_minute, 2, 5000), (demo_key, three_per_minute, 2, 7000)] = Done (outs, m) \<and>
    length outs = 2"
proof -
  have ok: "micros_calls_ok UNIV (\<lambda>_. three_per_minute)
      [(demo_key, three_per_minute, 2, 5000), (demo_key, three_per_minute, 2, 7000)]"
    using three_per_minute_limited
    by (simp add: micros_calls_ok_def three_per_minute_us three_per_minute_nat)
      (simp add: three_per_minute_def)
  show ?thesis
    using redis_matches_memory [OF reference_lua_ok demo_redis_inj ok, of "\<lambda>_. []"]
    by (auto simp: call_time_def simp del: storage_calls.simps)
qed

end
