(* ===== verification/Spec2Isabelle.thy ===== *)
theory Spec2Isabelle
  imports Breaker_Concurrency Breaker_Memory Breaker_Recovery Breaker_Tests Concurrent_Limiter Examples Readiness Redis_Delivery Redis_Memory
begin

text \<open>
  A verification of \<open>tower-rate-tier\<close>, a Rust crate that limits the request rate of HTTP services: each
  request is attributed to a user and a tier, each tier has a quota, and the quota is enforced with
  GCRA (the generic cell rate algorithm) on a theoretical arrival time (TAT) kept per user and tier.
  File names below are relative to the crate's \<open>src/src/\<close>, those of its example programs to \<open>src/examples/\<close>.

  \<^bold>\<open>The program\<close>

  \<^item> \<open>quota.rs\<close>, \<open>gcra.rs\<close>: quotas, and the pure check that decides one request from the stored TAT.
  \<^item> \<open>clock.rs\<close>: the monotonic clock and the fake clock with its compare-exchange loop.
  \<^item> \<open>storage/mod.rs\<close>, \<open>storage/memory.rs\<close>, \<open>gc.rs\<close>: the storage trait, the built-in storage (a concurrent
    map from user and tier to TAT) and the collector that drops expired entries.
  \<^item> \<open>storage/breaker/transition.rs\<close>, \<open>storage/breaker.rs\<close>: a storage that wraps another one and answers from
    a local \<open>MemoryStorage\<close> while it fails (closed, open, half-open with one probe).
  \<^item> \<open>tier.rs\<close>: the builder, the limiter and the programmatic \<open>check\<close>.
  \<^item> \<open>layer.rs\<close>, \<open>identifier.rs\<close>, \<open>event.rs\<close>, \<open>on_*.rs\<close>, \<open>cost.rs\<close>, \<open>check.rs\<close>, \<open>response.rs\<close>, \<open>service.rs\<close>,
    \<open>buffered.rs\<close>: the middleware. It identifies the request, resolves its quota, asks the storage and
    forwards to the inner service or answers itself.
  \<^item> \<open>storage/redis.rs\<close>, \<open>storage/gcra.lua\<close>: a storage shared by several instances. Each check is one atomic call
    of a Lua script on Redis; \<open>storage/redis/script_tests.rs\<close> has the stand-in for Redis it is tested on.

  \<^item> \<open>axum_basic.rs\<close>, \<open>axum_jwt.rs\<close>, \<open>axum_api_key.rs\<close>, \<open>axum_redis_fallback.rs\<close>: the example programs, each a
    limiter, an identifier and a layer put together.

  \<^bold>\<open>The theories\<close>

  \<^item> \<open>Prelude\<close>, \<open>Duration\<close>, \<open>Text_Format\<close>: what the sources use of the language and its library. Unsigned
    integers are words; saturating operations have their values in natural numbers (collection
    \<open>word_nat\<close>); \<open>result\<close> is \<open>Result\<close>; \<open>exec\<close> is a computation that returns or panics; strings are lists of code
    points; \<open>Duration\<close> is seconds and nanoseconds; \<open>SystemTime\<close> is an integer of nanoseconds.
  \<^item> \<open>Quota\<close>: \<open>quota.rs\<close>. Every constructor establishes \<open>quota_ok\<close>; exact values of the interval and offset.
  \<^item> \<open>Gcra\<close>: \<open>gcra.rs\<close>. \<open>check_gcra\<close> is compared with the abstract algorithm on natural numbers
    (\<open>gcra_next\<close>, \<open>gcra_conforms\<close>); what \<open>retry_after\<close>, \<open>remaining\<close> and \<open>reset_after\<close> mean.
  \<^item> \<open>Gcra_Runs\<close>: the abstract algorithm over sequences of requests: what a window can admit, and that
    conforming requests are all admitted.
  \<^item> \<open>Clock\<close>: \<open>clock.rs\<close>, with the fake clock as a step relation over any number of concurrent \<open>advance\<close>, \<open>set\<close> and
    \<open>now\<close> calls and the log of their invocations and responses; every execution is linearizable.
  \<^item> \<open>Storage\<close>: \<open>storage/mod.rs\<close> and two contracts of a storage. The locale \<open>gcra_store\<close> (steps and maintenance on
    a state with an invariant): its runs refine the abstract algorithm key by key. The locale
    \<open>answering_store\<close>: every request with a limited quota is answered with a decision.
  \<^item> \<open>Memory_Storage\<close>: \<open>storage/memory.rs\<close> and \<open>gc.rs\<close>; it interprets the contracts as \<open>mem\<close> and \<open>mem_answers\<close>.
  \<^item> \<open>Lua_Number\<close>, \<open>Fake_Redis\<close>, \<open>Gcra_Script\<close>: Lua's doubles with their rounding, the stand-in for Redis with its
    commands, and the script \<open>gcra.lua\<close> statement by statement: what it computes on arguments in range,
    and its safety on any arguments and any keyspace.
  \<^item> \<open>Redis_Storage\<close>: \<open>storage/redis.rs\<close> on that script. It interprets \<open>gcra_store\<close> in microseconds as \<open>red\<close>.
  \<^item> \<open>Redis_Delivery\<close>: the same storage on a connection that loses, refuses or delays calls: what callers are
    told to be allowed stays within the quota, although a late call is counted unseen.
  \<^item> \<open>Redis_Memory\<close>: a simulation that shows that it answers as \<open>Memory_Storage\<close> does.
  \<^item> \<open>Transition\<close>, \<open>Circuit_Breaker\<close>: the breaker's state machine and its operations, whole calls.
  \<^item> \<open>Breaker_Outage\<close>: the breaker while its primary fails, as a \<open>gcra_store\<close> (the interpretation \<open>outage\<close>): the local
    limits hold throughout. \<open>Breaker_Recovery\<close>: a primary that fails and recovers any number of times; each
    recovery forgets the local counts, and the bound on what the fallback admits says by how much.
    \<open>Breaker_Memory\<close>: what the fallback holds after each call, whatever the primary answers.
  \<^item> \<open>Breaker_Concurrency\<close>: the same calls in steps, each one critical section or atomic operation, with any
    number of calls in flight and any of them dropped at any point; the invariant that a half-open
    breaker has exactly one probe, and what follows from it. A call run without interruption is the whole call
    (\<open>run_call_refines\<close>).
  \<^item> \<open>Rate_Tier\<close>: \<open>tier.rs\<close>; \<open>build\<close> establishes \<open>rate_tier_ok\<close>; runs of checks refine runs of the
    built-in storage.
  \<^item> \<open>Collector\<close>: \<open>gc.rs\<close> and \<open>LazyGc\<close>: what a collection leaves behind and how much memory an idle key can hold, and
    the collector's lazy start as a step relation over any number of threads: one task, aborted on drop. The task may
    also end by itself, with its runtime or by a panic; the limiter then has no collector and starts no other.
  \<^item> \<open>Concurrent_Limiter\<close>: \<open>RateTier::check\<close> in its atomic steps, any number of checks at once, with the collector
    looking at one entry after another. Moves are a datatype and a run is computed from a list of moves; a potential
    carried through the run bounds what is allowed although readings reach the storage out of order.
  \<^item> \<open>Json\<close>, \<open>Response\<close>: \<open>response.rs\<close> with a JSON reader for what a client sees.
  \<^item> \<open>Check\<close>, \<open>Service\<close>, \<open>Buffered\<close>: the middleware. \<open>service_call\<close> and \<open>buffered_call\<close> follow the
    sources; \<open>gate\<close> is their common promise.
  \<^item> \<open>Readiness\<close>: \<open>poll_ready\<close>, and \<open>call\<close> up to the future it returns, for the three services of the crate. The
    locale \<open>tower_middleware\<close> is Tower's contract: a value is called only after it was polled ready. It is
    interpreted for each service (\<open>ready_service\<close>, \<open>ready_buffered\<close>, \<open>ready_cost\<close>).
  \<^item> \<open>Breaker_Limiter\<close>: a limiter whose storage is a circuit breaker, and Redis behind one.
  \<^item> \<open>Examples\<close>: the example programs: their limiters are built without a panic, who their identifiers identify,
    and what their layers promise; for the fallback example, a whole sequence of requests is compared with the
    breaker alone.
  \<^item> \<open>Debug_Output\<close>: the text \<open>Debug\<close> prints for the limiter, its storages and settings: no user, key or secret.
  \<^item> \<open>Unit_Tests\<close>, \<open>Breaker_Tests\<close>: the repository's own unit tests, as truth values evaluated on the model.
  \<^item> This theory: the properties that span the limiter, the middleware and the breaker.

  \<^bold>\<open>Parameters and hypotheses\<close>

  Code outside the repository is a parameter: the header map and reason phrases of the \<open>http\<close> crate
  (\<open>http_lib\<close>, with \<open>http_lib_ok\<close> what is relied on), the limited body reader of \<open>http_body_util\<close>
  (\<open>collect_ok\<close>), SHA-1 (\<open>sha1_ok\<close>: a digest has 20 bytes), \<open>tonumber\<close> of the Lua interpreter (\<open>lua_ok\<close>: a decimal
  numeral reads as its value, correctly rounded) and the connection to Redis, a custom storage and its operation,
  the breaker's primary storage, custom clocks and clock readings, the presence of a Tokio runtime, the inner
  service with its polling and cloning, identifiers and callbacks; for the examples the text of a header value,
  the path of a URI, the lookup of an API key, base64 and JSON decoding; for \<open>Debug\<close> how a string is quoted and
  in which order a hash map is listed.
  User code reads and changes a world of type \<open>'w\<close> and is taken to return. \<open>DashMap\<close> is a map whose
  entry operations are atomic, and a mutex section is one step.

  \<^bold>\<open>Bounds\<close>

  The rate guarantees hold while the clock is at least one burst before the end of \<open>u64\<close> nanoseconds
  (584 years after the clock's start): there the saturating arithmetic is exact. Single checks are
  characterised without that restriction. On Redis the clock is two bursts before \<open>2 ^ 53\<close> microseconds (the year
  2255): past that the script refuses to compute. The step model of a breaker call needs at most ten steps
  for a whole call. The JSON reader has one unit of fuel per member; the length of the text is
  always enough.

  \<^bold>\<open>Not modelled\<close>

  The Redis client's protocol and script loading, Lua's signed zeros, Tokio's timer (the collector's ticks come at
  any time), the examples' routes, environment variables and printed text, the benchmarks, and \<open>lib.rs\<close>, which only
  re-exports. Of the unit tests: those of SHA-1 digests, those that measure elapsed time, the one whose callback
  tries the breaker's lock (the model's callback only records events), and those with dozens of tasks or hundreds of
  generated user names.
\<close>

section \<open>Properties of a limiter behind a circuit breaker\<close>

text \<open>Behind a circuit breaker the storage error policy is never reached by \<open>check\<close>. Whatever the
  primary storage answers, as long as it returns on limited quotas, \<open>check\<close> on a limiter whose custom storage is a
  breaker with no probe in flight returns, never with a storage error, and leaves the breaker ready
  for the next call.\<close>

theorem breaker_hides_storage_errors:
  assumes "rate_tier_ok rt" "storage rt = Custom b" "breaker_idle b"
    and "primary_returns primary_op"
  shows "\<exists>r rt' b'. check (breaker_check_and_update primary_op) clock_now in_runtime rt user tier_name cost
      = Done (r, rt') \<and> (\<forall>e. r \<noteq> Err (StorageFailed e)) \<and> storage rt' = Custom b' \<and> breaker_idle b'"
proof (cases "\<exists>q. tiers rt tier_name = Some q \<and> \<not> is_unlimited q \<and> cost \<le> max_burst q")
  case True
  then obtain q where q: "tiers rt tier_name = Some q" "\<not> is_unlimited q" "cost \<le> max_burst q" by blast
  then have "limited_quota q" using tier_quota_ok [OF assms(1)] by (simp add: limited_quota_def)
  then obtain d rt' b' where "use_storage (breaker_check_and_update primary_op) in_runtime rt
      (storage_key_new user tier_name) q cost (clock_now (clock rt)) = Done (Ok d, rt')"
    "storage rt' = Custom b'" "breaker_idle b'"
    using use_breaker [OF assms(1-3) _ assms(4)] by blast
  moreover have "\<not> max_burst q < cost" using q(3) by simp
  ultimately show ?thesis using q by (simp add: check_def)
next
  case False
  then show ?thesis using assms(2,3) by (auto simp: check_def split: option.split)
qed

theorem breaker_hides_storage_errors_witness:
  "\<exists>r rt' b'. check (breaker_check_and_update failing_primary) (\<lambda>_. 5) False outage_rate_tier
      (lit ''u1'') (lit ''free'') 1 = Done (r, rt') \<and> (\<forall>e. r \<noteq> Err (StorageFailed e)) \<and>
    storage rt' = Custom b' \<and> breaker_idle b'"
  using breaker_hides_storage_errors [OF outage_rate_tier_ok _ breaker_new_idle [of 0 memory_new], of failing_primary]
  by (simp add: outage_rate_tier_def failing_primary_returns)

text \<open>C18: an outage never removes the limit. Behind a circuit breaker, a request whose tier has a limited
  quota is never passed through unlimited, not even with the fail-open \<open>OnStorageError::Allow\<close>: the
  gate always returns, and either forwards with the rate limit information of a decision or answers.\<close>

theorem outage_never_bypasses:
  assumes "rate_tier_ok rt" "storage rt = Custom b" "breaker_idle b"
    and "primary_returns primary_op"
    and "env_custom env = breaker_check_and_update primary_op"
    and "claimed_tier rt ident = Some (user, name)" "effective_tier rt name = Some name'"
    and "tiers rt name' = Some q" "\<not> is_unlimited q"
  shows "\<exists>v rt' w'. gate env rt st ident ps w = Done (v, rt', w') \<and> v \<noteq> Forward None"
  using gate_on_breaker [OF assms] by blast

theorem outage_never_bypasses_witness:
  "\<exists>v rt' w'. gate outage_env outage_rate_tier (demo_settings\<lparr>on_storage_error := StorageErrorAllow\<rparr>)
      (Some demo_identity) (demo_parts None) 0 = Done (v, rt', w') \<and> v \<noteq> Forward None"
proof (rule outage_never_bypasses [OF outage_rate_tier_ok])
  show "storage outage_rate_tier = Custom (breaker_new 0 memory_new)" by (simp add: outage_rate_tier_def)
  show "breaker_idle (breaker_new (0 :: nat) memory_new)" by (rule breaker_new_idle)
  show "primary_returns failing_primary" by (rule failing_primary_returns)
  show "env_custom outage_env = breaker_check_and_update failing_primary" by (simp add: outage_env_def)
  show "claimed_tier outage_rate_tier (Some demo_identity) = Some (lit ''u1'', lit ''free'')"
    by (simp add: claimed_tier_def demo_identity_def tier_identity_new_def)
  show "effective_tier outage_rate_tier (lit ''free'') = Some (lit ''free'')"
    "tiers outage_rate_tier (lit ''free'') = Some three_per_minute"
    by (simp_all add: effective_tier_def outage_rate_tier_def)
qed (rule three_not_unlimited)

end
